(* ===== verification/Prelude.thy ===== *)
theory Prelude
  imports Complex_Main "HOL-Library.List_Lexorder" "HOL-Library.Char_ord" "HOL-Library.Multiset"
begin

text \<open>
  What every component shares: the result type of fallible operations, Go maps and the order in which
  a \<^verbatim>\<open>range\<close> over one visits its keys, the insertion-sort loop that two packages of the program
  contain, and the collections of rewrite rules.
\<close>

named_theorems go_simps \<open>unfoldings that evaluate a modelled operation\<close>
named_theorems frame_simps \<open>what an operation leaves unchanged\<close>

subsection \<open>Results\<close>

text \<open>
  An operation that can return an error, or panic, has the type \<open>'a res\<close>. A panic is not an error
  value: it unwinds to the recover of the poll loop.
\<close>

datatype gerr = Panic | Err string

type_synonym 'a res = "gerr + 'a"

abbreviation is_ok :: "'a res \<Rightarrow> bool" where
  "is_ok r \<equiv> \<not> isl r"

definition res_bind :: "'a res \<Rightarrow> ('a \<Rightarrow> 'b res) \<Rightarrow> 'b res" where
  "res_bind r f = (case r of Inl e \<Rightarrow> Inl e | Inr a \<Rightarrow> f a)"

lemma res_bind_simps [simp]: "res_bind (Inl e) f = Inl e" "res_bind (Inr a) f = f a"
  by (simp_all add: res_bind_def)

lemma res_bind_Inr: "res_bind r f = Inr b \<longleftrightarrow> (\<exists>a. r = Inr a \<and> f a = Inr b)"
  by (cases r) auto

text \<open>The elements of a list are processed in order; the first error stops the loop.\<close>

definition opt_res :: "string \<Rightarrow> 'a option \<Rightarrow> 'a res" where
  "opt_res e x = (case x of None \<Rightarrow> Inl (Err e) | Some a \<Rightarrow> Inr a)"

lemma opt_res_simps [simp]: "opt_res e None = Inl (Err e)" "opt_res e (Some a) = Inr a"
  by (simp_all add: opt_res_def)

lemma opt_res_Inr [simp]: "opt_res e x = Inr a \<longleftrightarrow> x = Some a"
  by (cases x) auto

text \<open>A run that may fail but does not panic.\<close>

definition no_panic :: "'a res \<Rightarrow> bool" where
  "no_panic r \<longleftrightarrow> r \<noteq> Inl Panic"

lemma no_panic_simps [simp]: "no_panic (Inr a)" "no_panic (Inl (Err e))" "no_panic (opt_res e x)"
  by (simp_all add: no_panic_def opt_res_def split: option.splits)

lemma no_panic_bind: "no_panic r \<Longrightarrow> (\<And>a. r = Inr a \<Longrightarrow> no_panic (f a)) \<Longrightarrow> no_panic (res_bind r f)"
  by (cases r) (auto simp: no_panic_def)

fun res_all :: "('a \<Rightarrow> 'b res) \<Rightarrow> 'a list \<Rightarrow> 'b list res" where
  "res_all f [] = Inr []"
| "res_all f (x # xs) = res_bind (f x) (\<lambda>y. res_bind (res_all f xs) (\<lambda>ys. Inr (y # ys)))"

lemma no_panic_all: "(\<And>x. x \<in> set xs \<Longrightarrow> no_panic (f x)) \<Longrightarrow> no_panic (res_all f xs)"
  by (induction xs) (auto intro!: no_panic_bind)

lemma res_all_Inr: "res_all f xs = Inr ys \<longleftrightarrow> list_all2 (\<lambda>x y. f x = Inr y) xs ys"
  by (induction xs arbitrary: ys) (auto simp: res_bind_Inr list_all2_Cons1)

lemma res_all_cong: "(\<And>x. x \<in> set xs \<Longrightarrow> f x = Inr (g x)) \<Longrightarrow> res_all f xs = Inr (map g xs)"
  by (induction xs) auto

subsection \<open>Maps\<close>

text \<open>
  A Go map has no order: a \<^verbatim>\<open>range\<close> over it may visit the keys in any order. Operations that iterate
  over a map take that order as an argument; \<open>iter_order\<close> says that a list is one.
\<close>

definition iter_order :: "('k \<rightharpoonup> 'v) \<Rightarrow> 'k list \<Rightarrow> bool" where
  "iter_order m ks \<longleftrightarrow> distinct ks \<and> set ks = dom m"

lemma iter_order_mem: "iter_order m ks \<Longrightarrow> k \<in> set ks \<longleftrightarrow> (\<exists>v. m k = Some v)"
  by (auto simp: iter_order_def)

lemma iter_order_mset: "iter_order m ks \<Longrightarrow> iter_order m ls \<Longrightarrow> mset ks = mset ls"
  by (simp add: iter_order_def set_eq_iff_mset_eq_distinct [symmetric])

lemma iter_order_sort: "iter_order m ks \<Longrightarrow> iter_order m ls \<Longrightarrow> sort ks = sort ls"
  by (intro properties_for_sort) (auto dest: iter_order_mset)

text \<open>Reading a missing key of a map of strings gives the empty string.\<close>

definition map_get :: "('k \<rightharpoonup> string) \<Rightarrow> 'k \<Rightarrow> string" where
  "map_get m k = (case m k of None \<Rightarrow> [] | Some v \<Rightarrow> v)"

lemma map_get_upd [simp]: "map_get (m(k \<mapsto> v)) k' = (if k' = k then v else map_get m k')"
  by (simp add: map_get_def)

lemma map_get_empty [simp]: "map_get Map.empty k = []"
  by (simp add: map_get_def)

subsection \<open>The insertion-sort loop\<close>

text \<open>
  \<^verbatim>\<open>
  for i := 1; i < len(s); i++ {
      for j := i; j > 0 && s[j] < s[j-1]; j-- { s[j], s[j-1] = s[j-1], s[j] }
  }
  \<close>
  The comparison is a parameter: the loop is used on floats, where \<open><\<close> is false on NaN, and on strings.
\<close>

fun sift :: "('a \<Rightarrow> 'a \<Rightarrow> bool) \<Rightarrow> 'a list \<Rightarrow> nat \<Rightarrow> 'a list" where
  "sift lt s 0 = s"
| "sift lt s (Suc j) =
     (if lt (s ! Suc j) (s ! j) then sift lt (s[Suc j := s ! j, j := s ! Suc j]) j else s)"

definition swap_sort :: "('a \<Rightarrow> 'a \<Rightarrow> bool) \<Rightarrow> 'a list \<Rightarrow> 'a list" where
  "swap_sort lt s = foldl (sift lt) s [1..<length s]"

lemma length_sift [simp]: "length (sift lt s j) = length s"
  by (induction lt s j rule: sift.induct) auto

lemma mset_sift: "j < length s \<Longrightarrow> mset (sift lt s j) = mset s"
proof (induction lt s j rule: sift.induct)
  case (2 lt s j)
  have "mset (s[Suc j := s ! j, j := s ! Suc j]) = mset s"
    using 2 by (subst mset_swap) auto
  with 2 show ?case by simp
qed simp

lemma length_swaps [simp]: "length (foldl (sift lt) s is) = length s"
  by (induction "is" arbitrary: s) auto

lemma mset_swap_sort: "mset (swap_sort lt s) = mset s"
proof -
  have "mset (foldl (sift lt) s is) = mset s" if "\<forall>i \<in> set is. i < length s" for "is"
    using that by (induction "is" arbitrary: s) (auto simp: mset_sift)
  then show ?thesis by (simp add: swap_sort_def)
qed

lemma sift_sorted:
  fixes xs :: "'a :: linorder list"
  assumes "sorted xs" and "\<forall>a \<in> set (x # xs). \<forall>b \<in> set (x # xs). lt a b \<longleftrightarrow> a < b"
  shows "sift lt (xs @ x # ys) (length xs) = sort (x # xs) @ ys"
  using assms
proof (induction xs arbitrary: ys rule: rev_induct)
  case Nil
  then show ?case by simp
next
  case (snoc y xs)
  have get: "((xs @ [y]) @ x # ys) ! Suc (length xs) = x" "((xs @ [y]) @ x # ys) ! length xs = y"
    by (simp_all add: nth_append)
  have lt: "lt x y \<longleftrightarrow> x < y" using snoc.prems by simp
  have so: "sorted xs" "\<forall>a \<in> set xs. a \<le> y" using snoc.prems by (auto simp: sorted_append)
  show ?case
  proof (cases "x < y")
    case True
    have "((xs @ [y]) @ x # ys)[Suc (length xs) := y, length xs := x] = xs @ x # y # ys"
      by (simp add: list_update_append)
    then have "sift lt ((xs @ [y]) @ x # ys) (length (xs @ [y])) = sort (x # xs) @ y # ys"
      using snoc.IH [OF so(1), of "y # ys"] snoc.prems True lt get by simp
    also have "\<dots> = (sort (x # xs) @ [y]) @ ys" by simp
    also have "sort (x # xs) @ [y] = sort (x # xs @ [y])"
      using so True
      by (intro properties_for_sort [symmetric]) (auto simp: sorted_append sorted_insort set_insort_key)
    finally show ?thesis by simp
  next
    case False
    have "xs @ [y, x] = sort (x # xs @ [y])"
      using so False by (intro properties_for_sort [symmetric]) (auto simp: sorted_append)
    then show ?thesis using False lt get by simp
  qed
qed

lemma swap_sort_eq_sort:
  fixes s :: "'a :: linorder list"
  assumes lt: "\<forall>a \<in> set s. \<forall>b \<in> set s. lt a b \<longleftrightarrow> a < b"
  shows "swap_sort lt s = sort s"
proof -
  have step: "foldl (sift lt) s [1..<Suc i] = sort (take (Suc i) s) @ drop (Suc i) s" if "i < length s" for i
    using that
  proof (induction i)
    case 0
    then show ?case by (cases s) auto
  next
    case (Suc i)
    let ?p = "sort (take (Suc i) s)" and ?x = "s ! Suc i"
    have d: "drop (Suc i) s = ?x # drop (Suc (Suc i)) s" using Suc.prems by (simp add: Cons_nth_drop_Suc)
    have t: "take (Suc (Suc i)) s = take (Suc i) s @ [?x]" using Suc.prems by (simp add: take_Suc_conv_app_nth)
    have lp: "length ?p = Suc i" using Suc.prems by simp
    have sub: "set (?x # ?p) \<subseteq> set s" using Suc.prems set_take_subset [of "Suc i" s] by auto
    have "foldl (sift lt) s [1..<Suc (Suc i)] = sift lt (?p @ ?x # drop (Suc (Suc i)) s) (length ?p)"
      using Suc d by (simp add: lp)
    also have "\<dots> = sort (?x # ?p) @ drop (Suc (Suc i)) s"
      using lt sub by (intro sift_sorted) auto
    also have "sort (?x # ?p) = sort (take (Suc (Suc i)) s)"
      by (intro properties_for_sort) (auto simp: t)
    finally show ?case .
  qed
  show ?thesis
  proof (cases s)
    case Nil
    then show ?thesis by (simp add: swap_sort_def)
  next
    case (Cons x xs)
    then show ?thesis using step [of "length s - 1"] by (simp add: swap_sort_def)
  qed
qed

subsection \<open>Sorting routines as an interface\<close>

text \<open>
  A routine sorts if it returns the same elements and, on the inputs it accepts, in ascending order.
  That determines its result: the facts below hold for every such routine.
\<close>

locale sorter =
  fixes srt :: "'a :: linorder list \<Rightarrow> 'a list" and ok :: "'a \<Rightarrow> bool"
  assumes mset_srt: "mset (srt xs) = mset xs"
    and sorted_srt: "(\<forall>x \<in> set xs. ok x) \<Longrightarrow> sorted (srt xs)"
begin

lemma srt_eq_sort: "(\<forall>x \<in> set xs. ok x) \<Longrightarrow> srt xs = sort xs"
  by (metis mset_srt sorted_srt properties_for_sort)

lemma length_srt [simp]: "length (srt xs) = length xs"
  by (metis mset_srt size_mset)

lemma set_srt [simp]: "set (srt xs) = set xs"
  by (metis mset_srt set_mset_mset)

lemma srt_nth_mem: "i < length xs \<Longrightarrow> srt xs ! i \<in> set xs"
  by (metis length_srt nth_mem set_srt)

lemma srt_perm: "(\<forall>x \<in> set xs. ok x) \<Longrightarrow> mset xs = mset ys \<Longrightarrow> srt xs = srt ys"
  by (metis srt_eq_sort properties_for_sort mset_sort sorted_sort set_mset_mset)

lemma srt_nth_mono: "(\<forall>x \<in> set xs. ok x) \<Longrightarrow> i \<le> j \<Longrightarrow> j < length xs \<Longrightarrow> srt xs ! i \<le> srt xs ! j"
  by (metis length_srt sorted_srt sorted_nth_mono)

end

interpretation hol_sort: sorter sort "\<lambda>_. True"
  by unfold_locales simp_all

subsection \<open>Lists\<close>

text \<open>Order statistics: when a majority of the elements lies in an interval, so do the middle ones of the sorted list.\<close>

lemma sorted_nth_lower:
  fixes lo :: "'a :: linorder"
  assumes "sorted s" "i < length s" "length (filter (\<lambda>x. x < lo) s) \<le> i"
  shows "lo \<le> s ! i"
proof (rule ccontr)
  assume "\<not> lo \<le> s ! i"
  then have "\<forall>x \<in> set (take (Suc i) s). x < lo"
    using assms by (auto simp: in_set_conv_nth) (metis le_less_trans less_Suc_eq_le not_le sorted_nth_mono)
  then have "filter (\<lambda>x. x < lo) (take (Suc i) s) = take (Suc i) s" by simp
  then have "Suc i \<le> length (filter (\<lambda>x. x < lo) (take (Suc i) s @ drop (Suc i) s))"
    using assms by (simp only: filter_append) simp
  then show False using assms by simp
qed

lemma sorted_nth_upper:
  fixes hi :: "'a :: linorder"
  assumes "sorted s" "i < length s" "length (filter (\<lambda>x. hi < x) s) < length s - i"
  shows "s ! i \<le> hi"
proof (rule ccontr)
  assume n: "\<not> s ! i \<le> hi"
  have "hi < x" if "x \<in> set (drop i s)" for x
  proof -
    obtain j where "j < length (drop i s)" "x = drop i s ! j" using \<open>x \<in> set (drop i s)\<close> by (metis in_set_conv_nth)
    then have "s ! i \<le> x" using assms by (simp add: sorted_nth_mono)
    then show ?thesis using n by simp
  qed
  then have "filter (\<lambda>x. hi < x) (drop i s) = drop i s" by simp
  then have "length s - i \<le> length (filter (\<lambda>x. hi < x) (take i s @ drop i s))"
    by (simp only: filter_append) simp
  then show False using assms by simp
qed

lemma length_filter_sort: "length (filter P (sort xs)) = length (filter P xs)"
  by (metis mset_filter mset_sort size_mset)

lemma sort_majority:
  fixes lo :: "'a :: linorder"
  assumes maj: "length xs div 2 < length (filter (\<lambda>x. lo \<le> x \<and> x \<le> hi) xs)"
    and i: "i = length xs div 2 \<or> even (length xs) \<and> Suc i = length xs div 2"
  shows "lo \<le> sort xs ! i \<and> sort xs ! i \<le> hi"
proof -
  have n: "0 < length xs" using maj by (cases xs) auto
  have arith: "a \<le> n - c \<Longrightarrow> b \<le> n - c \<Longrightarrow> n div 2 < c \<Longrightarrow> i = n div 2 \<or> even n \<and> Suc i = n div 2 \<Longrightarrow> 0 < n \<Longrightarrow>
      a \<le> i \<and> b < n - i \<and> i < n" for a b c n i :: nat
    by (cases "even n") (auto elim!: evenE oddE)
  have "length (filter (\<lambda>x. x < lo) xs) \<le> length (filter (\<lambda>x. \<not> (lo \<le> x \<and> x \<le> hi)) xs)"
    "length (filter (\<lambda>x. hi < x) xs) \<le> length (filter (\<lambda>x. \<not> (lo \<le> x \<and> x \<le> hi)) xs)"
    by (induction xs) auto
  moreover have "length (filter (\<lambda>x. \<not> (lo \<le> x \<and> x \<le> hi)) xs)
      = length xs - length (filter (\<lambda>x. lo \<le> x \<and> x \<le> hi) xs)"
    using sum_length_filter_compl [of "\<lambda>x. lo \<le> x \<and> x \<le> hi" xs] by simp
  ultimately have "length (filter (\<lambda>x. x < lo) (sort xs)) \<le> i"
    "length (filter (\<lambda>x. hi < x) (sort xs)) < length (sort xs) - i" "i < length (sort xs)"
    unfolding length_filter_sort length_sort using arith [OF _ _ maj i n] by auto
  then show ?thesis using sorted_nth_lower sorted_nth_upper by (metis sorted_sort)
qed

lemma length_filter_card: "distinct xs \<Longrightarrow> length (filter P xs) = card {x \<in> set xs. P x}"
  by (metis distinct_card distinct_filter set_filter)

lemma last_in_append: "ys \<noteq> [] \<Longrightarrow> last (xs @ ys) = last ys"
  by simp

lemma filter_ex_conv: "filter P xs \<noteq> [] \<longleftrightarrow> (\<exists>x \<in> set xs. P x)"
  by (simp add: filter_empty_conv)

end
