(* ===== verification/GoFloat.thy ===== *)
theory GoFloat
  imports Prelude
begin

text \<open>
  Go's \<^verbatim>\<open>float64\<close> as it is: IEEE-754 binary64 values are NaN, the two infinities and the
  rationals of the form \<open>m * 2 ^ e\<close> with a 53-bit mantissa and \<open>e \<ge> - 1074\<close>; every arithmetic
  operation computes the exact rational and rounds it to nearest, ties to even (\<open>rnd\<close>), with
  overflow to the infinities. The language's \<open><\<close> and \<open><=\<close> are \<open>flt\<close> and \<open>fle\<close>, false on NaN,
  while the \<open>linorder\<close> instance is the total order of \<^verbatim>\<open>sort.Float64s\<close> (NaN first).

  Two points are simplified: the sign of a zero is not kept (the modelled code never divides by a
  zero it has not excluded before), and a fused multiply-add is never used (as on amd64).
  The conversion of a float to an \<^verbatim>\<open>int64\<close> is defined by Go only when the value fits; out of range the
  result belongs to the platform, which is the parameter \<open>arch\<close>: amd64 gives \<open>- 2 ^ 63\<close>, arm64 saturates.

  Main results: rounding is monotone (\<open>rnd_mono\<close>), exact on representable values (\<open>rnd_rep\<close>) and off by at
  most half a unit in the last place (\<open>rnd_error\<close>).
\<close>

subsection \<open>Powers of two and the binary logarithm\<close>

definition p2 :: "int \<Rightarrow> rat" where
  "p2 k = (if 0 \<le> k then 2 ^ nat k else 1 / 2 ^ nat (- k))"

function blen :: "int \<Rightarrow> int" where
  "blen n = (if n \<le> 0 then 0 else 1 + blen (n div 2))"
  by pat_completeness auto
termination by (relation "measure nat") auto

declare blen.simps [simp del]

definition ilog2 :: "rat \<Rightarrow> int" where
  "ilog2 q = (if 1 \<le> q then blen \<lfloor>q\<rfloor> - 1 else - blen (\<lceil>1 / q\<rceil> - 1))"

lemma p2_powi: "p2 k = power_int 2 k"
  by (simp add: p2_def power_int_def power_one_over)

lemma p2_pos [simp]: "0 < p2 k"
  by (simp add: p2_powi zero_less_power_int)

lemma p2_nonneg [simp]: "0 \<le> p2 k"
  by (rule less_imp_le) simp

lemma p2_neq0 [simp]: "p2 k \<noteq> 0"
  using p2_pos [of k] by linarith

lemma p2_add: "p2 (a + b) = p2 a * p2 b"
  by (simp add: p2_powi power_int_add)

lemma p2_diff: "p2 (a - b) = p2 a / p2 b"
  by (simp add: p2_powi power_int_diff)

lemma p2_minus: "p2 (- a) = 1 / p2 a"
  by (simp add: p2_powi power_int_minus divide_inverse)

lemma p2_mono: "a \<le> b \<Longrightarrow> p2 a \<le> p2 b"
  by (simp add: p2_powi power_int_increasing)

lemma p2_strict_mono: "a < b \<Longrightarrow> p2 a < p2 b"
  by (simp add: p2_powi power_int_strict_increasing)

lemma p2_less_iff: "p2 a < p2 b \<longleftrightarrow> a < b"
  using p2_mono [of b a] p2_strict_mono [of a b] by linarith

lemma p2_le_iff: "p2 a \<le> p2 b \<longleftrightarrow> a \<le> b"
  using p2_less_iff [of b a] by linarith

lemma p2_int: "0 \<le> k \<Longrightarrow> p2 k = of_int (2 ^ nat k)"
  by (simp add: p2_def)

lemma blen_nonneg [simp]: "0 \<le> blen n"
  by (induction n rule: blen.induct) (subst blen.simps, auto)

lemma blen_bounds: "0 < n \<Longrightarrow> 2 ^ nat (blen n - 1) \<le> n \<and> n < 2 ^ nat (blen n) \<and> 0 < blen n"
proof (induction n rule: blen.induct)
  case (1 n)
  show ?case
  proof (cases "n = 1")
    case True
    then show ?thesis by (simp add: blen.simps [of 1] blen.simps [of 0])
  next
    case False
    with 1 have h: "2 ^ nat (blen (n div 2) - 1) \<le> n div 2" "n div 2 < 2 ^ nat (blen (n div 2))"
      "0 < blen (n div 2)" by auto
    from 1 have b: "blen n = 1 + blen (n div 2)" by (subst blen.simps) simp
    define k where "k = nat (blen (n div 2) - 1)"
    have k: "blen (n div 2) = int k + 1" using h(3) by (simp add: k_def)
    have "nat (int k + 1) = Suc k" "nat (2 + int k) = Suc (Suc k)" "nat (1 + int k) = Suc k" by auto
    with h k show ?thesis by (auto simp: b)
  qed
qed

lemma ilog2_bounds:
  assumes "0 < q"
  shows "p2 (ilog2 q) \<le> q" and "q < p2 (ilog2 q + 1)"
proof -
  have "p2 (ilog2 q) \<le> q \<and> q < p2 (ilog2 q + 1)"
  proof (cases "1 \<le> q")
    case True
    then have "0 < \<lfloor>q\<rfloor>" by simp
    note b = blen_bounds [OF this]
    then have "p2 (blen \<lfloor>q\<rfloor> - 1) = of_int (2 ^ nat (blen \<lfloor>q\<rfloor> - 1))" by (intro p2_int) simp
    also have "\<dots> \<le> of_int \<lfloor>q\<rfloor>" using b by (intro of_int_le_iff [THEN iffD2]) simp
    also have "\<dots> \<le> q" by simp
    finally have l: "p2 (blen \<lfloor>q\<rfloor> - 1) \<le> q" .
    have "q < of_int (\<lfloor>q\<rfloor> + 1)" by linarith
    also have "\<dots> \<le> of_int (2 ^ nat (blen \<lfloor>q\<rfloor>))" using b by (intro of_int_le_iff [THEN iffD2]) simp
    also have "\<dots> = p2 (blen \<lfloor>q\<rfloor>)" by (rule p2_int [symmetric]) simp
    finally show ?thesis using l True by (simp add: ilog2_def)
  next
    case False
    define c where "c = \<lceil>1 / q\<rceil> - 1"
    from False assms have "1 < 1 / q" by (simp add: field_simps)
    then have "0 < c" unfolding c_def by linarith
    note b = blen_bounds [OF this]
    have c1: "of_int c < 1 / q" and c2: "1 / q \<le> of_int c + 1" unfolding c_def by linarith+
    have "p2 (blen c - 1) = of_int (2 ^ nat (blen c - 1))" using b by (intro p2_int) simp
    also have "\<dots> \<le> of_int c" using b by (intro of_int_le_iff [THEN iffD2]) simp
    finally have "p2 (blen c - 1) < 1 / q" using c1 by simp
    then have "q < 1 / p2 (blen c - 1)" using assms by (simp add: field_simps)
    then have u: "q < p2 (- blen c + 1)" using p2_minus [of "blen c - 1"] by simp
    have "1 / q \<le> of_int (c + 1)" using c2 by simp
    also have "\<dots> \<le> of_int (2 ^ nat (blen c))" using b by (intro of_int_le_iff [THEN iffD2]) simp
    also have "\<dots> = p2 (blen c)" by (rule p2_int [symmetric]) simp
    finally have "p2 (- blen c) \<le> q" using assms by (simp add: p2_minus field_simps)
    with u False show ?thesis by (simp add: ilog2_def c_def)
  qed
  then show "p2 (ilog2 q) \<le> q" and "q < p2 (ilog2 q + 1)" by auto
qed

lemma ilog2_mono: "0 < x \<Longrightarrow> x \<le> y \<Longrightarrow> ilog2 x \<le> ilog2 y"
  using ilog2_bounds(1) [of x] ilog2_bounds(2) [of y] p2_less_iff [of "ilog2 x" "ilog2 y + 1"]
  by simp

lemma ilog2_eqI: "p2 k \<le> q \<Longrightarrow> q < p2 (k + 1) \<Longrightarrow> ilog2 q = k"
proof -
  assume a: "p2 k \<le> q" "q < p2 (k + 1)"
  then have "0 < q" using p2_pos [of k] by linarith
  then have "p2 (ilog2 q) < p2 (k + 1)" "p2 k < p2 (ilog2 q + 1)"
    using a ilog2_bounds [of q] by linarith+
  then show ?thesis by (simp add: p2_less_iff)
qed

subsection \<open>Rounding to an integer, ties to even\<close>

definition rne :: "rat \<Rightarrow> int" where
  "rne x = (let f = \<lfloor>x\<rfloor>; d = x - of_int f in
     if d < 1 / 2 then f else if 1 / 2 < d then f + 1 else if even f then f else f + 1)"

lemma rne_of_int [simp]: "rne (of_int n) = n"
  by (simp add: rne_def Let_def)

lemma rne_bounds: "rne x = \<lfloor>x\<rfloor> \<or> rne x = \<lfloor>x\<rfloor> + 1"
  by (simp add: rne_def Let_def)

lemma rne_le_of_int: "x \<le> of_int n \<Longrightarrow> rne x \<le> n"
proof -
  assume le: "x \<le> of_int n"
  show ?thesis
  proof (cases "x = of_int n")
    case True
    then show ?thesis by simp
  next
    case False
    with le have "\<lfloor>x\<rfloor> < n" by (simp add: floor_less_iff)
    then show ?thesis using rne_bounds [of x] by auto
  qed
qed

lemma rne_ge_of_int: "of_int n \<le> x \<Longrightarrow> n \<le> rne x"
  using rne_bounds [of x] by (auto simp: le_floor_iff [symmetric])

lemma rne_mono: "x \<le> y \<Longrightarrow> rne x \<le> rne y"
proof -
  assume le: "x \<le> y"
  then have f: "\<lfloor>x\<rfloor> \<le> \<lfloor>y\<rfloor>" by (rule floor_mono)
  show ?thesis
  proof (cases "\<lfloor>x\<rfloor> = \<lfloor>y\<rfloor>")
    case True
    then show ?thesis using le by (simp add: rne_def Let_def)
  next
    case False
    with f show ?thesis using rne_bounds [of x] rne_bounds [of y] by auto
  qed
qed

lemma rne_minus: "rne (- x) = - rne x"
proof (cases "x = of_int \<lfloor>x\<rfloor>")
  case True
  then have "rne (- x) = rne (of_int (- \<lfloor>x\<rfloor>))" by simp
  also have "\<dots> = - \<lfloor>x\<rfloor>" by (rule rne_of_int)
  also have "\<dots> = - rne (of_int \<lfloor>x\<rfloor>)" by simp
  finally show ?thesis using True by simp
next
  case False
  then have "\<lfloor>- x\<rfloor> = - \<lfloor>x\<rfloor> - 1"
    by (intro floor_unique) linarith+
  then show ?thesis using False by (auto simp: rne_def Let_def)
qed


subsection \<open>The type and its order\<close>

datatype f64 = NaN | NInf | Fin rat | PInf

instantiation f64 :: linorder
begin

fun less_eq_f64 :: "f64 \<Rightarrow> f64 \<Rightarrow> bool" where
  "less_eq_f64 NaN y = True"
| "less_eq_f64 NInf y = (y \<noteq> NaN)"
| "less_eq_f64 (Fin a) y = (case y of Fin b \<Rightarrow> a \<le> b | PInf \<Rightarrow> True | _ \<Rightarrow> False)"
| "less_eq_f64 PInf y = (y = PInf)"

definition less_f64 :: "f64 \<Rightarrow> f64 \<Rightarrow> bool" where
  "less_f64 x y = (x \<le> y \<and> \<not> y \<le> x)"

instance
proof
  fix x y z :: f64
  show "(x < y) = (x \<le> y \<and> \<not> y \<le> x)" by (rule less_f64_def)
  show "x \<le> x" by (cases x) auto
  show "x \<le> y \<Longrightarrow> y \<le> z \<Longrightarrow> x \<le> z" by (cases x; cases y; cases z) auto
  show "x \<le> y \<Longrightarrow> y \<le> x \<Longrightarrow> x = y" by (cases x; cases y) auto
  show "x \<le> y \<or> y \<le> x" by (cases x; cases y) auto
qed

end

lemma f64_less_simps [simp]:
  "Fin a < Fin b \<longleftrightarrow> a < b" "NaN < Fin a" "NInf < Fin a" "Fin a < PInf" "NaN < NInf" "NaN < PInf" "NInf < PInf"
  "\<not> Fin a < NaN" "\<not> Fin a < NInf" "\<not> PInf < x" "\<not> x < NaN" "\<not> NInf < NInf"
  by (auto simp: less_f64_def)

text \<open>The comparisons of the language: false as soon as one side is NaN.\<close>

definition flt :: "f64 \<Rightarrow> f64 \<Rightarrow> bool" where
  "flt x y \<longleftrightarrow> x \<noteq> NaN \<and> y \<noteq> NaN \<and> x < y"

definition fle :: "f64 \<Rightarrow> f64 \<Rightarrow> bool" where
  "fle x y \<longleftrightarrow> x \<noteq> NaN \<and> y \<noteq> NaN \<and> x \<le> y"

lemma flt_simps [simp]:
  "\<not> flt NaN y" "\<not> flt x NaN" "flt (Fin a) (Fin b) \<longleftrightarrow> a < b" "flt (Fin a) PInf" "flt NInf (Fin a)" "flt NInf PInf"
  "\<not> flt PInf y"
  by (auto simp: flt_def)

lemma not_flt_NInf [simp]: "\<not> flt x NInf"
  by (cases x) (auto simp: flt_def)

lemma fle_simps [simp]:
  "\<not> fle NaN y" "\<not> fle x NaN" "fle (Fin a) (Fin b) \<longleftrightarrow> a \<le> b" "fle (Fin a) PInf" "fle NInf (Fin a)" "fle NInf PInf"
  "\<not> fle PInf (Fin a)" "\<not> fle (Fin a) NInf" "\<not> fle PInf NInf" "fle PInf PInf" "fle NInf NInf"
  by (auto simp: fle_def)

lemma not_flt_iff: "x \<noteq> NaN \<Longrightarrow> y \<noteq> NaN \<Longrightarrow> \<not> flt x y \<longleftrightarrow> fle y x"
  by (auto simp: flt_def fle_def)

subsection \<open>Rounding to the nearest float\<close>

definition ulp_exp :: "rat \<Rightarrow> int" where
  "ulp_exp q = max (ilog2 \<bar>q\<bar> - 52) (- 1074)"

definition rnd :: "rat \<Rightarrow> f64" where
  "rnd q = (if q = 0 then Fin 0 else
     let u = ulp_exp q; m = rne (q / p2 u) in
     if 971 < u \<or> u = 971 \<and> 2 ^ 53 \<le> \<bar>m\<bar> then (if 0 < q then PInf else NInf)
     else Fin (of_int m * p2 u))"

definition rv :: "rat \<Rightarrow> rat" where
  "rv q = of_int (rne (q / p2 (ulp_exp q))) * p2 (ulp_exp q)"

definition fneg :: "f64 \<Rightarrow> f64" where
  "fneg x = (case x of NaN \<Rightarrow> NaN | NInf \<Rightarrow> PInf | PInf \<Rightarrow> NInf | Fin a \<Rightarrow> Fin (- a))"

lemma ulp_exp_mono: "0 < x \<Longrightarrow> x \<le> y \<Longrightarrow> ulp_exp x \<le> ulp_exp y"
  using ilog2_mono [of x y] by (auto simp: ulp_exp_def)

lemma ulp_exp_le: "0 < q \<Longrightarrow> - 1074 < ulp_exp q \<Longrightarrow> p2 (ulp_exp q + 52) \<le> q"
  using ilog2_bounds(1) [of q] by (auto simp: ulp_exp_def split: if_splits)

lemma ulp_exp_gt: "0 < q \<Longrightarrow> q < p2 (ulp_exp q + 53)"
proof -
  assume q: "0 < q"
  then have "ilog2 q + 1 \<le> ulp_exp q + 53" by (simp add: ulp_exp_def)
  then show ?thesis using ilog2_bounds(2) [OF q] p2_mono [of "ilog2 q + 1" "ulp_exp q + 53"] by linarith
qed

lemma rv_ge: "0 < q \<Longrightarrow> ulp_exp q \<le> k \<Longrightarrow> p2 k \<le> q \<Longrightarrow> p2 k \<le> rv q"
proof -
  assume a: "0 < q" "ulp_exp q \<le> k" "p2 k \<le> q"
  let ?u = "ulp_exp q"
  have i: "p2 (k - ?u) = of_int (2 ^ nat (k - ?u))" using a by (intro p2_int) simp
  have "of_int (2 ^ nat (k - ?u)) \<le> q / p2 ?u" using a unfolding i [symmetric] p2_diff by (intro divide_right_mono) auto
  then have "2 ^ nat (k - ?u) \<le> rne (q / p2 ?u)" by (rule rne_ge_of_int)
  then have "of_int (2 ^ nat (k - ?u)) * p2 ?u \<le> rv q"
    unfolding rv_def by (intro mult_right_mono of_int_le_iff [THEN iffD2]) auto
  then show ?thesis unfolding i [symmetric] p2_add [symmetric] by simp
qed

lemma rv_le: "0 < q \<Longrightarrow> ulp_exp q \<le> k \<Longrightarrow> q \<le> p2 k \<Longrightarrow> rv q \<le> p2 k"
proof -
  assume a: "0 < q" "ulp_exp q \<le> k" "q \<le> p2 k"
  let ?u = "ulp_exp q"
  have i: "p2 (k - ?u) = of_int (2 ^ nat (k - ?u))" using a by (intro p2_int) simp
  have "q / p2 ?u \<le> of_int (2 ^ nat (k - ?u))" using a unfolding i [symmetric] p2_diff by (intro divide_right_mono) auto
  then have "rne (q / p2 ?u) \<le> 2 ^ nat (k - ?u)" by (rule rne_le_of_int)
  then have "rv q \<le> of_int (2 ^ nat (k - ?u)) * p2 ?u"
    unfolding rv_def by (intro mult_right_mono of_int_le_iff [THEN iffD2]) auto
  then show ?thesis unfolding i [symmetric] p2_add [symmetric] by simp
qed

lemma rv_mono: "0 < x \<Longrightarrow> x \<le> y \<Longrightarrow> rv x \<le> rv y"
proof (cases "ulp_exp x = ulp_exp y")
  case True
  assume "0 < x" "x \<le> y"
  then show ?thesis unfolding rv_def True
    by (intro mult_right_mono of_int_le_iff [THEN iffD2] rne_mono divide_right_mono) auto
next
  case False
  assume a: "0 < x" "x \<le> y"
  let ?k = "ulp_exp y + 52"
  from False ulp_exp_mono [OF a] have lt: "ulp_exp x < ulp_exp y" by simp
  then have y: "- 1074 < ulp_exp y" by (auto simp: ulp_exp_def)
  have "rv x \<le> p2 ?k"
    using a lt ulp_exp_gt [of x] p2_mono [of "ulp_exp x + 53" ?k] by (intro rv_le) auto
  also have "p2 ?k \<le> rv y" using a y ulp_exp_le [of y] by (intro rv_ge) auto
  finally show ?thesis .
qed

lemma rv_nonneg: "0 \<le> q \<Longrightarrow> 0 \<le> rv q"
proof -
  assume "0 \<le> q"
  then have "0 \<le> rne (q / p2 (ulp_exp q))" by (intro rne_ge_of_int) simp
  then show ?thesis by (simp add: rv_def)
qed

lemma rnd_pos: "0 < q \<Longrightarrow> rnd q = (if p2 1024 \<le> rv q then PInf else Fin (rv q))"
proof -
  assume q: "0 < q"
  let ?u = "ulp_exp q" and ?m = "rne (q / p2 (ulp_exp q))"
  have m: "0 \<le> ?m" using q by (intro rne_ge_of_int) simp
  consider "971 < ?u" | "?u = 971" | "?u < 971" by linarith
  then have "971 < ?u \<or> ?u = 971 \<and> 2 ^ 53 \<le> \<bar>?m\<bar> \<longleftrightarrow> p2 1024 \<le> rv q"
  proof cases
    case 1
    have "p2 (?u + 52) \<le> rv q" using q 1 ulp_exp_le [of q] by (intro rv_ge) auto
    then show ?thesis using 1 p2_mono [of 1024 "?u + 52"] by auto
  next
    case 2
    have "p2 1024 = of_int (2 ^ 53) * p2 971" using p2_add [of 53 971] by (simp add: p2_def)
    then have "p2 1024 \<le> rv q \<longleftrightarrow> of_int (2 ^ 53) \<le> (of_int ?m :: rat)"
      unfolding rv_def 2 using mult_le_cancel_right_pos [of "p2 971"] by (simp only: p2_pos)
    then show ?thesis using 2 m by (simp only: of_int_le_iff abs_of_nonneg) auto
  next
    case 3
    have "rv q \<le> p2 (?u + 53)" using q ulp_exp_gt [of q] by (intro rv_le) auto
    also have "\<dots> < p2 1024" using 3 by (intro p2_strict_mono) simp
    finally show ?thesis using 3 by auto
  qed
  then show ?thesis using q by (simp add: rnd_def Let_def rv_def)
qed

lemma rnd_minus: "rnd (- q) = fneg (rnd q)"
proof -
  have "ulp_exp (- q) = ulp_exp q" by (simp add: ulp_exp_def)
  moreover have "rne (- q / p2 k) = - rne (q / p2 k)" for k using rne_minus [of "q / p2 k"] by simp
  ultimately show ?thesis by (auto simp: rnd_def Let_def fneg_def)
qed

lemma rnd_0 [simp]: "rnd 0 = Fin 0"
  by (simp add: rnd_def)

lemma rnd_not_NaN [simp]: "rnd q \<noteq> NaN" "NaN \<noteq> rnd q"
  by (auto simp: rnd_def Let_def)

lemma rnd_nonneg: "0 \<le> q \<Longrightarrow> Fin 0 \<le> rnd q"
  using rv_nonneg [of q] rnd_pos [of q] by (cases "q = 0") auto

lemma fneg_mono: "x \<noteq> NaN \<Longrightarrow> y \<noteq> NaN \<Longrightarrow> x \<le> y \<Longrightarrow> fneg y \<le> fneg x"
  by (cases x; cases y) (auto simp: fneg_def)

lemma rnd_mono: "x \<le> y \<Longrightarrow> rnd x \<le> rnd y"
proof -
  have pos: "rnd a \<le> rnd b" if "0 < a" "a \<le> b" for a b
    using that rv_mono [of a b] rnd_pos [of a] rnd_pos [of b] by auto
  assume le: "x \<le> y"
  consider "0 < x" | "x = 0" | "x < 0" "0 \<le> y" | "y < 0" using le by linarith
  then show ?thesis
  proof cases
    case 1
    then show ?thesis using le by (rule pos)
  next
    case 2
    then show ?thesis using le rnd_nonneg [of y] by simp
  next
    case 3
    have "rnd x = fneg (rnd (- x))" using rnd_minus [of "- x"] by simp
    also have "\<dots> \<le> fneg (Fin 0)" using 3 rnd_nonneg [of "- x"] by (intro fneg_mono) auto
    also have "\<dots> \<le> rnd y" using 3 rnd_nonneg [of y] by (simp add: fneg_def)
    finally show ?thesis .
  next
    case 4
    have "fneg (rnd (- x)) \<le> fneg (rnd (- y))" using 4 le by (intro fneg_mono pos) auto
    then show ?thesis using rnd_minus [of "- x"] rnd_minus [of "- y"] by simp
  qed
qed

subsection \<open>Representable values are not changed\<close>

definition frep :: "rat \<Rightarrow> bool" where
  "frep q \<longleftrightarrow> (\<exists>m e. q = of_int m * p2 e \<and> \<bar>m\<bar> \<le> 2 ^ 53 \<and> - 1074 \<le> e) \<and> \<bar>q\<bar> < p2 1024"

lemma rv_rep:
  assumes q: "0 < q" and eq: "q = of_int m * p2 e" and m: "\<bar>m\<bar> \<le> 2 ^ 53" and e: "- 1074 \<le> e"
  shows "rv q = q"
proof -
  let ?u = "ulp_exp q"
  have "\<exists>n. q / p2 ?u = of_int n"
  proof (cases "?u \<le> e")
    case True
    then have "p2 e / p2 ?u = of_int (2 ^ nat (e - ?u))"
      using p2_int [of "e - ?u"] unfolding p2_diff by simp
    moreover have "q / p2 ?u = of_int m * (p2 e / p2 ?u)" by (subst eq) simp
    ultimately have "q / p2 ?u = of_int (m * 2 ^ nat (e - ?u))" by simp
    then show ?thesis ..
  next
    case False
    have le: "p2 (?u + 52) \<le> q" using q e False by (intro ulp_exp_le) auto
    have "(of_int m :: rat) \<le> of_int (2 ^ 53)" using m by (intro of_int_le_iff [THEN iffD2]) auto
    then have "q \<le> of_int (2 ^ 53) * p2 e" unfolding eq by (intro mult_right_mono) auto
    also have "\<dots> = p2 (e + 53)" by (simp add: p2_add p2_int)
    finally have q2: "q \<le> p2 (e + 53)" .
    with le have "p2 (?u + 52) \<le> p2 (e + 53)" by linarith
    then have u: "?u = e + 1" using False by (simp add: p2_le_iff)
    then have "p2 (e + 53) = p2 (?u + 52)" by (simp add: algebra_simps)
    with le q2 have "q = p2 (?u + 52)" by linarith
    then have "q / p2 ?u = p2 (?u + 52) / p2 ?u" by (rule arg_cong)
    also have "\<dots> = of_int (2 ^ 52)" by (simp add: p2_add p2_int)
    finally have "q / p2 ?u = of_int (2 ^ 52)" .
    then show ?thesis ..
  qed
  then obtain n where n: "q / p2 ?u = of_int n" ..
  then have "rv q = of_int n * p2 ?u" by (simp add: rv_def)
  also have "\<dots> = q" unfolding n [symmetric] by simp
  finally show ?thesis .
qed

lemma frep_uminus [simp]: "frep (- q) \<longleftrightarrow> frep q"
proof -
  have "frep (- q)" if "frep q" for q
  proof -
    from that obtain m e where "q = of_int m * p2 e" "\<bar>m\<bar> \<le> 2 ^ 53" "- 1074 \<le> e" "\<bar>q\<bar> < p2 1024"
      by (auto simp: frep_def)
    then have "- q = of_int (- m) * p2 e \<and> \<bar>- m\<bar> \<le> 2 ^ 53 \<and> - 1074 \<le> e" "\<bar>- q\<bar> < p2 1024" by auto
    then show ?thesis unfolding frep_def by blast
  qed
  from this [of q] this [of "- q"] show ?thesis by auto
qed

lemma rnd_rep: "frep q \<Longrightarrow> rnd q = Fin q"
proof -
  have pos: "rnd a = Fin a" if "frep a" "0 < a" for a
    using that rv_rep [of a] rnd_pos [of a] by (auto simp: frep_def)
  assume "frep q"
  then show ?thesis
    using pos [of q] pos [of "- q"] rnd_minus [of "- q"]
    by (cases "q = 0"; cases "0 < q") (auto simp: fneg_def)
qed

lemma frep_of_int: "\<bar>n\<bar> \<le> 2 ^ 53 \<Longrightarrow> frep (of_int n)"
proof -
  assume n: "\<bar>n\<bar> \<le> 2 ^ 53"
  have "(of_int \<bar>n\<bar> :: rat) \<le> of_int (2 ^ 53)" using n by (simp only: of_int_le_iff)
  also have "\<dots> = p2 53" by (simp add: p2_def)
  also have "\<dots> < p2 1024" by (rule p2_strict_mono) simp
  finally have "\<bar>of_int n\<bar> < p2 1024" by simp
  moreover have "of_int n = of_int n * p2 0" by (simp add: p2_def)
  ultimately show ?thesis using n unfolding frep_def
    by (intro conjI exI [of _ n] exI [of _ 0]) auto
qed

lemma rnd_of_int: "\<bar>n\<bar> \<le> 2 ^ 53 \<Longrightarrow> rnd (of_int n) = Fin (of_int n)"
  by (rule rnd_rep) (rule frep_of_int)

lemma rnd_frep: "rnd q = Fin r \<Longrightarrow> frep r"
proof -
  have pos: "frep r" if "0 < q" "rnd q = Fin r" for q r
  proof -
    let ?u = "ulp_exp q" and ?m = "rne (q / p2 (ulp_exp q))"
    from that have r: "r = rv q" "rv q < p2 1024" by (auto simp: rnd_pos split: if_splits)
    have "q / p2 ?u \<le> of_int (2 ^ 53)"
      using ulp_exp_gt [OF that(1)] by (simp add: p2_add p2_int field_simps)
    then have "?m \<le> 2 ^ 53" by (rule rne_le_of_int)
    moreover have "0 \<le> ?m" using that by (intro rne_ge_of_int) simp
    moreover have "- 1074 \<le> ?u" by (simp add: ulp_exp_def)
    ultimately have "r = of_int ?m * p2 ?u \<and> \<bar>?m\<bar> \<le> 2 ^ 53 \<and> - 1074 \<le> ?u"
      by (simp add: r rv_def)
    then show ?thesis using r rv_nonneg [of q] that unfolding frep_def by fastforce
  qed
  assume "rnd q = Fin r"
  then show ?thesis
    using pos [of q r] pos [of "- q" "- r"] rnd_minus [of q] frep_of_int [of 0]
    by (cases "q = 0"; cases "0 < q") (auto simp: fneg_def)
qed


lemma rnd_error: "0 < q \<Longrightarrow> q \<le> p2 k \<Longrightarrow> - 1021 \<le> k \<Longrightarrow> k \<le> 1023 \<Longrightarrow>
  \<exists>r. rnd q = Fin r \<and> \<bar>r - q\<bar> \<le> p2 (k - 53) \<and> 0 \<le> r \<and> r \<le> p2 k"
proof -
  assume a: "0 < q" "q \<le> p2 k" "- 1021 \<le> k" "k \<le> 1023"
  let ?u = "ulp_exp q"
  have "rv q \<le> rv (p2 k)" using a by (intro rv_mono)
  also have "\<dots> = p2 k" using a by (intro rv_rep [of _ 1 k]) auto
  finally have le: "rv q \<le> p2 k" .
  have fin: "rnd q = Fin (rv q)" using a le p2_strict_mono [of k 1024] by (simp add: rnd_pos)
  have "p2 (ilog2 q) \<le> p2 k" using ilog2_bounds(1) [OF a(1)] a by linarith
  then have lk: "ilog2 q \<le> k" by (simp add: p2_le_iff)
  have d: "\<bar>of_int (rne x) - x\<bar> \<le> 1 / 2" for x
    by (simp add: rne_def Let_def abs_if) linarith
  have half: "\<bar>rv q - q\<bar> \<le> p2 ?u / 2"
  proof -
    have "rv q - q = (of_int (rne (q / p2 ?u)) - q / p2 ?u) * p2 ?u"
      by (simp add: rv_def left_diff_distrib)
    then have "\<bar>rv q - q\<bar> = \<bar>of_int (rne (q / p2 ?u)) - q / p2 ?u\<bar> * p2 ?u"
      by (simp add: abs_mult)
    also have "\<dots> \<le> 1 / 2 * p2 ?u" using d by (intro mult_right_mono) auto
    finally show ?thesis by simp
  qed
  show ?thesis
  proof (cases "ilog2 q = k")
    case True
    then have "p2 k \<le> q" using ilog2_bounds(1) [OF a(1)] by simp
    with a have "q = p2 k" by simp
    then have "rv q = q" using a by (intro rv_rep [of _ 1 k]) auto
    then show ?thesis using a fin by simp
  next
    case False
    then have "?u \<le> k - 53 + 1" using lk a by (auto simp: ulp_exp_def)
    then have "p2 ?u \<le> p2 (k - 53 + 1)" by (rule p2_mono)
    also have "\<dots> = 2 * p2 (k - 53)" by (simp only: p2_add) (simp add: p2_def)
    finally have "\<bar>rv q - q\<bar> \<le> p2 (k - 53)" using half by simp
    then show ?thesis using fin le rv_nonneg [of q] a by auto
  qed
qed

lemma rnd_between:
  assumes "frep lo" "frep hi" "lo \<le> q" "q \<le> hi"
  obtains r where "rnd q = Fin r" "lo \<le> r" "r \<le> hi"
proof -
  have "Fin lo \<le> rnd q" "rnd q \<le> Fin hi"
    using rnd_mono [OF assms(3)] rnd_mono [OF assms(4)] rnd_rep assms by auto
  then show thesis using that by (cases "rnd q") auto
qed

lemma frep_double: "frep q \<Longrightarrow> \<bar>q\<bar> < p2 1023 \<Longrightarrow> frep (2 * q)"
proof -
  assume q: "frep q" "\<bar>q\<bar> < p2 1023"
  then obtain m e where m: "q = of_int m * p2 e" "\<bar>m\<bar> \<le> 2 ^ 53" "- 1074 \<le> e" by (auto simp: frep_def)
  have "2 * q = of_int m * p2 (e + 1)" using m by (simp add: p2_add) (simp add: p2_def)
  moreover have "p2 1024 = 2 * p2 1023" using p2_add [of 1023 1] by (simp add: p2_def)
  ultimately show ?thesis using m q unfolding frep_def
    by (intro conjI exI [of _ m] exI [of _ "e + 1"]) auto
qed

lemma Fin_between: "Fin lo \<le> x \<and> x \<le> Fin hi \<longleftrightarrow> (\<exists>q. x = Fin q \<and> lo \<le> q \<and> q \<le> hi)"
  by (cases x) auto

lemma frep_p2: "- 1074 \<le> k \<Longrightarrow> k \<le> 1023 \<Longrightarrow> frep (p2 k)"
  unfolding frep_def using p2_strict_mono [of k 1024] by (intro conjI exI [of _ 1] exI [of _ k]) auto

subsection \<open>Arithmetic\<close>

text \<open>The sign of zero is not kept.\<close>

definition fadd :: "f64 \<Rightarrow> f64 \<Rightarrow> f64" where
  "fadd x y = (case (x, y) of
      (Fin a, Fin b) \<Rightarrow> rnd (a + b)
    | (NaN, _) \<Rightarrow> NaN | (_, NaN) \<Rightarrow> NaN
    | (PInf, NInf) \<Rightarrow> NaN | (NInf, PInf) \<Rightarrow> NaN
    | (PInf, _) \<Rightarrow> PInf | (NInf, _) \<Rightarrow> NInf
    | (_, i) \<Rightarrow> i)"

definition fsub :: "f64 \<Rightarrow> f64 \<Rightarrow> f64" where
  "fsub x y = fadd x (fneg y)"

definition finf :: "rat \<Rightarrow> f64" where
  "finf s = (if 0 < s then PInf else if s < 0 then NInf else NaN)"

definition fsgn :: "f64 \<Rightarrow> rat" where
  "fsgn x = (case x of Fin a \<Rightarrow> sgn a | PInf \<Rightarrow> 1 | NInf \<Rightarrow> - 1 | NaN \<Rightarrow> 0)"

definition fmul :: "f64 \<Rightarrow> f64 \<Rightarrow> f64" where
  "fmul x y = (case (x, y) of
      (Fin a, Fin b) \<Rightarrow> rnd (a * b)
    | (NaN, _) \<Rightarrow> NaN | (_, NaN) \<Rightarrow> NaN
    | _ \<Rightarrow> finf (fsgn x * fsgn y))"

definition fdiv :: "f64 \<Rightarrow> f64 \<Rightarrow> f64" where
  "fdiv x y = (case (x, y) of
      (Fin a, Fin b) \<Rightarrow> (if b = 0 then finf a else rnd (a / b))
    | (NaN, _) \<Rightarrow> NaN | (_, NaN) \<Rightarrow> NaN
    | (Fin a, _) \<Rightarrow> Fin 0
    | (_, Fin b) \<Rightarrow> finf (fsgn x * (if b = 0 then 1 else sgn b))
    | _ \<Rightarrow> NaN)"

definition fabs :: "f64 \<Rightarrow> f64" where
  "fabs x = (case x of Fin a \<Rightarrow> Fin \<bar>a\<bar> | NInf \<Rightarrow> PInf | _ \<Rightarrow> x)"

definition feq :: "f64 \<Rightarrow> f64 \<Rightarrow> bool" where
  "feq x y \<longleftrightarrow> x \<noteq> NaN \<and> x = y"

lemma fadd_Fin [simp]: "fadd (Fin a) (Fin b) = rnd (a + b)"
  by (simp add: fadd_def)

lemma fsub_Fin [simp]: "fsub (Fin a) (Fin b) = rnd (a - b)"
  by (simp add: fsub_def fneg_def)

lemma fmul_Fin [simp]: "fmul (Fin a) (Fin b) = rnd (a * b)"
  by (simp add: fmul_def)

lemma fdiv_Fin [simp]: "b \<noteq> 0 \<Longrightarrow> fdiv (Fin a) (Fin b) = rnd (a / b)"
  by (simp add: fdiv_def)

lemma fabs_Fin [simp]: "fabs (Fin a) = Fin \<bar>a\<bar>"
  by (simp add: fabs_def)

lemma fNaN [simp]:
  "fadd NaN x = NaN" "fadd x NaN = NaN" "fsub NaN x = NaN" "fsub x NaN = NaN"
  "fmul NaN x = NaN" "fmul x NaN = NaN" "fdiv NaN x = NaN" "fdiv x NaN = NaN" "fabs NaN = NaN"
  by (cases x; simp add: fadd_def fsub_def fneg_def fmul_def fdiv_def fabs_def)+

text \<open>A float is one that the type can hold.\<close>

definition f64_ok :: "f64 \<Rightarrow> bool" where
  "f64_ok x \<longleftrightarrow> (case x of Fin q \<Rightarrow> frep q | _ \<Rightarrow> True)"

lemma f64_ok_rnd [simp]: "f64_ok (rnd q)"
  using rnd_frep [of q] by (cases "rnd q") (auto simp: f64_ok_def)

lemma f64_ok_simps [simp]: "f64_ok NaN" "f64_ok PInf" "f64_ok NInf" "f64_ok (Fin q) \<longleftrightarrow> frep q"
  by (auto simp: f64_ok_def)

lemma f64_ok_zero [simp]: "frep 0"
  using frep_of_int [of 0] by simp

lemma f64_ok_finf [simp]: "f64_ok (finf s)"
  by (simp add: finf_def)

lemma f64_ok_ops:
  "f64_ok x \<Longrightarrow> f64_ok (fneg x)" "f64_ok x \<Longrightarrow> f64_ok (fabs x)"
  "f64_ok (fadd x y)" "f64_ok (fsub x y)" "f64_ok (fmul x y)" "f64_ok (fdiv x y)"
  by (cases x; cases y; simp add: fneg_def fabs_def abs_if fadd_def fsub_def fmul_def fdiv_def)+

lemma frep_scaled: "\<bar>m\<bar> \<le> 2 ^ 53 \<Longrightarrow> 0 \<le> k \<Longrightarrow> k \<le> 900 \<Longrightarrow> frep (of_int m * p2 k)"
proof -
  assume a: "\<bar>m\<bar> \<le> 2 ^ 53" "0 \<le> k" "k \<le> 900"
  have "(of_int \<bar>m\<bar> :: rat) \<le> of_int (2 ^ 53)" using a by (intro of_int_le_iff [THEN iffD2])
  then have "\<bar>of_int m * p2 k\<bar> \<le> of_int (2 ^ 53) * p2 k" by (simp add: abs_mult mult_right_mono)
  also have "\<dots> = p2 (k + 53)" by (simp add: p2_add p2_int)
  also have "\<dots> < p2 1024" using a by (intro p2_strict_mono) simp
  finally show ?thesis unfolding frep_def using a by (intro conjI exI [of _ m] exI [of _ k]) auto
qed

lemma frep_shrink:
  assumes "frep q" "p2 (- 1000) \<le> q" "0 \<le> k" "k \<le> 20"
  shows "frep (q * p2 (- k))"
proof -
  obtain m e where m: "q = of_int m * p2 e" "\<bar>m\<bar> \<le> 2 ^ 53" "\<bar>q\<bar> < p2 1024" using assms by (auto simp: frep_def)
  have "(of_int m :: rat) \<le> of_int (2 ^ 53)" using m by (intro of_int_le_iff [THEN iffD2]) auto
  then have "q \<le> of_int (2 ^ 53) * p2 e" unfolding m by (intro mult_right_mono) auto
  also have "\<dots> = p2 (e + 53)" by (simp add: p2_add p2_int)
  finally have "p2 (- 1000) \<le> p2 (e + 53)" using assms by simp
  then have e: "- 1053 \<le> e" by (simp add: p2_le_iff)
  have q: "0 < q" using assms p2_pos [of "- 1000"] by linarith
  have "q * p2 (- k) \<le> q * p2 0" using assms q by (intro mult_left_mono p2_mono) auto
  then have "\<bar>q * p2 (- k)\<bar> < p2 1024" using m q by (simp add: p2_def [of 0])
  moreover have "q * p2 (- k) = of_int m * p2 (e - k)" by (simp add: m p2_diff p2_minus)
  ultimately show ?thesis unfolding frep_def using m e assms
    by (intro conjI exI [of _ m] exI [of _ "e - k"]) auto
qed

lemma fabs_rnd: "fabs (rnd q) = rnd \<bar>q\<bar>"
  using rnd_nonneg [of q] rnd_nonneg [of "- q"] rnd_minus [of q]
  by (cases "rnd q"; cases "0 \<le> q") (auto simp: fabs_def fneg_def)

subsection \<open>Conversions\<close>

definition wrap64 :: "int \<Rightarrow> int" where
  "wrap64 n = (n + 2 ^ 63) mod 2 ^ 64 - 2 ^ 63"

definition i64 :: "int \<Rightarrow> bool" where
  "i64 n \<longleftrightarrow> - (2 ^ 63) \<le> n \<and> n < 2 ^ 63"

datatype arch = AMD64 | ARM64

definition rtrunc :: "rat \<Rightarrow> int" where
  "rtrunc q = (if 0 \<le> q then \<lfloor>q\<rfloor> else \<lceil>q\<rceil>)"

definition to_i64 :: "arch \<Rightarrow> f64 \<Rightarrow> int" where
  "to_i64 a x = (case x of
      Fin q \<Rightarrow> (if i64 (rtrunc q) then rtrunc q
                else case a of AMD64 \<Rightarrow> - (2 ^ 63) | ARM64 \<Rightarrow> (if 0 < q then 2 ^ 63 - 1 else - (2 ^ 63)))
    | PInf \<Rightarrow> (case a of AMD64 \<Rightarrow> - (2 ^ 63) | ARM64 \<Rightarrow> 2 ^ 63 - 1)
    | NInf \<Rightarrow> - (2 ^ 63)
    | NaN \<Rightarrow> (case a of AMD64 \<Rightarrow> - (2 ^ 63) | ARM64 \<Rightarrow> 0))"

definition of_i64 :: "int \<Rightarrow> f64" where
  "of_i64 n = rnd (of_int n)"

definition math_Round :: "f64 \<Rightarrow> f64" where
  "math_Round x = (case x of
      Fin q \<Rightarrow> rnd (of_int (if 0 \<le> q then \<lfloor>q + 1 / 2\<rfloor> else \<lceil>q - 1 / 2\<rceil>)) | _ \<Rightarrow> x)"

definition math_Ceil :: "f64 \<Rightarrow> f64" where
  "math_Ceil x = (case x of Fin q \<Rightarrow> rnd (of_int \<lceil>q\<rceil>) | _ \<Rightarrow> x)"

lemma i64_wrap64 [simp]: "i64 (wrap64 n)"
  by (simp add: i64_def wrap64_def)

lemma wrap64_id [simp]: "i64 n \<Longrightarrow> wrap64 n = n"
  by (simp add: i64_def wrap64_def)

lemma i64_to_i64 [simp]: "i64 (to_i64 a x)"
  by (auto simp: to_i64_def i64_def split: f64.split arch.split)

lemma to_i64_of_int: "i64 n \<Longrightarrow> to_i64 a (Fin (of_int n)) = n"
  by (simp add: to_i64_def rtrunc_def)

lemma of_i64_small: "\<bar>n\<bar> \<le> 2 ^ 53 \<Longrightarrow> of_i64 n = Fin (of_int n)"
  by (simp add: of_i64_def rnd_of_int)

lemma f64_ok_of_i64 [simp]: "f64_ok (of_i64 n)"
  by (simp add: of_i64_def)

lemma math_Round_Fin: "math_Round (Fin q) = rnd (of_int (if 0 \<le> q then \<lfloor>q + 1 / 2\<rfloor> else \<lceil>q - 1 / 2\<rceil>))"
  by (simp add: math_Round_def)

subsection \<open>Evaluation\<close>

lemma rat_floor_divide [simp]: "\<lfloor>numeral a / numeral b :: rat\<rfloor> = numeral a div numeral b"
  using floor_divide_of_int_eq [where 'a = rat and k = "numeral a" and l = "numeral b"] by simp

lemma rat_floor_one_divide [simp]: "\<lfloor>1 / numeral b :: rat\<rfloor> = 1 div numeral b"
  using floor_divide_of_int_eq [where 'a = rat and k = 1 and l = "numeral b"] by simp

lemma rat_floor_minus_divide [simp]: "\<lfloor>- (numeral a / numeral b) :: rat\<rfloor> = - numeral a div numeral b"
  using floor_divide_of_int_eq [where 'a = rat and k = "- numeral a" and l = "numeral b"] by simp

lemma rat_ceiling_divide [simp]: "\<lceil>numeral a / numeral b :: rat\<rceil> = - (- numeral a div numeral b)"
  by (simp add: ceiling_def)

lemma rat_ceiling_one_divide [simp]: "\<lceil>1 / numeral b :: rat\<rceil> = - (- 1 div numeral b)"
  using floor_divide_of_int_eq [where 'a = rat and k = "- 1" and l = "numeral b"] by (simp add: ceiling_def)

lemmas rnd_eval = rnd_def ulp_exp_def ilog2_def blen.simps rne_def p2_def Let_def

lemma rnd_numeral [simp]: "(numeral n :: int) \<le> 2 ^ 53 \<Longrightarrow> rnd (numeral n) = Fin (numeral n)"
  using rnd_of_int [of "numeral n"] by simp

lemma rnd_one [simp]: "rnd 1 = Fin 1"
  using rnd_of_int [of 1] by simp

lemma rnd_neg_numeral [simp]: "(numeral n :: int) \<le> 2 ^ 53 \<Longrightarrow> rnd (- numeral n) = Fin (- numeral n)"
  using rnd_of_int [of "- numeral n"] by simp

lemma f64_example: "rnd (1 / 10) = Fin (3602879701896397 / 36028797018963968)"
  by (simp add: rnd_eval)

end
