(* ===== verification/GoTime.thy ===== *)
theory GoTime
  imports GoFloat
begin

text \<open>
  Go's \<^verbatim>\<open>time\<close> package as the program uses it. A \<^verbatim>\<open>time.Duration\<close> is an \<^verbatim>\<open>int64\<close> of nanoseconds; a
  \<^verbatim>\<open>time.Time\<close> is an integer number of nanoseconds since 1970-01-01T00:00:00 UTC, so that the zero time
  (1 January of year 1) is a negative number. Differences saturate at the ends of \<^verbatim>\<open>int64\<close>. The calendar is
  the proleptic Gregorian one of \<^verbatim>\<open>time.Date\<close>, with its normalisation of out-of-range months and days.
  All times of the modelled code are in UTC unless an operation takes a time zone.

  Main result: \<open>civil_of_days\<close> inverts \<open>days_of_civil\<close> on valid dates (\<open>civil_days\<close>).
\<close>

type_synonym duration = int
type_synonym time = int

abbreviation second :: duration where "second \<equiv> 1000000000"
abbreviation minute :: duration where "minute \<equiv> 60000000000"
abbreviation hour :: duration where "hour \<equiv> 3600000000000"
abbreviation day24 :: duration where "day24 \<equiv> 86400000000000"

subsection \<open>Truncating division\<close>

definition gquot :: "int \<Rightarrow> int \<Rightarrow> int" where
  "gquot a b = sgn a * sgn b * (\<bar>a\<bar> div \<bar>b\<bar>)"

definition grem :: "int \<Rightarrow> int \<Rightarrow> int" where
  "grem a b = a - b * gquot a b"

lemma gquot_nonneg: "0 \<le> a \<Longrightarrow> 0 < b \<Longrightarrow> gquot a b = a div b"
  by (cases "a = 0") (auto simp: gquot_def)

lemma grem_nonneg: "0 \<le> a \<Longrightarrow> 0 < b \<Longrightarrow> grem a b = a mod b"
  by (simp add: grem_def gquot_nonneg minus_mult_div_eq_mod)

lemma gquot_zero [simp]: "gquot 0 b = 0" "grem 0 b = 0"
  by (simp_all add: gquot_def grem_def)

subsection \<open>Durations\<close>

definition dur_Seconds :: "duration \<Rightarrow> f64" where
  "dur_Seconds d = fadd (of_i64 (gquot d second)) (fdiv (of_i64 (grem d second)) (Fin 1000000000))"

definition dur_Hours :: "duration \<Rightarrow> f64" where
  "dur_Hours d = fadd (of_i64 (gquot d hour)) (fdiv (of_i64 (grem d hour)) (Fin 3600000000000))"

lemma dur_Seconds_whole: "0 \<le> n \<Longrightarrow> n \<le> 2 ^ 53 \<Longrightarrow> dur_Seconds (n * second) = Fin (of_int n)"
  by (simp add: dur_Seconds_def gquot_nonneg grem_nonneg of_i64_small rnd_of_int)

lemma dur_Hours_whole: "0 \<le> n \<Longrightarrow> n \<le> 2 ^ 53 \<Longrightarrow> dur_Hours (n * hour) = Fin (of_int n)"
  by (simp add: dur_Hours_def gquot_nonneg grem_nonneg of_i64_small rnd_of_int)

lemma f64_ok_dur_Seconds [simp]: "f64_ok (dur_Seconds d)"
  by (simp add: dur_Seconds_def f64_ok_ops)

subsection \<open>Times\<close>

definition time_zero :: time where
  "time_zero = - 62135596800000000000"

definition IsZero :: "time \<Rightarrow> bool" where
  "IsZero t \<longleftrightarrow> t = time_zero"

definition time_Sub :: "time \<Rightarrow> time \<Rightarrow> duration" where
  "time_Sub t u = (if t - u < - (2 ^ 63) then - (2 ^ 63) else if 2 ^ 63 \<le> t - u then 2 ^ 63 - 1 else t - u)"

lemma i64_time_Sub [simp]: "i64 (time_Sub t u)"
  by (simp add: time_Sub_def i64_def)

lemma time_Sub_small: "i64 (t - u) \<Longrightarrow> time_Sub t u = t - u"
  by (simp add: time_Sub_def i64_def)

lemma time_Sub_pos: "0 < time_Sub t u \<longleftrightarrow> u < t"
  by (auto simp: time_Sub_def)

lemma dur_Seconds_pos: "0 < d \<Longrightarrow> i64 d \<Longrightarrow> \<exists>q. dur_Seconds d = Fin q \<and> p2 (- 30) \<le> q \<and> q \<le> p2 54"
proof -
  assume d: "0 < d" "i64 d"
  define s r where "s = d div second" and "r = d mod second"
  have d2: "d = second * s + r" by (simp add: s_def r_def)
  have sr: "0 \<le> s" "s \<le> 2 ^ 53" "0 \<le> r" "r < second"
    using d by (auto simp: s_def r_def i64_def)
  have s0: "0 < s \<or> 0 < r" using d(1) sr unfolding d2 by (cases "s = 0") auto
  have s53: "(of_int s :: rat) \<le> p2 53" using sr(2) by (subst p2_int) (simp_all only: of_int_le_iff, simp)
  have p: "p2 (- 30) = 1 / 1073741824" "p2 54 = 2 * p2 53" "p2 53 = 9007199254740992" "frep (p2 (- 30))" "frep (p2 54)"
    by (simp_all add: frep_p2) (simp_all add: p2_def)
  have "(of_int r :: rat) \<le> of_int 1000000000" using sr by (intro of_int_le_iff [THEN iffD2]) simp
  then obtain x where x: "rnd (of_int r / 1000000000) = Fin x" "0 \<le> x" "x \<le> 1"
    using rnd_between [of 0 1 "of_int r / 1000000000"] frep_of_int [of 1] sr by auto
  have xr: "p2 (- 30) \<le> x" if "0 < r"
  proof -
    have "(1 :: rat) \<le> of_int r" using that by simp
    then have "p2 (- 30) \<le> of_int r / 1000000000" by (simp add: p)
    then show ?thesis using rnd_mono [of "p2 (- 30)" "of_int r / 1000000000"] rnd_rep [OF p(4)] x by simp
  qed
  have "p2 (- 30) \<le> of_int s + x"
  proof (cases "0 < r")
    case True
    then have "p2 (- 30) \<le> x" by (rule xr)
    moreover have "(0 :: rat) \<le> of_int s" using sr by simp
    ultimately show ?thesis by linarith
  next
    case False
    then have "(1 :: rat) \<le> of_int s" using s0 by simp
    then show ?thesis using x p by simp
  qed
  moreover have "of_int s + x \<le> p2 54" using p(2,3) s53 x(3) by linarith
  ultimately obtain q where "rnd (of_int s + x) = Fin q" "p2 (- 30) \<le> q" "q \<le> p2 54"
    by (rule rnd_between [OF p(4,5)])
  moreover have "dur_Seconds d = rnd (of_int s + x)"
    using d sr x by (simp add: dur_Seconds_def gquot_nonneg grem_nonneg of_i64_small s_def [symmetric] r_def [symmetric])
  ultimately show ?thesis by simp
qed

subsection \<open>The calendar\<close>

definition leap :: "int \<Rightarrow> bool" where
  "leap y \<longleftrightarrow> y mod 4 = 0 \<and> (y mod 100 \<noteq> 0 \<or> y mod 400 = 0)"

definition month_len :: "int \<Rightarrow> int \<Rightarrow> int" where
  "month_len y m = (if m = 2 then (if leap y then 29 else 28)
     else if m = 4 \<or> m = 6 \<or> m = 9 \<or> m = 11 then 30 else 31)"

text \<open>Days of the year before the first of month \<open>m\<close>; month 13 is the length of the year.\<close>

definition days_before :: "int \<Rightarrow> int \<Rightarrow> int" where
  "days_before y m =
     [0, 31, 59, 90, 120, 151, 181, 212, 243, 273, 304, 334, 365] ! nat (m - 1)
       + (if 2 < m \<and> leap y then 1 else 0)"

text \<open>Days from 1970-01-01 to the first of January of year \<open>y\<close>.\<close>

definition days_to_year :: "int \<Rightarrow> int" where
  "days_to_year y = 365 * (y - 1) + (y - 1) div 4 - (y - 1) div 100 + (y - 1) div 400 - 719162"

text \<open>\<^verbatim>\<open>time.Date\<close> normalises the month first and then adds the days.\<close>

definition days_of_civil :: "int \<Rightarrow> int \<Rightarrow> int \<Rightarrow> int" where
  "days_of_civil y m d =
     (let y' = y + (m - 1) div 12; m' = (m - 1) mod 12 + 1
      in days_to_year y' + days_before y' m' + d - 1)"

definition year_day :: "int \<Rightarrow> int \<times> int" where
  "year_day d =
     (let d0 = d + 719162;
          n400 = d0 div 146097; r = d0 mod 146097;
          n100 = min 3 (r div 36524); r2 = r - 36524 * n100;
          n4 = r2 div 1461; r3 = r2 mod 1461;
          n1 = min 3 (r3 div 365)
      in (400 * n400 + 100 * n100 + 4 * n4 + n1 + 1, r3 - 365 * n1))"

definition month_of :: "int \<Rightarrow> int \<Rightarrow> int" where
  "month_of y k = int (length (filter (\<lambda>m. days_before y m \<le> k) [1, 2, 3, 4, 5, 6, 7, 8, 9, 10, 11, 12]))"

definition civil_of_days :: "int \<Rightarrow> int \<times> int \<times> int" where
  "civil_of_days d = (let (y, k) = year_day d; m = month_of y k in (y, m, k - days_before y m + 1))"

definition year_len :: "int \<Rightarrow> int" where
  "year_len y = (if leap y then 366 else 365)"

lemma leap_digits:
  assumes "y = 400 * a + 100 * b + 4 * c + e + 1" and "0 \<le> b" "b \<le> 3" "0 \<le> c" "c \<le> 24" "0 \<le> e" "e \<le> 3"
    and "leap y"
  shows "e = 3 \<and> (c = 24 \<longrightarrow> b = 3)"
proof -
  from assms(8) have l: "y mod 4 = 0" "y mod 100 \<noteq> 0 \<or> y mod 400 = 0" by (auto simp: leap_def)
  have "y = 4 * (100 * a + 25 * b + c) + (e + 1)" using assms(1) by simp
  then have "y mod 4 = (e + 1) mod 4" by (simp only: mod_mult_self4)
  then have e3: "e = 3" using l(1) assms(6,7) by presburger
  have "b = 3" if "c = 24"
  proof -
    have y: "y = 100 * (4 * a + b + 1)" using that e3 assms(1) by simp
    then have "y mod 100 = 0" by simp
    with l(2) have "100 * (4 * a + b + 1) mod (100 * 4) = 0" using y by simp
    then have "(4 * a + b + 1) mod 4 = 0" by (simp only: mod_mult_mult1)
    then show ?thesis using assms(2,3) by presburger
  qed
  with e3 show ?thesis by blast
qed

lemma min3_div:
  fixes n w q :: int
  assumes "n * q \<le> w" and "q < 3 \<Longrightarrow> w < n * q + n" and "0 \<le> q" "q \<le> 3" "0 < n"
  shows "min 3 (w div n) = q"
proof (cases "q < 3")
  case True
  then have "w div n = q" using assms(1,2) by (intro int_div_pos_eq [of _ _ _ "w - n * q"]) auto
  then show ?thesis using True by simp
next
  case False
  then have "q = 3" using assms(4) by simp
  have "q \<le> w div n" using zdiv_mono1 [OF assms(1,5)] assms(5) by simp
  then show ?thesis using \<open>q = 3\<close> by simp
qed

lemma year_day_digits:
  assumes "0 \<le> b" "b \<le> 3" "0 \<le> c" "c \<le> 24" "0 \<le> e" "e \<le> 3" "0 \<le> k" "k \<le> 365"
    and "k = 365 \<Longrightarrow> e = 3 \<and> (c = 24 \<longrightarrow> b = 3)"
  shows "year_day (146097 * a + 36524 * b + 1461 * c + 365 * e + k - 719162)
       = (400 * a + 100 * b + 4 * c + e + 1, k)"
proof -
  define w where "w = 36524 * b + 1461 * c + 365 * e + k"
  have k364: "k \<le> 364 \<or> e = 3 \<and> (c \<le> 23 \<or> b = 3)" using assms(4,8,9) by (cases "k = 365") auto
  have ck: "c \<le> 23 \<or> 365 * e + k \<le> 1459 \<or> b = 3" using k364 assms by linarith
  have w: "0 \<le> w" "w < 146097" unfolding w_def using assms by linarith+
  have n400: "(146097 * a + w) div 146097 = a" "(146097 * a + w) mod 146097 = w" using w by auto
  have n100: "min 3 (w div 36524) = b"
    using assms ck by (intro min3_div) (auto simp: w_def)
  have r2: "w - 36524 * b = 1461 * c + (365 * e + k)" by (simp add: w_def)
  have s: "0 \<le> 365 * e + k" "365 * e + k < 1461" using assms k364 by linarith+
  have n4: "(1461 * c + (365 * e + k)) div 1461 = c" "(1461 * c + (365 * e + k)) mod 1461 = 365 * e + k"
    using s by auto
  have n1: "min 3 ((365 * e + k) div 365) = e"
    using assms k364 by (intro min3_div) auto
  have "146097 * a + 36524 * b + 1461 * c + 365 * e + k - 719162 + 719162 = 146097 * a + w"
    by (simp add: w_def)
  then show ?thesis unfolding year_day_def Let_def by (simp only: n400 n100 r2 n4 n1) simp
qed

lemma year_digits:
  obtains a b c e :: int where "y = 400 * a + 100 * b + 4 * c + e + 1"
    and "0 \<le> b" "b \<le> 3" "0 \<le> c" "c \<le> 24" "0 \<le> e" "e \<le> 3"
    and "days_to_year y = 146097 * a + 36524 * b + 1461 * c + 365 * e - 719162"
proof -
  define p where "p = (y - 1) mod 400"
  define q where "q = p mod 100"
  define a b c e where "a = (y - 1) div 400" and "b = p div 100" and "c = q div 4" and "e = q mod 4"
  have y: "y - 1 = 400 * a + p" "p = 100 * b + q" "q = 4 * c + e"
    by (simp_all add: a_def p_def b_def q_def c_def e_def)
  have r: "0 \<le> p" "p < 400" "0 \<le> q" "q < 100" "0 \<le> e" "e \<le> 3"
    unfolding p_def q_def e_def by simp_all
  have bc: "0 \<le> b" "b \<le> 3" "0 \<le> c" "c \<le> 24" using r y by linarith+
  have y1: "y - 1 = 400 * a + 100 * b + 4 * c + e" using y by simp
  have d: "(y - 1) div 4 = 100 * a + 25 * b + c" "(y - 1) div 100 = 4 * a + b" "(y - 1) div 400 = a"
    using y1 y r by (auto intro: int_div_pos_eq [of _ _ _ e] int_div_pos_eq [of _ _ _ q] int_div_pos_eq [of _ _ _ p])
  have "days_to_year y = 146097 * a + 36524 * b + 1461 * c + 365 * e - 719162"
    unfolding days_to_year_def d using y1 by simp
  with that [of a b c e] y1 bc r show thesis by simp
qed

lemma year_day_days_to_year:
  assumes "0 \<le> k" and "k < year_len y"
  shows "year_day (days_to_year y + k) = (y, k)"
proof -
  obtain a b c e where y: "y = 400 * a + 100 * b + 4 * c + e + 1"
    and r: "0 \<le> b" "b \<le> 3" "0 \<le> c" "c \<le> 24" "0 \<le> e" "e \<le> 3"
    and d: "days_to_year y = 146097 * a + 36524 * b + 1461 * c + 365 * e - 719162"
    by (rule year_digits)
  have k: "k \<le> 365" "k = 365 \<Longrightarrow> e = 3 \<and> (c = 24 \<longrightarrow> b = 3)"
    using assms leap_digits [OF y r] by (auto simp: year_len_def split: if_splits)
  have "days_to_year y + k = 146097 * a + 36524 * b + 1461 * c + 365 * e + k - 719162" by (simp add: d)
  then show ?thesis using year_day_digits [OF r assms(1) k, of a] by (simp only: y)
qed

lemma days_before_simps [simp]:
  "days_before y 1 = 0" "days_before y 2 = 31"
  "days_before y 3 = 59 + (if leap y then 1 else 0)" "days_before y 4 = 90 + (if leap y then 1 else 0)"
  "days_before y 5 = 120 + (if leap y then 1 else 0)" "days_before y 6 = 151 + (if leap y then 1 else 0)"
  "days_before y 7 = 181 + (if leap y then 1 else 0)" "days_before y 8 = 212 + (if leap y then 1 else 0)"
  "days_before y 9 = 243 + (if leap y then 1 else 0)" "days_before y 10 = 273 + (if leap y then 1 else 0)"
  "days_before y 11 = 304 + (if leap y then 1 else 0)" "days_before y 12 = 334 + (if leap y then 1 else 0)"
  "days_before y 13 = 365 + (if leap y then 1 else 0)"
  by (simp_all add: days_before_def)

lemma month_cases: "1 \<le> m \<Longrightarrow> m \<le> 12 \<Longrightarrow>
  (m::int) = 1 \<or> m = 2 \<or> m = 3 \<or> m = 4 \<or> m = 5 \<or> m = 6 \<or> m = 7 \<or> m = 8 \<or> m = 9 \<or> m = 10 \<or> m = 11 \<or> m = 12"
  by presburger

lemma month_of_days_before:
  "1 \<le> m \<Longrightarrow> m \<le> 12 \<Longrightarrow> 1 \<le> d \<Longrightarrow> d \<le> month_len y m \<Longrightarrow> month_of y (days_before y m + d - 1) = m"
  by (drule (1) month_cases) (elim disjE; simp add: month_of_def month_len_def split: if_splits)

lemma days_before_lt_year_len:
  "1 \<le> m \<Longrightarrow> m \<le> 12 \<Longrightarrow> 1 \<le> d \<Longrightarrow> d \<le> month_len y m \<Longrightarrow>
   0 \<le> days_before y m + d - 1 \<and> days_before y m + d - 1 < year_len y"
  by (drule (1) month_cases) (elim disjE; simp add: month_len_def year_len_def split: if_splits)

lemma civil_days:
  assumes "1 \<le> m" "m \<le> 12" "1 \<le> d" "d \<le> month_len y m"
  shows "civil_of_days (days_of_civil y m d) = (y, m, d)"
proof -
  have m: "(m - 1) div 12 = 0" "(m - 1) mod 12 + 1 = m" using assms by auto
  have "days_of_civil y m d = days_to_year y + (days_before y m + d - 1)"
    by (simp add: days_of_civil_def m Let_def)
  then show ?thesis
    using year_day_days_to_year [of "days_before y m + d - 1" y] days_before_lt_year_len [OF assms]
      month_of_days_before [OF assms]
    by (simp add: civil_of_days_def Let_def)
qed

lemma div_pred: "0 < n \<Longrightarrow> (y - 1) div n = y div n - (if y mod n = 0 then 1 else 0)" for y n :: int
proof -
  assume n: "0 < n"
  have y: "y = n * (y div n) + y mod n" by simp
  have m: "0 \<le> y mod n" "y mod n < n" using n by auto
  show ?thesis
  proof (cases "y mod n = 0")
    case True
    then have "y - 1 = n * (y div n - 1) + (n - 1)" using y by (simp add: algebra_simps)
    then have "(y - 1) div n = y div n - 1" by (rule int_div_pos_eq) (use n in auto)
    then show ?thesis using True by simp
  next
    case False
    then have "y - 1 = n * (y div n) + (y mod n - 1)" by simp
    then have "(y - 1) div n = y div n" by (rule int_div_pos_eq) (use False m in auto)
    then show ?thesis using False by simp
  qed
qed

lemma mod_400_100: "y mod 400 = 0 \<Longrightarrow> y mod 100 = 0" for y :: int
proof -
  assume h: "y mod 400 = 0"
  have "y mod 100 = y mod 400 mod 100" by (rule mod_mod_cancel [symmetric]) simp
  then show ?thesis unfolding h by (simp only: mod_0)
qed

lemma mod_100_4: "y mod 100 = 0 \<Longrightarrow> y mod 4 = 0" for y :: int
proof -
  assume h: "y mod 100 = 0"
  have "y mod 4 = y mod 100 mod 4" by (rule mod_mod_cancel [symmetric]) simp
  then show ?thesis unfolding h by (simp only: mod_0)
qed

lemma year_len_eq: "year_len y = 365 + (if y mod 4 = 0 then 1 else 0) - (if y mod 100 = 0 then 1 else 0) + (if y mod 400 = 0 then 1 else 0)"
  unfolding year_len_def leap_def using mod_400_100 [of y] mod_100_4 [of y]
  by (cases "y mod 400 = 0"; cases "y mod 100 = 0"; cases "y mod 4 = 0") simp_all

lemma days_to_year_Suc: "days_to_year (y + 1) = days_to_year y + year_len y"
proof -
  note d = div_pred [OF zero_less_numeral]
  have sum: "365 * y + a - b + c - k = 365 * (y - 1) + (a - a') - (b - b') + (c - c') - k + (365 + a' - b' + c')"
    for a a' b b' c c' k :: int by simp
  show ?thesis unfolding days_to_year_def year_len_eq add_diff_cancel_right' d by (rule sum)
qed

lemma year_exists: "\<exists>y k. 0 \<le> k \<and> k < year_len y \<and> d = days_to_year y + k"
proof (induction d rule: int_induct [where k = 0])
  case base
  have "0 < year_len 1970" "days_to_year 1970 = 0" by (simp_all add: year_len_def days_to_year_def)
  then show ?case by (intro exI [of _ 1970] exI [of _ 0]) simp
next
  case (step1 i)
  then obtain y k where h: "0 \<le> k" "k < year_len y" "i = days_to_year y + k" by blast
  show ?case
  proof (cases "k + 1 < year_len y")
    case True
    with h show ?thesis by (intro exI [of _ y] exI [of _ "k + 1"]) simp
  next
    case False
    have "0 < year_len (y + 1)" by (simp add: year_len_def)
    with False h show ?thesis
      by (intro exI [of _ "y + 1"] exI [of _ 0]) (simp only: days_to_year_Suc, simp)
  qed
next
  case (step2 i)
  then obtain y k where h: "0 \<le> k" "k < year_len y" "i = days_to_year y + k" by blast
  show ?case
  proof (cases "1 \<le> k")
    case True
    with h show ?thesis by (intro exI [of _ y] exI [of _ "k - 1"]) simp
  next
    case False
    have "days_to_year y = days_to_year (y - 1) + year_len (y - 1)"
      using days_to_year_Suc [of "y - 1"] by (simp only: diff_add_cancel)
    moreover have "0 < year_len (y - 1)" by (simp add: year_len_def)
    ultimately show ?thesis using False h by (intro exI [of _ "y - 1"] exI [of _ "year_len (y - 1) - 1"]) auto
  qed
qed

lemma month_exists:
  assumes "0 \<le> k" "k < year_len y"
  shows "\<exists>m d. 1 \<le> m \<and> m \<le> 12 \<and> 1 \<le> d \<and> d \<le> month_len y m \<and> k = days_before y m + d - 1"
proof -
  have *: "?thesis" if "1 \<le> m" "m \<le> 12" "days_before y m \<le> k" "k < days_before y m + month_len y m" for m
    using that by (intro exI [of _ m] exI [of _ "k - days_before y m + 1"]) simp
  let ?P = "\<lambda>m. 1 \<le> m \<and> m \<le> 12 \<and> days_before y m \<le> k \<and> k < days_before y m + month_len y m"
  have "?P 1 \<or> ?P 2 \<or> ?P 3 \<or> ?P 4 \<or> ?P 5 \<or> ?P 6 \<or> ?P 7 \<or> ?P 8 \<or> ?P 9 \<or> ?P 10 \<or> ?P 11 \<or> ?P 12"
    using assms by (cases "leap y") (simp_all add: month_len_def year_len_def, linarith+)
  then show ?thesis using * by blast
qed

lemma civil_exists:
  obtains y m d where "1 \<le> m" "m \<le> 12" "1 \<le> d" "d \<le> month_len y m" "days_of_civil y m d = n"
    "civil_of_days n = (y, m, d)"
proof -
  obtain y k where y: "0 \<le> k" "k < year_len y" "n = days_to_year y + k" using year_exists by blast
  then obtain m d where m: "1 \<le> m" "m \<le> 12" "1 \<le> d" "d \<le> month_len y m" "k = days_before y m + d - 1"
    using month_exists by blast
  have "(m - 1) div 12 = 0" "(m - 1) mod 12 + 1 = m" using m by auto
  then have "days_of_civil y m d = n" using y m by (simp add: days_of_civil_def Let_def)
  with that civil_days [OF m(1-4)] m show thesis by blast
qed

subsection \<open>Fields of a time\<close>

definition day_number :: "time \<Rightarrow> int" where
  "day_number t = t div day24"

definition civil :: "time \<Rightarrow> int \<times> int \<times> int" where
  "civil t = civil_of_days (day_number t)"

definition Year :: "time \<Rightarrow> int" where "Year t = fst (civil t)"
definition Month :: "time \<Rightarrow> int" where "Month t = fst (snd (civil t))"
definition Day :: "time \<Rightarrow> int" where "Day t = snd (snd (civil t))"

definition date_time :: "int \<Rightarrow> int \<Rightarrow> int \<Rightarrow> time" where
  "date_time y m d = days_of_civil y m d * day24"

definition AddDate :: "time \<Rightarrow> int \<Rightarrow> int \<Rightarrow> int \<Rightarrow> time" where
  "AddDate t y m d = date_time (Year t + y) (Month t + m) (Day t + d) + t mod day24"

definition TruncateDay :: "time \<Rightarrow> time" where
  "TruncateDay t = t - t mod day24"

lemma civil_fields: "civil t = (Year t, Month t, Day t)"
  by (simp add: Year_def Month_def Day_def)

lemma civil_valid: "1 \<le> Month t \<and> Month t \<le> 12 \<and> 1 \<le> Day t \<and> Day t \<le> month_len (Year t) (Month t)"
  by (rule civil_exists [of "day_number t"]) (simp add: civil_def Year_def Month_def Day_def)

lemma civil_date_time:
  assumes "1 \<le> m" "m \<le> 12" "1 \<le> d" "d \<le> month_len y m"
  shows "Year (date_time y m d) = y" "Month (date_time y m d) = m" "Day (date_time y m d) = d"
  using civil_days [OF assms] by (simp_all add: Year_def Month_def Day_def civil_def day_number_def date_time_def)

lemma day_number_date_time: "0 \<le> r \<Longrightarrow> r < day24 \<Longrightarrow> day_number (date_time y m d + r) = days_of_civil y m d"
  by (simp add: day_number_def date_time_def)

lemma month_len_bounds: "28 \<le> month_len y m" "month_len y m \<le> 31"
  by (auto simp: month_len_def)

end
