(* ===== verification/Retry.thy ===== *)
theory Retry
  imports GoTime
begin

text \<open>
  The contract that the program's two retrying HTTP clients share (\<^verbatim>\<open>query.Prometheus.get\<close> and
  \<^verbatim>\<open>alert.Telegram.Send\<close>). What the attempts answer comes from outside: \<open>ans i\<close> is the outcome of attempt \<open>i\<close>.
  One HTTP exchange cannot be built, fails on the network, or yields a status and a body.
  A run answers with its result, the number of attempts made and the pauses between them.
\<close>

datatype http = BadRequest string | NetErr string | Resp int string

datatype 'a attempt = Done 'a | Fatal string | Transient string

locale retrier =
  fixes n :: nat and backoff :: duration
    and run :: "(nat \<Rightarrow> 'a attempt) \<Rightarrow> nat \<Rightarrow> string \<Rightarrow> 'a res \<times> nat \<times> duration list"
  assumes run_end: "n \<le> i \<Longrightarrow> \<exists>e. run ans i l = (Inl (Err e), i, [])"
    and run_done: "i < n \<Longrightarrow> ans i = Done x \<Longrightarrow> run ans i l = (Inr x, Suc i, [])"
    and run_fatal: "i < n \<Longrightarrow> ans i = Fatal e \<Longrightarrow> run ans i l = (Inl (Err e), Suc i, [])"
    and run_transient: "i < n \<Longrightarrow> ans i = Transient e \<Longrightarrow>
      run ans i l = (let (r, k, s) = run ans (Suc i) e in (r, k, (if Suc i < n then [backoff * 2 ^ i] else []) @ s))"
begin

definition outcome_ok :: "(nat \<Rightarrow> 'a attempt) \<Rightarrow> nat \<Rightarrow> 'a res \<times> nat \<times> duration list \<Rightarrow> bool" where
  "outcome_ok ans i = (\<lambda>(r, k, s).
     i \<le> k \<and> k \<le> max i n \<and> s = map (\<lambda>j. backoff * 2 ^ j) [i..<k - 1]
     \<and> (\<forall>j. i \<le> j \<and> Suc j < k \<longrightarrow> (\<exists>e. ans j = Transient e))
     \<and> (case r of Inr x \<Rightarrow> i < k \<and> ans (k - 1) = Done x
        | Inl e \<Rightarrow> e \<noteq> Panic \<and> (k = max i n \<and> (\<forall>j. i \<le> j \<and> j < n \<longrightarrow> (\<exists>t. ans j = Transient t))
                  \<or> i < k \<and> (\<exists>t. ans (k - 1) = Fatal t))))"

lemma run_outcome: "outcome_ok ans i (run ans i l)"
proof (induction "n - i" arbitrary: i l)
  case 0
  then obtain e where "run ans i l = (Inl (Err e), i, [])" using run_end [of i ans l] by auto
  then show ?case using 0 by (auto simp: outcome_ok_def)
next
  case (Suc m)
  then have i: "i < n" "m = n - Suc i" by auto
  show ?case
  proof (cases "ans i")
    case (Done x)
    then show ?thesis using i run_done by (auto simp: outcome_ok_def)
  next
    case (Fatal e)
    then show ?thesis using i run_fatal by (auto simp: outcome_ok_def)
  next
    case (Transient e)
    obtain r k s where t: "run ans (Suc i) e = (r, k, s)" by (cases "run ans (Suc i) e")
    have IH: "outcome_ok ans (Suc i) (r, k, s)" using Suc.hyps(1) [OF i(2), of e] t by simp
    have eq: "run ans i l = (r, k, (if Suc i < n then [backoff * 2 ^ i] else []) @ s)"
      using run_transient [of i ans e l] i(1) Transient t by simp
    have k: "Suc i \<le> k" "k \<le> max (Suc i) n" using IH by (auto simp: outcome_ok_def)
    have "k = Suc i \<longrightarrow> \<not> Suc i < n" using IH by (cases r) (auto simp: outcome_ok_def)
    then have up: "map (\<lambda>j. backoff * 2 ^ j) [i..<k - 1] = (if Suc i < n then [backoff * 2 ^ i] else []) @ s"
      using IH k by (auto simp: outcome_ok_def upt_conv_Cons)
    have tr: "\<exists>e. ans j = Transient e" if "i \<le> j" "Suc j < k" for j
      using IH that Transient by (cases "j = i") (auto simp: outcome_ok_def)
    have tr': "\<exists>e. ans j = Transient e" if "i \<le> j" "\<forall>j. Suc i \<le> j \<and> j < n \<longrightarrow> (\<exists>t. ans j = Transient t)" "j < n" for j
      using that Transient by (cases "j = i") auto
    have res: "case r of Inr x \<Rightarrow> i < k \<and> ans (k - 1) = Done x
        | Inl e \<Rightarrow> e \<noteq> Panic \<and> (k = max i n \<and> (\<forall>j. i \<le> j \<and> j < n \<longrightarrow> (\<exists>t. ans j = Transient t))
                  \<or> i < k \<and> (\<exists>t. ans (k - 1) = Fatal t))"
    proof (cases r)
      case (Inl e')
      then consider "e' \<noteq> Panic" "k = max (Suc i) n" "\<forall>j. Suc i \<le> j \<and> j < n \<longrightarrow> (\<exists>t. ans j = Transient t)"
        | "e' \<noteq> Panic" "\<exists>t. ans (k - 1) = Fatal t"
        using IH unfolding outcome_ok_def by auto
      then show ?thesis
      proof cases
        case 1
        then show ?thesis using tr' i(1) Inl by simp
      next
        case 2
        then show ?thesis using k Inl by simp
      qed
    next
      case (Inr x)
      then show ?thesis using IH k unfolding outcome_ok_def by simp
    qed
    show ?thesis unfolding eq outcome_ok_def prod.case using k up tr res i(1) by simp
  qed
qed

lemma run_success_iff:
  "(\<exists>x k s. run ans 0 l = (Inr x, k, s)) \<longleftrightarrow> (\<exists>j < n. (\<exists>x. ans j = Done x) \<and> (\<forall>i < j. \<exists>e. ans i = Transient e))"
proof
  assume "\<exists>x k s. run ans 0 l = (Inr x, k, s)"
  then obtain x k s where r: "run ans 0 l = (Inr x, k, s)" by blast
  then have o: "outcome_ok ans 0 (Inr x, k, s)" using run_outcome [of ans 0 l] by simp
  then have k: "0 < k" "k \<le> n" "ans (k - 1) = Done x" by (simp_all add: outcome_ok_def)
  have "\<forall>i < k - 1. \<exists>e. ans i = Transient e" using o by (simp add: outcome_ok_def)
  moreover have "k - 1 < n" using k by linarith
  ultimately show "\<exists>j < n. (\<exists>x. ans j = Done x) \<and> (\<forall>i < j. \<exists>e. ans i = Transient e)" using k(3) by blast
next
  assume "\<exists>j < n. (\<exists>x. ans j = Done x) \<and> (\<forall>i < j. \<exists>e. ans i = Transient e)"
  then obtain j x where j: "j < n" "ans j = Done x" "\<forall>i < j. \<exists>e. ans i = Transient e" by blast
  obtain r k s where r: "run ans 0 l = (r, k, s)" by (cases "run ans 0 l")
  then have o: "outcome_ok ans 0 (r, k, s)" using run_outcome [of ans 0 l] by simp
  show "\<exists>x k s. run ans 0 l = (Inr x, k, s)"
  proof (cases r)
    case (Inl e)
    then have "(\<forall>i < n. \<exists>t. ans i = Transient t) \<or> 0 < k \<and> (\<exists>t. ans (k - 1) = Fatal t)" using o by (auto simp: outcome_ok_def)
    moreover have "j < k - 1 \<Longrightarrow> \<exists>e. ans j = Transient e" using o by (simp add: outcome_ok_def)
    ultimately have False using j by (metis attempt.distinct(1,3,5) linorder_neqE_nat)
    then show ?thesis ..
  next
    case (Inr y)
    then show ?thesis using r by blast
  qed
qed

end

end
