(* ===== verification/GoStrings.thy ===== *)
theory GoStrings
  imports GoTime
begin

text \<open>
  The parts of \<^verbatim>\<open>strings\<close> and \<^verbatim>\<open>strconv\<close> that the program uses, on byte strings. White space is the ASCII white
  space (the configuration and the identifiers of the program are ASCII; other text is only passed through).
  \<open>ParseFloat_dec\<close> is \<^verbatim>\<open>strconv.ParseFloat\<close> on texts of digits and points, the only ones its caller passes:
  the nearest float, and an error for a malformed or too large number.
\<close>

subsection \<open>White space\<close>

definition is_space :: "char \<Rightarrow> bool" where
  "is_space c \<longleftrightarrow> c = CHR '' '' \<or> c = CHR 0x09 \<or> c = CHR 0x0A \<or> c = CHR 0x0B \<or> c = CHR 0x0C \<or> c = CHR 0x0D"

definition TrimSpace :: "string \<Rightarrow> string" where
  "TrimSpace s = rev (dropWhile is_space (rev (dropWhile is_space s)))"

lemma TrimSpace_id: "s = [] \<or> \<not> is_space (hd s) \<and> \<not> is_space (last s) \<Longrightarrow> TrimSpace s = s"
proof -
  have d: "dropWhile P t = t" if "t = [] \<or> \<not> P (hd t)" for P and t :: string
    using that by (cases t) auto
  assume "s = [] \<or> \<not> is_space (hd s) \<and> \<not> is_space (last s)"
  then show ?thesis using d [of s is_space] d [of "rev s" is_space] by (auto simp: TrimSpace_def hd_rev)
qed

subsection \<open>Prefixes\<close>

definition HasPrefix :: "string \<Rightarrow> string \<Rightarrow> bool" where
  "HasPrefix s p \<longleftrightarrow> take (length p) s = p"

definition TrimPrefix :: "string \<Rightarrow> string \<Rightarrow> string" where
  "TrimPrefix s p = (if HasPrefix s p then drop (length p) s else s)"

subsection \<open>Decimal numbers\<close>

definition char_range :: "char \<Rightarrow> char \<Rightarrow> char \<Rightarrow> bool" where
  "char_range lo hi c \<longleftrightarrow> lo \<le> c \<and> c \<le> hi"

definition is_letter :: "char \<Rightarrow> bool" where
  "is_letter = (\<lambda>c. char_range (CHR ''A'') (CHR ''Z'') c \<or> char_range (CHR ''a'') (CHR ''z'') c)"

definition is_digit :: "char \<Rightarrow> bool" where
  "is_digit c \<longleftrightarrow> CHR ''0'' \<le> c \<and> c \<le> CHR ''9''"

definition digit_val :: "char \<Rightarrow> nat" where
  "digit_val c = of_char c - 48"

definition digit_char :: "nat \<Rightarrow> char" where
  "digit_char d = char_of (48 + d)"

fun dec_acc :: "nat \<Rightarrow> string \<Rightarrow> string" where
  "dec_acc n acc = (if n < 10 then digit_char n # acc else dec_acc (n div 10) (digit_char (n mod 10) # acc))"

declare dec_acc.simps [simp del]

text \<open>\<^verbatim>\<open>%d\<close>.\<close>

definition dec :: "nat \<Rightarrow> string" where
  "dec n = dec_acc n []"

definition dec_int :: "int \<Rightarrow> string" where
  "dec_int i = (if i < 0 then CHR ''-'' # dec (nat (- i)) else dec (nat i))"

fun digits_val :: "string \<Rightarrow> nat \<Rightarrow> nat" where
  "digits_val [] acc = acc"
| "digits_val (c # cs) acc = digits_val cs (10 * acc + digit_val c)"

lemma digit_char_props: "d < 10 \<Longrightarrow> is_digit (digit_char d)" "d < 10 \<Longrightarrow> digit_val (digit_char d) = d"
  by (auto simp: is_digit_def digit_char_def digit_val_def less_eq_char_def)

lemma digits_val_append: "digits_val (xs @ ys) acc = digits_val ys (digits_val xs acc)"
  by (induction xs acc rule: digits_val.induct) auto

lemma dec_acc_spec: "\<exists>ds. dec_acc n acc = ds @ acc \<and> ds \<noteq> [] \<and> list_all is_digit ds \<and> digits_val ds 0 = n"
proof (induction n acc rule: dec_acc.induct)
  case (1 n acc)
  show ?case
  proof (cases "n < 10")
    case True
    then show ?thesis by (intro exI [of _ "[digit_char n]"]) (simp add: dec_acc.simps [of n] digit_char_props)
  next
    case False
    with 1 obtain ds where "dec_acc (n div 10) (digit_char (n mod 10) # acc) = ds @ digit_char (n mod 10) # acc"
      "ds \<noteq> []" "list_all is_digit ds" "digits_val ds 0 = n div 10" by blast
    with False show ?thesis
      by (intro exI [of _ "ds @ [digit_char (n mod 10)]"])
        (simp add: dec_acc.simps [of n] digits_val_append digit_char_props)
  qed
qed

lemma dec_spec: "dec n \<noteq> []" "list_all is_digit (dec n)" "digits_val (dec n) 0 = n"
  using dec_acc_spec [of n "[]"] by (auto simp: dec_def)

lemma dec_inj: "dec m = dec n \<longleftrightarrow> m = n"
  by (metis dec_spec(3))

text \<open>Digits, at most one point, at least one digit.\<close>

definition ParseFloat_dec :: "string \<Rightarrow> f64 option" where
  "ParseFloat_dec s =
     (let ip = takeWhile (\<lambda>c. c \<noteq> CHR ''.'') s; fp = drop (Suc (length ip)) s; ds = ip @ fp in
      if ds = [] \<or> \<not> list_all is_digit ds then None
      else let x = rnd (of_nat (digits_val ds 0) / 10 ^ length fp)
           in if x = PInf then None else Some x)"

lemma ParseFloat_digits:
  "ds \<noteq> [] \<Longrightarrow> list_all is_digit ds \<Longrightarrow> ParseFloat_dec ds = (let x = rnd (of_nat (digits_val ds 0)) in if x = PInf then None else Some x)"
proof -
  assume a: "ds \<noteq> []" "list_all is_digit ds"
  then have "\<forall>c \<in> set ds. c \<noteq> CHR ''.''" by (auto simp: list_all_iff is_digit_def less_eq_char_def)
  then have "takeWhile (\<lambda>c. c \<noteq> CHR ''.'') ds = ds" by (simp add: takeWhile_eq_all_conv)
  note tw = this
  show ?thesis using a by (simp add: ParseFloat_dec_def Let_def tw)
qed

end
