(* ===== verification/Alert.thy ===== *)
theory Alert
  imports Retry GoStrings
begin

text \<open>
  \<^verbatim>\<open>internal/alert\<close>: the notification state machine (\<^verbatim>\<open>dedupe.go\<close>), the silence coordination with
  AlertManager, the daily digest text, and the Telegram client (\<^verbatim>\<open>telegram.go\<close>). Texts in other scripts than ASCII
  are given by their UTF-8 bytes.
\<close>

definition utf8 :: "nat list \<Rightarrow> string" where
  "utf8 bs = map char_of bs"

subsection \<open>Deduplication\<close>

type_synonym dedupe = "string \<rightharpoonup> string"

definition rank :: "string \<Rightarrow> nat" where
  "rank st = (if st = ''critical'' then 2 else if st = ''warning'' then 1 else 0)"

definition registered :: "dedupe \<Rightarrow> string \<Rightarrow> string" where
  "registered d sensorID = (if map_get d sensorID = [] then ''healthy'' else map_get d sensorID)"

definition Peek :: "dedupe \<Rightarrow> string \<Rightarrow> string \<Rightarrow> bool" where
  "Peek d sensorID newState =
     (let prev = registered d sensorID in
      if prev = newState then False
      else if newState \<noteq> ''healthy'' \<and> prev \<noteq> ''healthy'' \<and> rank newState \<le> rank prev then False
      else True)"

definition Commit :: "dedupe \<Rightarrow> string \<Rightarrow> string \<Rightarrow> dedupe" where
  "Commit d sensorID newState = d(sensorID \<mapsto> newState)"

definition ShouldNotify :: "dedupe \<Rightarrow> string \<Rightarrow> string \<Rightarrow> bool \<times> dedupe" where
  "ShouldNotify d sensorID newState =
     (if Peek d sensorID newState then (True, Commit d sensorID newState) else (False, d))"

definition MarkHealthy :: "dedupe \<Rightarrow> string \<Rightarrow> dedupe" where
  "MarkHealthy d sensorID = d(sensorID \<mapsto> ''healthy'')"

subsection \<open>AlertManager\<close>

record am_alert =
  A_State :: string
  A_Labels :: "string \<rightharpoonup> string"

text \<open>\<^verbatim>\<open>strings.Contains\<close>.\<close>

fun Contains :: "string \<Rightarrow> string \<Rightarrow> bool" where
  "Contains [] sub = (sub = [])"
| "Contains (c # cs) sub = (take (length sub) (c # cs) = sub \<or> Contains cs sub)"

text \<open>\<open>resp\<close> is what the request and the decoder answer.\<close>

definition HasFiringAlerts :: "am_alert list res \<Rightarrow> string \<Rightarrow> bool res" where
  "HasFiringAlerts resp filt =
     res_bind resp (\<lambda>alerts. Inr (list_ex (\<lambda>al.
        (A_State al = ''active'' \<or> A_State al = ''suppressed'')
        \<and> (\<exists>v \<in> ran (A_Labels al). filt \<noteq> [] \<and> Contains v filt)) alerts))"

subsection \<open>The digest\<close>

definition digest_title :: string where
  "digest_title = utf8 [240, 159, 147, 139, 32, 115, 101, 110, 116, 105, 110, 101, 108, 32, 230, 175, 143, 230, 151, 165, 230,
     145, 152, 232, 166, 129, 10]"

definition digest_count :: "nat \<Rightarrow> string" where
  "digest_count n = utf8 [232, 191, 189, 232, 185, 164, 228, 184, 173, 239, 188, 154] @ dec n
     @ utf8 [32, 229, 128, 139, 230, 132, 159, 230, 184, 172, 10]"

definition icon :: "string \<Rightarrow> string" where
  "icon st = (if st = ''warning'' then utf8 [226, 154, 160, 239, 184, 143]
     else if st = ''critical'' then utf8 [240, 159, 148, 180] else utf8 [226, 156, 133])"

definition digest_line :: "(string \<rightharpoonup> string) \<Rightarrow> string \<Rightarrow> string" where
  "digest_line entries i = icon (map_get entries i) @ '' '' @ i @ utf8 [32, 226, 128, 148, 32] @ map_get entries i @ [CHR 0x0A]"

definition Digest_Format :: "string list \<Rightarrow> (string \<rightharpoonup> string) \<Rightarrow> string" where
  "Digest_Format ids entries =
     digest_title @ digest_count (length ids) @ concat (map (digest_line entries) (sort ids))"

subsection \<open>Telegram\<close>

definition post :: "http \<Rightarrow> unit attempt" where
  "post h = (case h of BadRequest e \<Rightarrow> Fatal e | NetErr e \<Rightarrow> Transient e
     | Resp code body \<Rightarrow> if code \<ge> 500 then Transient ''telegram'' else if code \<noteq> 200 then Fatal body else Done ())"

function send_loop :: "nat \<Rightarrow> duration \<Rightarrow> (nat \<Rightarrow> unit attempt) \<Rightarrow> nat \<Rightarrow> string \<Rightarrow> unit res \<times> nat \<times> duration list" where
  "send_loop attempts backoff ans i lastErr =
     (if i < attempts then
        (case ans i of Done _ \<Rightarrow> (Inr (), Suc i, [])
         | Fatal e \<Rightarrow> (Inl (Err e), Suc i, [])
         | Transient e \<Rightarrow>
            (let (r, k, s) = send_loop attempts backoff ans (Suc i) e
             in (r, k, (if Suc i < attempts then [backoff * 2 ^ i] else []) @ s)))
      else (Inl (Err lastErr), i, []))"
  by pat_completeness auto
termination by (relation "measure (\<lambda>(n, b, ans, i, l). n - i)") auto

declare send_loop.simps [simp del]

definition Send :: "(nat \<Rightarrow> http) \<Rightarrow> unit res \<times> nat \<times> duration list" where
  "Send net = send_loop 3 second (\<lambda>i. post (net i)) 0 []"

interpretation tg: retrier n b "send_loop n b" for n b
  by unfold_locales (subst send_loop.simps, auto)+

subsection \<open>Properties\<close>

lemma post_cases:
  "post h = Done () \<longleftrightarrow> (\<exists>b. h = Resp 200 b)"
  "(\<exists>e. post h = Transient e) \<longleftrightarrow> (\<exists>e. h = NetErr e) \<or> (\<exists>c b. h = Resp c b \<and> 500 \<le> c)"
  by (cases h; auto simp: post_def)+

definition passing :: "http \<Rightarrow> bool" where
  "passing h \<longleftrightarrow> (\<exists>e. h = NetErr e) \<or> (\<exists>c b. h = Resp c b \<and> 500 \<le> c)"

text \<open>
  Claim C8. Sending a notification succeeds exactly if one of the first three answers is a 200 and all answers before it are
  network or server errors; it makes at most three attempts, pausing one and then two seconds, and ends at
  the first client error.
\<close>

theorem Send_spec:
  "(fst (Send net) = Inr () \<longleftrightarrow> (\<exists>j < 3. (\<exists>b. net j = Resp 200 b) \<and> {..<j} \<subseteq> {i. passing (net i)}))
   \<and> fst (snd (Send net)) \<le> 3 \<and> snd (snd (Send net)) = take (fst (snd (Send net)) - 1) [second, 2 * second]"
proof -
  let ?ans = "\<lambda>i. post (net i)"
  obtain r k s where rks: "Send net = (r, k, s)" by (cases "Send net")
  have o: "tg.outcome_ok 3 second ?ans 0 (r, k, s)"
    using tg.run_outcome [of 3 second ?ans 0 "[]"] rks by (simp add: Send_def)
  have "r = Inr () \<longleftrightarrow> (\<exists>j < 3. (\<exists>b. net j = Resp 200 b) \<and> (\<forall>i < j. passing (net i)))"
    using tg.run_success_iff [of 3 second ?ans "[]"] rks
    by (cases r) (simp_all add: Send_def post_cases passing_def)
  moreover have k: "k \<le> 3" and s: "s = map (\<lambda>j. second * 2 ^ j) [0..<k - 1]" using o by (auto simp: tg.outcome_ok_def)
  moreover have "s = take (k - 1) [second, 2 * second]"
  proof -
    have "k = 0 \<or> k = 1 \<or> k = 2 \<or> k = 3" using k by arith
    then show ?thesis unfolding s by (elim disjE) (simp_all add: upt_rec)
  qed
  ultimately show ?thesis by (auto simp: rks subset_iff)
qed

text \<open>
  Histories of one sensor: the states it reports, the newest last, all notifications delivered. \<open>told\<close> collects what is sent.
\<close>

fun told :: "string \<Rightarrow> dedupe \<Rightarrow> string list \<Rightarrow> string list" where
  "told i d [] = []"
| "told i d (st # sts) = (let (ok, d') = ShouldNotify d i st in (if ok then [st] else []) @ told i d' sts)"

definition known :: "string \<Rightarrow> bool" where
  "known st \<longleftrightarrow> st = ''healthy'' \<or> st = ''warning'' \<or> st = ''critical''"

text \<open>From one message to the next: an escalation, or the recovery from an alarm.\<close>

definition follows :: "string \<Rightarrow> string \<Rightarrow> bool" where
  "follows prev st \<longleftrightarrow> rank prev < rank st \<or> st = ''healthy'' \<and> prev \<noteq> ''healthy''"

lemma told_follows:
  "known (registered d i) \<Longrightarrow> list_all known sts \<Longrightarrow>
   successively follows ((registered d i) # told i d sts)"
proof (induction sts arbitrary: d)
  case (Cons st sts)
  then have k: "known st" "list_all known sts" by auto
  then have "registered (Commit d i st) i = st" by (auto simp: registered_def known_def Commit_def)
  then have IH: "successively follows (st # told i (Commit d i st) sts)" using Cons.IH [of "Commit d i st"] k by simp
  show ?case
  proof (cases "Peek d i st")
    case True
    have "follows (registered d i) st"
      using True Cons.prems(1) k(1) by (auto simp: Peek_def known_def follows_def rank_def Let_def split: if_splits)
    then show ?thesis using IH True by (simp add: ShouldNotify_def)
  next
    case False
    then show ?thesis using Cons by (simp add: ShouldNotify_def)
  qed
qed simp

text \<open>
  Claim C3. The messages about a sensor, over any history of its states, alternate between incidents and recoveries: within an incident each
  message is a strict escalation (so warning and critical are told at most once each, never downwards),
  a recovery is told only after an alarm, and no message repeats the one before it.
\<close>

theorem notifications_alternate:
  assumes "list_all known sts"
  shows "successively follows (''healthy'' # told i (\<lambda>_. None) sts)"
  using told_follows [of Map.empty i sts] assms by (simp add: known_def registered_def)

theorem notifications_alternate_witness:
  "successively follows (''healthy'' # told ''disk'' (\<lambda>_. None) [''warning'', ''warning'', ''critical'', ''warning'', ''healthy''])"
  by (rule notifications_alternate) (simp add: known_def)

lemma told_example: "told ''disk'' (\<lambda>_. None) [''warning'', ''warning'', ''critical'', ''warning'', ''healthy'']
    = [''warning'', ''critical'', ''healthy'']"
  by (simp add: ShouldNotify_def Peek_def Commit_def registered_def rank_def map_get_def)

text \<open>
  Nothing is kept quiet: whenever a sensor is asked about, its registered state afterwards is at least as severe as the
  reported one, and healthy if that is healthy; the other sensors are untouched.
\<close>

lemma ShouldNotify_covers:
  assumes "known st" "known (registered d i)" "ShouldNotify d i st = (ok, d')"
  shows "rank st \<le> rank (registered d' i) \<and> (st = ''healthy'' \<longleftrightarrow> registered d' i = ''healthy'') \<and> d'(i := None) = d(i := None)
       \<and> (ok \<longleftrightarrow> d' \<noteq> d)"
proof (cases "Peek d i st")
  case True
  then have d': "d' = d(i \<mapsto> st)" "ok" using assms(3) by (auto simp: ShouldNotify_def Commit_def)
  have "registered d i \<noteq> st" using True by (auto simp: Peek_def)
  then have "registered d' i \<noteq> registered d i" using d' assms(1) by (auto simp: registered_def known_def)
  then have "d' \<noteq> d" by auto
  then show ?thesis using d' assms(1) by (auto simp: registered_def known_def)
next
  case False
  then show ?thesis using assms by (auto simp: ShouldNotify_def Peek_def known_def rank_def Let_def split: if_splits)
qed

lemma ShouldNotify_covers_witness:
  "rank ''warning'' \<le> rank (registered [''disk'' \<mapsto> ''critical''] ''disk'')"
  using ShouldNotify_covers [of "''warning''" "[''disk'' \<mapsto> ''critical'']" "''disk''" False "[''disk'' \<mapsto> ''critical'']"]
  by (simp add: known_def registered_def ShouldNotify_def Peek_def rank_def)

end
