(* ===== verification/Query.thy ===== *)
theory Query
  imports GoTime
begin

text \<open>
  \<^verbatim>\<open>internal/query\<close>: samples, result series and the \<^verbatim>\<open>Source\<close> interface (\<^verbatim>\<open>source.go\<close>).
  A \<^verbatim>\<open>Source\<close> is the pair of its two methods; what they answer comes from outside the program, so the
  operations that query take the source as an argument.
\<close>

record sample =
  s_time :: time
  s_value :: f64

record qresult =
  r_labels :: "string \<rightharpoonup> string"
  r_samples :: "sample list"

record source =
  InstantQuery :: "string \<Rightarrow> time \<Rightarrow> qresult list res"
  RangeQuery :: "string \<Rightarrow> time \<Rightarrow> time \<Rightarrow> duration \<Rightarrow> qresult list res"

end
