(* ===== verification/Prometheus.thy ===== *)
theory Prometheus
  imports Retry Query GoStrings
begin

text \<open>
  \<^verbatim>\<open>internal/query/prometheus.go\<close>: the HTTP client behind \<open>Source\<close>. The JSON decoder and the general number parser are
  parameters (\<open>codec\<close>); a decoded envelope holds the raw tokens of the values, as \<^verbatim>\<open>json.RawMessage\<close> does.
\<close>

record raw_result =
  Metric :: "string \<rightharpoonup> string"
  RawValue :: "string list"
  RawValues :: "string list list"

record envelope =
  Status :: string
  Results :: "raw_result list"

record codec =
  Unmarshal :: "string \<Rightarrow> envelope option"
  JsonString :: "string \<Rightarrow> string option"
  ParseFloat :: "string \<Rightarrow> f64 option"

text \<open>A time stamp is cut to whole seconds.\<close>

definition parseValue :: "arch \<Rightarrow> codec \<Rightarrow> string \<Rightarrow> string \<Rightarrow> sample res" where
  "parseValue a cd tsRaw valRaw =
     (case ParseFloat cd tsRaw of None \<Rightarrow> Inl (Err ''parse timestamp'')
      | Some tsf \<Rightarrow>
        (let vs = (case JsonString cd valRaw of None \<Rightarrow> valRaw | Some s \<Rightarrow> s) in
         case ParseFloat cd vs of None \<Rightarrow> Inl (Err ''parse value'')
         | Some v \<Rightarrow> Inr \<lparr>s_time = to_i64 a tsf * second, s_value = v\<rparr>))"

definition instant_part :: "arch \<Rightarrow> codec \<Rightarrow> raw_result \<Rightarrow> qresult list res" where
  "instant_part a cd r =
     (case RawValue r of [t, v] \<Rightarrow>
        res_bind (parseValue a cd t v) (\<lambda>s. Inr [\<lparr>r_labels = Metric r, r_samples = [s]\<rparr>])
      | _ \<Rightarrow> Inr [])"

fun range_samples :: "arch \<Rightarrow> codec \<Rightarrow> string list list \<Rightarrow> sample list res" where
  "range_samples a cd [] = Inr []"
| "range_samples a cd (p # ps) =
     (case p of [t, v] \<Rightarrow>
        res_bind (parseValue a cd t v) (\<lambda>s. res_bind (range_samples a cd ps) (\<lambda>ss. Inr (s # ss)))
      | _ \<Rightarrow> range_samples a cd ps)"

definition range_part :: "arch \<Rightarrow> codec \<Rightarrow> raw_result \<Rightarrow> qresult list res" where
  "range_part a cd r =
     (if RawValues r = [] then Inr []
      else res_bind (range_samples a cd (RawValues r)) (\<lambda>ss. Inr [\<lparr>r_labels = Metric r, r_samples = ss\<rparr>]))"

definition decode_results :: "arch \<Rightarrow> codec \<Rightarrow> raw_result list \<Rightarrow> qresult list res" where
  "decode_results a cd rs =
     res_bind (res_all (\<lambda>r. res_bind (instant_part a cd r) (\<lambda>xs. res_bind (range_part a cd r) (\<lambda>ys. Inr (xs @ ys)))) rs)
       (\<lambda>xss. Inr (concat xss))"

text \<open>One exchange. A transport error and a status of 500 or more may be tried again, nothing else.\<close>

definition once :: "arch \<Rightarrow> codec \<Rightarrow> http \<Rightarrow> qresult list attempt" where
  "once a cd h =
     (case h of BadRequest e \<Rightarrow> Fatal e
      | NetErr e \<Rightarrow> Transient e
      | Resp code body \<Rightarrow>
          if code \<noteq> 200 then (if code \<ge> 500 then Transient body else Fatal body)
          else case Unmarshal cd body of None \<Rightarrow> Fatal ''decode response''
            | Some env \<Rightarrow>
                if Status env \<noteq> ''success'' then Fatal (Status env)
                else case decode_results a cd (Results env) of
                    Inl Panic \<Rightarrow> Fatal [] | Inl (Err e) \<Rightarrow> Fatal e | Inr rs \<Rightarrow> Done rs)"

function get_loop :: "nat \<Rightarrow> duration \<Rightarrow> (nat \<Rightarrow> 'a attempt) \<Rightarrow> nat \<Rightarrow> string \<Rightarrow> 'a res \<times> nat \<times> duration list" where
  "get_loop attempts backoff ans i lastErr =
     (if i < attempts then
        (case ans i of
           Done rs \<Rightarrow> (Inr rs, Suc i, [])
         | Fatal e \<Rightarrow> (Inl (Err e), Suc i, [])
         | Transient e \<Rightarrow>
            (let pause = (if Suc i < attempts then [backoff * 2 ^ i] else []);
                 (r, k, s) = get_loop attempts backoff ans (Suc i) e
             in (r, k, pause @ s)))
      else (Inl (Err lastErr), i, []))"
  by pat_completeness auto
termination by (relation "measure (\<lambda>(n, b, ans, i, l). n - i)") auto

declare get_loop.simps [simp del]

definition get :: "arch \<Rightarrow> codec \<Rightarrow> (nat \<Rightarrow> http) \<Rightarrow> qresult list res \<times> nat \<times> duration list" where
  "get a cd net = get_loop 3 500000000 (\<lambda>i. once a cd (net i)) 0 []"

text \<open>
  The client as a \<open>Source\<close>: \<open>net\<close> answers the exchanges of a request, which is its endpoint and its parameters. The instant
  is sent in seconds with the milliseconds as decimals, the step as a duration.
\<close>

record request =
  Endpoint :: string
  Query_text :: string
  At_ms :: "int list"
  Step :: "duration option"

definition unix_ms :: "time \<Rightarrow> int" where
  "unix_ms t = t div 1000000"

definition prom_source :: "arch \<Rightarrow> codec \<Rightarrow> (request \<Rightarrow> nat \<Rightarrow> http) \<Rightarrow> source" where
  "prom_source a cd net =
     \<lparr>InstantQuery = (\<lambda>q t. fst (get a cd (net \<lparr>Endpoint = ''/api/v1/query'', Query_text = q, At_ms = [unix_ms t], Step = None\<rparr>))),
      RangeQuery = (\<lambda>q s e d. fst (get a cd (net \<lparr>Endpoint = ''/api/v1/query_range'', Query_text = q,
         At_ms = [unix_ms s, unix_ms e], Step = Some d\<rparr>)))\<rparr>"

interpretation prom: retrier n b "get_loop n b" for n b
  by unfold_locales (subst get_loop.simps, auto)+

lemma parseValue_not_Panic: "parseValue a cd t v \<noteq> Inl Panic"
  by (auto simp: parseValue_def Let_def split: option.splits)

text \<open>
  A query that fails with a client error, with an undecodable body or with a number that is none is not repeated, a query that
  fails on the network or with a server error is, after half a second and then after a second: at
  most three exchanges are made, and the answer is that of the last of them.
\<close>

lemma get_spec:
  "fst (snd (get a cd net)) \<le> 3 \<and> snd (snd (get a cd net)) = take (fst (snd (get a cd net)) - 1) [500000000, second]
   \<and> (\<exists>rs. fst (get a cd net) = Inr rs)
     = (\<exists>j < 3. (\<exists>rs. once a cd (net j) = Done rs) \<and> {..<j} \<subseteq> {i. \<exists>e. once a cd (net i) = Transient e})
   \<and> {i. Suc i < fst (snd (get a cd net))} \<subseteq> {i. \<exists>e. net i = NetErr e \<or> (\<exists>c. net i = Resp c e \<and> 500 \<le> c)}"
proof -
  let ?ans = "\<lambda>i. once a cd (net i)"
  obtain r k s where rks: "get a cd net = (r, k, s)" by (cases "get a cd net")
  have o: "prom.outcome_ok 3 500000000 ?ans 0 (r, k, s)"
    using prom.run_outcome [of 3 500000000 ?ans 0 "[]"] rks by (simp add: get_def)
  have k: "k \<le> 3" and s: "s = map (\<lambda>j. 500000000 * 2 ^ j) [0..<k - 1]"
    and t: "\<forall>j. Suc j < k \<longrightarrow> (\<exists>e. ?ans j = Transient e)" using o by (auto simp: prom.outcome_ok_def)
  have "k = 0 \<or> k = 1 \<or> k = 2 \<or> k = 3" using k by arith
  then have s': "s = take (k - 1) [500000000, second]" unfolding s by (elim disjE) (simp_all add: upt_rec)
  have tr: "(\<exists>e. once a cd h = Transient e) \<longrightarrow> (\<exists>e. h = NetErr e \<or> (\<exists>c. h = Resp c e \<and> 500 \<le> c))" for h
    by (auto simp: once_def split: http.splits option.splits sum.splits gerr.splits if_splits)
  have "(\<exists>rs. r = Inr rs) = (\<exists>j < 3. (\<exists>rs. ?ans j = Done rs) \<and> (\<forall>i < j. \<exists>e. ?ans i = Transient e))"
    using prom.run_success_iff [of 3 500000000 ?ans "[]"] rks by (simp add: get_def)
  then show ?thesis using k s' t tr by (auto simp: rks subset_iff)
qed

end
