(* ===== verification/Promdur.thy ===== *)
theory Promdur
  imports GoStrings
begin

text \<open>
  \<^verbatim>\<open>internal/promdur/promdur.go\<close>: durations such as \<^verbatim>\<open>72h\<close>, \<^verbatim>\<open>14d\<close> or \<^verbatim>\<open>1d12h\<close>. The state of the loop is the
  total and the digits collected so far.
\<close>

definition unit_hours :: "char \<Rightarrow> f64 \<Rightarrow> f64" where
  "unit_hours u n =
     (if u = CHR ''y'' then fmul (fmul n (Fin 365)) (Fin 24)
      else if u = CHR ''w'' then fmul (fmul n (Fin 7)) (Fin 24)
      else if u = CHR ''d'' then fmul n (Fin 24) else n)"

definition unit_len :: "char \<Rightarrow> duration option" where
  "unit_len u = (if u = CHR ''y'' then Some (365 * day24) else if u = CHR ''w'' then Some (7 * day24)
     else if u = CHR ''d'' then Some day24 else if u = CHR ''h'' then Some hour
     else if u = CHR ''m'' then Some minute else if u = CHR ''s'' then Some second else None)"

definition unit_nanos :: "char \<Rightarrow> f64 \<Rightarrow> f64 option" where
  "unit_nanos u n =
     (if u = CHR ''y'' \<or> u = CHR ''w'' \<or> u = CHR ''d'' \<or> u = CHR ''h'' then Some (fmul (unit_hours u n) (Fin 3600000000000))
      else if u = CHR ''m'' then Some (fmul n (Fin 60000000000))
      else if u = CHR ''s'' then Some (fmul n (Fin 1000000000)) else None)"

definition flush :: "arch \<Rightarrow> string \<Rightarrow> duration \<Rightarrow> char \<Rightarrow> duration option" where
  "flush a num tot unit =
     (if num = [] then None
      else case ParseFloat_dec num of None \<Rightarrow> None
        | Some n \<Rightarrow> if flt n (Fin 0) then None
            else map_option (\<lambda>x. wrap64 (tot + to_i64 a x)) (unit_nanos unit n))"

fun parse_loop :: "arch \<Rightarrow> string \<Rightarrow> duration \<Rightarrow> string \<Rightarrow> (duration \<times> string) option" where
  "parse_loop a [] tot num = Some (tot, num)"
| "parse_loop a (ch # cs) tot num =
     (if is_digit ch \<or> ch = CHR ''.'' then parse_loop a cs tot (num @ [ch])
      else case flush a num tot ch of None \<Rightarrow> None | Some t \<Rightarrow> parse_loop a cs t [])"

definition Parse :: "arch \<Rightarrow> string \<Rightarrow> duration" where
  "Parse a str =
     (let s = TrimSpace str in
      if s = [] then 0
      else case parse_loop a s 0 [] of None \<Rightarrow> 0
        | Some (tot, num) \<Rightarrow>
            (if num = [] then tot
             else case ParseFloat_dec num of None \<Rightarrow> 0
               | Some n \<Rightarrow> wrap64 (tot + to_i64 a (fmul n (Fin 1000000000)))))"


subsection \<open>Reading back what was written\<close>

definition write_dur :: "(nat \<times> char) list \<Rightarrow> string" where
  "write_dur ps = concat (map (\<lambda>(n, u). dec n @ [u]) ps)"

definition dur_sum :: "(nat \<times> char) list \<Rightarrow> duration" where
  "dur_sum ps = sum_list (map (\<lambda>(n, u). int n * the (unit_len u)) ps)"

lemma rnd_nanos: "0 \<le> n \<Longrightarrow> n * (512 * u) \<le> 2 ^ 62 \<Longrightarrow> 0 \<le> u \<Longrightarrow> rnd (of_int n * of_int (512 * u)) = Fin (of_int (n * (512 * u)))"
proof -
  assume a: "0 \<le> n" "n * (512 * u) \<le> 2 ^ 62" "0 \<le> u"
  then have "0 \<le> n * u" "n * u \<le> 2 ^ 53" by simp_all
  then have "frep (of_int (n * u) * p2 9)" by (intro frep_scaled) auto
  then have "rnd (of_int (n * u) * p2 9) = Fin (of_int (n * u) * p2 9)" by (rule rnd_rep)
  then show ?thesis by (simp add: p2_def mult_ac)
qed

lemma unit_nanos_exact:
  assumes "unit_len u = Some l" "0 \<le> n" "n * l \<le> 2 ^ 62"
  shows "unit_nanos u (Fin (of_int n)) = Some (Fin (of_int (n * l)))"
proof -
  have n: "n \<le> 2 ^ 33" using assms by (auto simp: unit_len_def split: if_splits)
  have i: "rnd (of_int m) = Fin (of_int m)" if "0 \<le> m" "m \<le> 2 ^ 50" for m using that by (intro rnd_of_int) simp
  have s: "n * second \<le> 2 ^ 62 \<Longrightarrow> fmul (Fin (of_int n)) (Fin 1000000000) = Fin (of_int (n * second))"
    using rnd_nanos [of n 1953125] assms(2) by simp
  have m: "n * minute \<le> 2 ^ 62 \<Longrightarrow> fmul (Fin (of_int n)) (Fin 60000000000) = Fin (of_int (n * minute))"
    using rnd_nanos [of n 117187500] assms(2) by simp
  have h: "k * hour \<le> 2 ^ 62 \<Longrightarrow> 0 \<le> k \<Longrightarrow> fmul (Fin (of_int k)) (Fin 3600000000000) = Fin (of_int (k * hour))" for k
    using rnd_nanos [of k 7031250000] by simp
  consider (y) "u = CHR ''y''" "l = 365 * day24" | (w) "u = CHR ''w''" "l = 7 * day24" | (d) "u = CHR ''d''" "l = day24"
    | (h) "u = CHR ''h''" "l = hour" | (m) "u = CHR ''m''" "l = minute" | (s) "u = CHR ''s''" "l = second"
    using assms(1) by (auto simp: unit_len_def split: if_splits)
  then show ?thesis
  proof cases
    case y
    then show ?thesis using assms(2,3) n i [of "n * 365"] i [of "n * 365 * 24"] h [of "n * 365 * 24"]
      by (simp add: unit_nanos_def unit_hours_def)
  next
    case w
    then show ?thesis using assms(2,3) n i [of "n * 7"] i [of "n * 7 * 24"] h [of "n * 7 * 24"]
      by (simp add: unit_nanos_def unit_hours_def)
  next
    case d
    then show ?thesis using assms(2,3) n i [of "n * 24"] h [of "n * 24"]
      by (simp add: unit_nanos_def unit_hours_def)
  next
    case h
    then show ?thesis using assms(2,3) \<open>\<And>k. k * hour \<le> 2 ^ 62 \<Longrightarrow> 0 \<le> k \<Longrightarrow> fmul (Fin (of_int k)) (Fin 3600000000000) = Fin (of_int (k * hour))\<close> [of n]
      by (simp add: unit_nanos_def unit_hours_def)
  next
    case m
    then show ?thesis using assms(2,3) \<open>n * minute \<le> 2 ^ 62 \<Longrightarrow> fmul (Fin (of_int n)) (Fin 60000000000) = Fin (of_int (n * minute))\<close>
      by (simp add: unit_nanos_def)
  next
    case s
    then show ?thesis using assms(2,3) \<open>n * second \<le> 2 ^ 62 \<Longrightarrow> fmul (Fin (of_int n)) (Fin 1000000000) = Fin (of_int (n * second))\<close>
      by (simp add: unit_nanos_def)
  qed
qed

lemma parse_digits: "list_all is_digit ds \<Longrightarrow> parse_loop a (ds @ cs) t num = parse_loop a cs t (num @ ds)"
  by (induction ds arbitrary: num) auto

lemma flush_exact:
  assumes "unit_len u = Some l" "int n * l \<le> 2 ^ 62" "0 \<le> t" "t + int n * l \<le> 2 ^ 62"
  shows "flush a (dec n) t u = Some (t + int n * l)"
proof -
  have l: "1 \<le> l" using assms(1) by (auto simp: unit_len_def split: if_splits)
  have n: "int n \<le> 2 ^ 53" using assms(1,2) by (auto simp: unit_len_def split: if_splits)
  have r: "rnd (of_nat n) = Fin (of_int (int n))" using rnd_of_int [of "int n"] n by simp
  then have P: "ParseFloat_dec (dec n) = Some (Fin (of_int (int n)))"
    by (simp add: ParseFloat_digits dec_spec)
  have nn: "0 \<le> int n * l" using l by simp
  then have "to_i64 a (Fin (of_int (int n * l))) = int n * l"
    using assms(2) by (intro to_i64_of_int) (simp add: i64_def)
  moreover have "i64 (t + int n * l)" using nn assms(3,4) by (simp add: i64_def)
  moreover have "unit_nanos u (Fin (of_int (int n))) = Some (Fin (of_int (int n * l)))"
    using assms by (intro unit_nanos_exact) auto
  ultimately show ?thesis using dec_spec(1) [of n] by (simp only: flush_def P) simp
qed

lemma parse_written:
  assumes "\<forall>(n, u) \<in> set ps. unit_len u \<noteq> None" "0 \<le> t" "t + dur_sum ps \<le> 2 ^ 62"
  shows "parse_loop a (write_dur ps) t [] = Some (t + dur_sum ps, [])"
  using assms
proof (induction ps arbitrary: t)
  case Nil
  then show ?case by (simp add: write_dur_def dur_sum_def)
next
  case (Cons p ps)
  obtain n u where p: "p = (n, u)" by (cases p)
  obtain l where l: "unit_len u = Some l" using Cons.prems p by auto
  have nn: "0 \<le> int n' * the (unit_len u')" if "(n', u') \<in> set ps" for n' u'
    using Cons.prems(1) that by (auto simp: unit_len_def split: if_splits)
  have s: "0 \<le> dur_sum ps" unfolding dur_sum_def by (intro sum_list_nonneg) (use nn in auto)
  have l0: "0 \<le> int n * l" using l by (auto simp: unit_len_def split: if_splits)
  have sum: "dur_sum (p # ps) = int n * l + dur_sum ps" by (simp add: dur_sum_def p l)
  have u: "\<not> is_digit u \<and> u \<noteq> CHR ''.''" using l by (auto simp: unit_len_def is_digit_def less_eq_char_def split: if_splits)
  have "flush a (dec n) t u = Some (t + int n * l)"
    using l l0 s Cons.prems sum by (intro flush_exact) auto
  moreover have "write_dur (p # ps) = dec n @ u # write_dur ps" by (simp add: write_dur_def p)
  moreover have "parse_loop a (write_dur ps) (t + int n * l) [] = Some (t + int n * l + dur_sum ps, [])"
    using Cons.prems l0 sum by (intro Cons.IH) auto
  ultimately show ?case using u by (simp add: parse_digits dec_spec sum add.assoc)
qed

lemma write_dur_trim:
  assumes "\<forall>(n, u) \<in> set ps. unit_len u \<noteq> None"
  shows "TrimSpace (write_dur ps) = write_dur ps"
proof (rule TrimSpace_id)
  have d: "\<not> is_space c" if "is_digit c" for c using that by (auto simp: is_digit_def is_space_def less_eq_char_def)
  have h: "\<not> is_space (hd (dec n))" for n using d dec_spec [of n] by (cases "dec n") auto
  have u: "\<not> is_space u" if "unit_len u \<noteq> None" for u using that by (auto simp: unit_len_def is_space_def split: if_splits)
  show "write_dur ps = [] \<or> \<not> is_space (hd (write_dur ps)) \<and> \<not> is_space (last (write_dur ps))"
  proof (cases "ps = []")
    case False
    have "\<not> is_space (hd (write_dur ps))" using False h dec_spec(1) by (cases ps) (auto simp: write_dur_def hd_append)
    moreover have "\<not> is_space (last (write_dur ps))" using False u assms
      by (cases ps rule: rev_cases) (auto simp: write_dur_def)
    ultimately show ?thesis by blast
  qed (simp add: write_dur_def)
qed

lemma Parse_written:
  assumes "\<forall>(n, u) \<in> set ps. unit_len u \<noteq> None" "dur_sum ps \<le> 2 ^ 62"
  shows "Parse a (write_dur ps) = dur_sum ps"
proof (cases "write_dur ps = []")
  case True
  then have "ps = []" by (cases ps) (auto simp: write_dur_def)
  then show ?thesis by (simp add: Parse_def write_dur_def TrimSpace_def dur_sum_def)
next
  case False
  then show ?thesis using parse_written [of ps 0 a] assms by (simp add: Parse_def write_dur_trim)
qed

lemma Parse_days: "0 \<le> n \<Longrightarrow> n * day24 \<le> 2 ^ 62 \<Longrightarrow> Parse a (dec_int n @ ''d'') = n * day24"
  using Parse_written [of "[(nat n, CHR ''d'')]" a] by (simp add: write_dur_def dur_sum_def unit_len_def dec_int_def)

text \<open>
  Claim C7. Durations are read back as they are written: a sequence of whole numbers with the units y, w, d, h, m, s
  parses to the exact sum of its parts, as long as the sum stays below 146 years.
\<close>

theorem Parse_roundtrip:
  assumes "\<forall>(n, u) \<in> set ps. unit_len u \<noteq> None" "dur_sum ps \<le> 2 ^ 62"
  shows "Parse a (write_dur ps) = dur_sum ps"
  using assms by (rule Parse_written)

theorem Parse_roundtrip_witness: "Parse AMD64 (write_dur [(14, CHR ''d''), (6, CHR ''h'')]) = 14 * day24 + 6 * hour"
  using Parse_roundtrip [of "[(14, CHR ''d''), (6, CHR ''h'')]" AMD64] by (simp add: unit_len_def dur_sum_def)

end
