(* ===== verification/Files.thy ===== *)
theory Files
  imports GoStrings
begin

text \<open>
  How a directory (or single file) of YAML definitions is read. The file system and the YAML decoder are
  parameters: what \<^verbatim>\<open>os.Stat\<close>, \<^verbatim>\<open>os.ReadDir\<close> and \<^verbatim>\<open>os.ReadFile\<close> answer, and what the decoder makes of the bytes.
\<close>

datatype stat = NotExist | StatErr string | IsDir | IsFile

record filesys =
  Stat :: "string \<Rightarrow> stat"
  ReadDir :: "string \<Rightarrow> string list res"
  ReadFile :: "string \<Rightarrow> string res"

text \<open>\<^verbatim>\<open>filepath.Ext\<close>: from the last point of the last path element on.\<close>

definition Ext :: "string \<Rightarrow> string" where
  "Ext p = (let r = rev p; e = takeWhile (\<lambda>c. c \<noteq> CHR ''.'' \<and> c \<noteq> CHR ''/'') r in
     if length e < length r \<and> r ! length e = CHR ''.'' then CHR ''.'' # rev e else [])"

text \<open>\<^verbatim>\<open>filepath.Join\<close> of a cleaned directory path and an entry name.\<close>

definition Join :: "string \<Rightarrow> string \<Rightarrow> string" where
  "Join d n = d @ ''/'' @ n"

definition is_yaml :: "string \<Rightarrow> bool" where
  "is_yaml n \<longleftrightarrow> Ext n = ''.yaml'' \<or> Ext n = ''.yml''"

text \<open>\<^verbatim>\<open>None\<close>: the path does not exist, which is not an error.\<close>

definition def_paths :: "filesys \<Rightarrow> string \<Rightarrow> string list option res" where
  "def_paths fs path =
     (case Stat fs path of
        NotExist \<Rightarrow> Inr None
      | StatErr e \<Rightarrow> Inl (Err e)
      | IsDir \<Rightarrow> res_bind (ReadDir fs path) (\<lambda>es. Inr (Some (map (Join path) (filter is_yaml es))))
      | IsFile \<Rightarrow> Inr (Some [path]))"

text \<open>Reading all files in order; the first error wins.\<close>

definition load_defs :: "filesys \<Rightarrow> (string \<Rightarrow> 'a list res) \<Rightarrow> ('a \<Rightarrow> 'b res) \<Rightarrow> string \<Rightarrow> 'b list res" where
  "load_defs fs unmarshal check path =
     res_bind (def_paths fs path) (\<lambda>ps. case ps of None \<Rightarrow> Inr []
       | Some ps \<Rightarrow> res_bind (res_all (\<lambda>p. res_bind (ReadFile fs p) (\<lambda>b. res_bind (unmarshal b) (res_all check))) ps)
                     (\<lambda>xss. Inr (concat xss)))"

lemma load_defs_checked:
  assumes "load_defs fs unmarshal check path = Inr out"
  shows "list_all (\<lambda>y. \<exists>x. check x = Inr y) out"
  using assms
  by (fastforce simp: load_defs_def res_bind_Inr res_all_Inr list_all_iff list_all2_conv_all_nth in_set_conv_nth
      split: option.splits)

lemma is_yaml_examples: "is_yaml ''slo.yaml''" "is_yaml ''a.b.yml''" "\<not> is_yaml ''README.md''" "\<not> is_yaml ''yaml''"
  by (simp_all add: is_yaml_def Ext_def Let_def)

end
