(* ===== verification/Catalog.thy ===== *)
theory Catalog
  imports Promdur Files Query Alert
begin

text \<open>
  \<^verbatim>\<open>internal/catalog\<close>: rules and their classification (\<^verbatim>\<open>types.go\<close>, \<^verbatim>\<open>loader.go\<close>), loading with the quarantine
  of broken files, and the automatic classification of community rules (\<^verbatim>\<open>autoclassify.go\<close>) on the YAML tree. The
  file walk, \<^verbatim>\<open>promtool\<close> and the YAML decoder are parameters; the regular expressions are written out as matchers.
\<close>

subsection \<open>Rules\<close>

datatype kind = KindBudget | KindCapacity | KindWaste | KindNone

record rule =
  Record :: string
  RAlert :: string
  Expr :: string
  For :: duration
  ForSet :: bool
  Labels :: "string \<rightharpoonup> string"
  Annotations :: "string \<rightharpoonup> string"
  Kind :: kind
  SourceFile :: string

record group =
  GName :: string
  GRules :: "rule list"

record catalog =
  Groups :: "group list"
  Version :: string
  LoadedAt :: time

definition ID :: "rule \<Rightarrow> string" where
  "ID r = (if map_get (Labels r) ''sentinel_sensor'' \<noteq> [] then map_get (Labels r) ''sentinel_sensor''
     else if map_get (Annotations r) ''sentinel_sensor'' \<noteq> [] then map_get (Annotations r) ''sentinel_sensor''
     else if Record r \<noteq> [] then Record r else RAlert r)"

definition NotifyEvery :: "arch \<Rightarrow> rule \<Rightarrow> duration" where
  "NotifyEvery a r = Parse a (map_get (Labels r) ''notify_every'')"

text \<open>\<^verbatim>\<open>strings.Split\<close> at one character.\<close>

fun split_at :: "char \<Rightarrow> string \<Rightarrow> string \<Rightarrow> string list" where
  "split_at c [] cur = [cur]"
| "split_at c (x # xs) cur = (if x = c then cur # split_at c xs [] else split_at c xs (cur @ [x]))"

definition splitComma :: "string \<Rightarrow> string list" where
  "splitComma s = filter (\<lambda>p. p \<noteq> []) (map TrimSpace (split_at (CHR '','') s []))"

definition ExcludeNamespaces :: "rule \<Rightarrow> string list" where
  "ExcludeNamespaces r =
     (let v = map_get (Labels r) ''sentinel_exclude_namespaces'' in if v = [] then [] else splitComma v)"

definition RulesOfKind :: "catalog \<Rightarrow> kind \<Rightarrow> rule list" where
  "RulesOfKind c k = concat (map (\<lambda>g. filter (\<lambda>r. Kind r = k) (GRules g)) (Groups c))"

definition Classify :: "rule \<Rightarrow> kind" where
  "Classify r =
     (let v = TrimSpace (map_get (Labels r) ''sentinel_kind'') in
      if v \<noteq> [] then
        (if v = ''budget'' then KindBudget else if v = ''capacity'' then KindCapacity
         else if v = ''waste'' then KindWaste else KindNone)
      else if \<exists>k \<in> dom (Labels r). HasPrefix k ''sloth'' then KindBudget
      else if HasPrefix (Record r) ''sentinel_'' then KindCapacity
      else if Annotations r ''sentinel_sensor'' \<noteq> None then KindCapacity
      else KindNone)"

subsection \<open>Loading\<close>

record rule_yaml =
  Y_Record :: string
  Y_Alert :: string
  Y_Expr :: string
  Y_For :: string
  Y_Labels :: "string \<rightharpoonup> string"
  Y_Annotations :: "string \<rightharpoonup> string"

type_synonym rules_file = "(string \<times> rule_yaml list) list"

definition to_rule :: "arch \<Rightarrow> string \<Rightarrow> rule_yaml \<Rightarrow> rule" where
  "to_rule a path y =
     (let r = \<lparr>Record = Y_Record y, RAlert = Y_Alert y, Expr = Y_Expr y, For = Parse a (Y_For y), ForSet = (Y_For y \<noteq> []),
        Labels = Y_Labels y, Annotations = Y_Annotations y, Kind = KindNone, SourceFile = path\<rparr>
      in r\<lparr>Kind := Classify r\<rparr>)"

definition parseFile :: "arch \<Rightarrow> (string \<Rightarrow> string res) \<Rightarrow> (string \<Rightarrow> rules_file res) \<Rightarrow> string \<Rightarrow> group list res" where
  "parseFile a read unmarshal path =
     res_bind (read path) (\<lambda>b. res_bind (unmarshal b) (\<lambda>rf.
       Inr (map (\<lambda>(name, ys). \<lparr>GName = name,
              GRules = map (to_rule a path) (filter (\<lambda>y. Y_Record y \<noteq> [] \<or> Y_Alert y \<noteq> []) ys)\<rparr>) rf)))"

text \<open>What the walk meets: an entry that cannot be accessed, a directory, or a file.\<close>

datatype walk_entry = WalkErr string | WalkDirectory string | WalkFile string

definition err_text :: "gerr \<Rightarrow> string" where
  "err_text e = (case e of Panic \<Rightarrow> ''panic'' | Err m \<Rightarrow> m)"

text \<open>The accumulators are the groups and the quarantined files with their reasons.\<close>

fun walk_step :: "(string \<Rightarrow> string) \<Rightarrow> (string \<Rightarrow> group list res) \<Rightarrow> walk_entry \<Rightarrow> group list \<times> (string \<times> string) list
    \<Rightarrow> group list \<times> (string \<times> string) list" where
  "walk_step promtool parse (WalkErr p) acc = acc"
| "walk_step promtool parse (WalkDirectory p) acc = acc"
| "walk_step promtool parse (WalkFile p) (gs, qs) =
     (if \<not> is_yaml p then (gs, qs)
      else let reason = promtool p in
        if reason \<noteq> [] then (gs, qs @ [(p, reason)])
        else case parse p of Inl e \<Rightarrow> (gs, qs @ [(p, err_text e)]) | Inr g \<Rightarrow> (gs @ g, qs))"

text \<open>
  \<^verbatim>\<open>promtool\<close> is absent, or says of a file that it is fine or answers with an error and its output.
\<close>

type_synonym promtool = "(string \<Rightarrow> (string \<times> string) option) option"

definition truncateStr :: "string \<Rightarrow> nat \<Rightarrow> string" where
  "truncateStr s n = (if length s \<le> n then s else take n s @ utf8 [0xE2, 0x80, 0xA6])"

definition validateFile :: "promtool \<Rightarrow> string \<Rightarrow> string" where
  "validateFile pt path =
     (case pt of None \<Rightarrow> []
      | Some check \<Rightarrow> (case check path of None \<Rightarrow> [] | Some (e, out) \<Rightarrow> ''promtool: '' @ e @ '': '' @ truncateStr out 300))"

definition upstreamVersion :: "filesys \<Rightarrow> string \<Rightarrow> string" where
  "upstreamVersion fs dir =
     (case ReadFile fs (Join (Join dir ''community'') ''UPSTREAM_COMMIT'') of Inl _ \<Rightarrow> [] | Inr b \<Rightarrow> TrimSpace b)"

definition Loader_Load :: "arch \<Rightarrow> filesys \<Rightarrow> (string \<Rightarrow> walk_entry list) \<Rightarrow> promtool \<Rightarrow> (string \<Rightarrow> rules_file res)
    \<Rightarrow> string \<Rightarrow> time \<Rightarrow> (catalog \<times> (string \<times> string) list) res" where
  "Loader_Load a fs walk pt unmarshal dir now =
     (case Stat fs dir of
        IsDir \<Rightarrow>
          (let (gs, qs) = foldl (\<lambda>acc e. walk_step (validateFile pt) (parseFile a (ReadFile fs) unmarshal) e acc) ([], []) (walk dir)
           in Inr (\<lparr>Groups = gs, Version = upstreamVersion fs dir, LoadedAt = now\<rparr>, qs))
      | _ \<Rightarrow> Inl (Err dir))"

subsection \<open>Matchers\<close>

definition lower_char :: "char \<Rightarrow> char" where
  "lower_char c = (if char_range (CHR ''A'') (CHR ''Z'') c then char_of (of_char c + 32 :: nat) else c)"

definition lower :: "string \<Rightarrow> string" where
  "lower s = map lower_char s"

definition is_word :: "char \<Rightarrow> bool" where
  "is_word c \<longleftrightarrow> is_digit c \<or> is_letter c \<or> c = CHR ''_''"

text \<open>\<^verbatim>\<open>\b\<close> before position \<open>i\<close>.\<close>

definition boundary :: "string \<Rightarrow> nat \<Rightarrow> bool" where
  "boundary s i \<longleftrightarrow> (0 < i \<and> is_word (s ! (i - 1))) \<noteq> (i < length s \<and> is_word (s ! i))"

definition word_match :: "string list \<Rightarrow> string \<Rightarrow> bool" where
  "word_match ws s \<longleftrightarrow> list_ex (\<lambda>i. list_ex (\<lambda>w. take (length w) (drop i (lower s)) = w \<and> boundary s i \<and> boundary s (i + length w)) ws)
     [0..<Suc (length s)]"

definition wasteAnnoRe :: "string \<Rightarrow> bool" where
  "wasteAnnoRe = word_match [''idle'', ''unused'', ''orphan'', ''zombie'', ''stale'', ''unattached'',
     ''no_requests'', ''no_connections'', ''no_traffic'', ''no requests'', ''no connections'', ''no traffic'',
     ''zero_traffic'', ''zero_requests'', ''zero traffic'', ''zero requests'']"

definition longWindowRe :: "string \<Rightarrow> bool" where
  "longWindowRe s = Contains (lower s) ''_over_time''"

definition dayWindowRe :: "string \<Rightarrow> bool" where
  "dayWindowRe s \<longleftrightarrow> list_ex (\<lambda>i. let n = length (takeWhile is_digit (drop i s)) in
     boundary s i \<and> 0 < n \<and> i + n < length s \<and> s ! (i + n) = CHR ''d'' \<and> boundary s (i + n + 1)) [0..<length s]"

definition wasteMetricRe :: "string \<Rightarrow> bool" where
  "wasteMetricRe = word_match [''idle'', ''orphan'', ''stale'', ''unattached'']"

definition slothRefRe :: "string \<Rightarrow> bool" where
  "slothRefRe s \<longleftrightarrow> Contains (lower s) ''sloth:'' \<or> Contains (lower s) ''sloth_''"

text \<open>Deleting the quoted parts; an unclosed quotation stays.\<close>

function strip_quoted :: "string \<Rightarrow> string" where
  "strip_quoted [] = []"
| "strip_quoted (c # cs) =
     (if c = CHR 0x22 \<and> CHR 0x22 \<in> set cs then strip_quoted (drop (Suc (length (takeWhile (\<lambda>x. x \<noteq> CHR 0x22) cs))) cs)
      else c # strip_quoted cs)"
  by pat_completeness auto
termination by (relation "measure length") auto

definition SuggestKind :: "rule \<Rightarrow> kind" where
  "SuggestKind r =
     (if slothRefRe (Expr r) then KindBudget
      else if \<exists>k \<in> dom (Labels r). HasPrefix k ''sloth_'' then KindBudget
      else if wasteAnnoRe (map_get (Annotations r) ''summary'' @ '' '' @ map_get (Annotations r) ''description'') then KindWaste
      else if longWindowRe (Expr r) \<and> dayWindowRe (Expr r) then KindWaste
      else if wasteMetricRe (strip_quoted (Expr r)) then KindWaste
      else if ForSet r \<and> For r \<ge> 7 * day24 then KindWaste
      else KindNone)"

subsection \<open>Automatic classification of a YAML tree\<close>

datatype ykind = DocumentNode | MappingNode | SequenceNode | ScalarNode | AliasNode

datatype ynode = Node (nkind: ykind) (nval: string) (content: "ynode list")

fun assoc_pairs :: "ynode list \<Rightarrow> (string \<times> ynode) list" where
  "assoc_pairs (k # v # rest) = (nval k, v) # assoc_pairs rest"
| "assoc_pairs _ = []"

definition mapValue :: "ynode \<Rightarrow> string \<Rightarrow> ynode option" where
  "mapValue m key = (if nkind m \<noteq> MappingNode then None
     else map_option snd (find (\<lambda>(k, v). k = key) (assoc_pairs (content m))))"

definition scalarOf :: "ynode \<Rightarrow> string \<Rightarrow> string" where
  "scalarOf m key = (case mapValue m key of None \<Rightarrow> [] | Some n \<Rightarrow> if nkind n \<noteq> ScalarNode then [] else nval n)"

text \<open>Later entries overwrite earlier ones.\<close>

definition str_map :: "ynode option \<Rightarrow> string \<rightharpoonup> string" where
  "str_map n = (case n of Some m \<Rightarrow> if nkind m = MappingNode then map_of (rev (map (\<lambda>(k, v). (k, nval v)) (assoc_pairs (content m)))) else Map.empty
     | None \<Rightarrow> Map.empty)"

definition kind_string :: "kind \<Rightarrow> string" where
  "kind_string k = (case k of KindBudget \<Rightarrow> ''budget'' | KindCapacity \<Rightarrow> ''capacity'' | KindWaste \<Rightarrow> ''waste'' | KindNone \<Rightarrow> [])"

definition scalar :: "string \<Rightarrow> ynode" where
  "scalar v = Node ScalarNode v []"

text \<open>Appending to the value of the first pair with a key (the code mutates that node).\<close>

fun extend_value :: "string \<Rightarrow> ynode list \<Rightarrow> ynode list \<Rightarrow> ynode list" where
  "extend_value key new (k # v # rest) =
     (if nval k = key then k # Node (nkind v) (nval v) (content v @ new) # rest else k # v # extend_value key new rest)"
| "extend_value key new xs = xs"

definition rule_of_node :: "arch \<Rightarrow> ynode \<Rightarrow> rule" where
  "rule_of_node a n =
     \<lparr>Record = [], RAlert = [], Expr = scalarOf n ''expr'', For = Parse a (scalarOf n ''for''), ForSet = (scalarOf n ''for'' \<noteq> []),
      Labels = str_map (mapValue n ''labels''), Annotations = str_map (mapValue n ''annotations''), Kind = KindNone, SourceFile = []\<rparr>"

definition classifyRuleNode :: "arch \<Rightarrow> ynode \<Rightarrow> nat \<times> ynode" where
  "classifyRuleNode a n =
     (let r = rule_of_node a n; k = SuggestKind r; new = [scalar ''sentinel_kind'', scalar (kind_string k)] in
      if Labels r ''sentinel_kind'' \<noteq> None then (0, n)
      else if k = KindNone then (0, n)
      else (1, case mapValue n ''labels'' of
          None \<Rightarrow> Node (nkind n) (nval n) (content n @ [scalar ''labels'', Node MappingNode [] new])
        | Some _ \<Rightarrow> Node (nkind n) (nval n) (extend_value ''labels'' new (content n))))"

definition classify_items :: "arch \<Rightarrow> ynode list \<Rightarrow> nat \<times> ynode list" where
  "classify_items a items =
     (let rs = map (\<lambda>i. if nkind i = MappingNode then classifyRuleNode a i else (0, i)) items
      in (sum_list (map fst rs), map snd rs))"


fun set_value :: "string \<Rightarrow> ynode \<Rightarrow> ynode list \<Rightarrow> ynode list" where
  "set_value key new (k # v # rest) = (if nval k = key then k # new # rest else k # v # set_value key new rest)"
| "set_value key new xs = xs"

definition classify_group :: "arch \<Rightarrow> ynode \<Rightarrow> nat \<times> ynode" where
  "classify_group a g =
     (if nkind g \<noteq> MappingNode then (0, g)
      else case mapValue g ''rules'' of None \<Rightarrow> (0, g)
        | Some rn \<Rightarrow>
            (if nkind rn \<noteq> SequenceNode then (0, g)
             else let (n, items) = classify_items a (content rn)
                  in (n, Node (nkind g) (nval g) (set_value ''rules'' (Node (nkind rn) (nval rn) items) (content g)))))"

definition classify_root :: "arch \<Rightarrow> ynode \<Rightarrow> nat \<times> ynode" where
  "classify_root a rt =
     (case mapValue rt ''groups'' of None \<Rightarrow> (0, rt)
      | Some gs \<Rightarrow>
          (if nkind gs \<noteq> SequenceNode then (0, rt)
           else let rs = map (classify_group a) (content gs)
                in (sum_list (map fst rs),
                    Node (nkind rt) (nval rt) (set_value ''groups'' (Node (nkind gs) (nval gs) (map snd rs)) (content rt)))))"

definition classify_doc :: "arch \<Rightarrow> ynode \<Rightarrow> (nat \<times> ynode) res" where
  "classify_doc a doc =
     (case content doc of [] \<Rightarrow> Inl Panic
      | rt # rest \<Rightarrow>
          (if nkind rt \<noteq> MappingNode then Inl (Err ''root'')
           else let (n, rt') = classify_root a rt in Inr (n, Node (nkind doc) (nval doc) (rt' # rest))))"

text \<open>What is written back, if anything; the encoder and the file system are parameters.\<close>

definition AutoClassifyFile :: "arch \<Rightarrow> (string \<Rightarrow> string res) \<Rightarrow> (string \<Rightarrow> ynode res) \<Rightarrow> (ynode \<Rightarrow> string res) \<Rightarrow> string
    \<Rightarrow> (nat \<times> string option) res" where
  "AutoClassifyFile a read unmarshal marshal path =
     res_bind (read path) (\<lambda>raw. res_bind (unmarshal raw) (\<lambda>doc. res_bind (classify_doc a doc) (\<lambda>(n, doc').
       if n = 0 then Inr (0, None) else res_bind (marshal doc') (\<lambda>out. Inr (n, Some out)))))"

subsection \<open>Classifying twice\<close>

definition paired :: "ynode \<Rightarrow> bool" where
  "paired n \<longleftrightarrow> even (length (content n))"

definition rule_ok :: "ynode \<Rightarrow> bool" where
  "rule_ok n \<longleftrightarrow> paired n \<and> (\<forall>m. mapValue n ''labels'' = Some m \<longrightarrow> nkind m = MappingNode \<and> paired m)"

lemma assoc_pairs_append: "even (length xs) \<Longrightarrow> assoc_pairs (xs @ ys) = assoc_pairs xs @ assoc_pairs ys"
  by (induction xs rule: assoc_pairs.induct) auto

lemma find_app: "find P (xs @ ys) = (case find P xs of None \<Rightarrow> find P ys | Some x \<Rightarrow> Some x)"
  by (induction xs) auto

lemma find_extend: "find (\<lambda>(k, v). k = key) (assoc_pairs (extend_value key new xs))
    = map_option (\<lambda>(k, v). (k, Node (nkind v) (nval v) (content v @ new))) (find (\<lambda>(k, v). k = key) (assoc_pairs xs))"
  by (induction key new xs rule: extend_value.induct) auto

lemma find_set: "find (\<lambda>(k, v). k = key) (assoc_pairs (set_value key new xs))
    = map_option (\<lambda>(k, v). (k, new)) (find (\<lambda>(k, v). k = key) (assoc_pairs xs))"
  by (induction key new xs rule: set_value.induct) auto

lemma set_value_set: "set_value key new (set_value key new' xs) = set_value key new xs"
  by (induction key new' xs rule: set_value.induct) auto

lemma set_value_same: "map_option snd (find (\<lambda>(k, v). k = key) (assoc_pairs xs)) = Some v \<Longrightarrow> set_value key v xs = xs"
  by (induction key v xs rule: set_value.induct) (auto split: if_splits)

lemma str_map_extended:
  "nkind m = MappingNode \<Longrightarrow> paired m \<Longrightarrow>
   str_map (Some (Node (nkind m) (nval m) (content m @ [scalar k, scalar v]))) k = Some v"
  by (simp add: str_map_def paired_def assoc_pairs_append scalar_def)

lemma classifyRuleNode_twice:
  assumes "rule_ok n" "nkind n = MappingNode" "classifyRuleNode a n = (k, n')"
  shows "classifyRuleNode a n' = (0, n') \<and> nkind n' = MappingNode"
proof (cases "k = 0")
  case True
  then show ?thesis using assms by (auto simp: classifyRuleNode_def Let_def split: if_splits)
next
  case False
  let ?new = "[scalar ''sentinel_kind'', scalar (kind_string (SuggestKind (rule_of_node a n)))]"
  have n': "n' = (case mapValue n ''labels'' of
          None \<Rightarrow> Node (nkind n) (nval n) (content n @ [scalar ''labels'', Node MappingNode [] ?new])
        | Some _ \<Rightarrow> Node (nkind n) (nval n) (extend_value ''labels'' ?new (content n)))"
    using assms(3) False by (auto simp: classifyRuleNode_def Let_def split: if_splits)
  have "str_map (mapValue n' ''labels'') ''sentinel_kind'' \<noteq> None"
  proof (cases "mapValue n ''labels''")
    case None
    then have "find (\<lambda>(k, v). k = ''labels'') (assoc_pairs (content n)) = None" using assms(2) by (simp add: mapValue_def)
    then have "mapValue n' ''labels'' = Some (Node MappingNode [] ?new)"
      using assms(1,2) None unfolding n'
      by (simp add: mapValue_def rule_ok_def paired_def assoc_pairs_append find_app scalar_def)
    then show ?thesis by (simp add: str_map_def scalar_def)
  next
    case (Some m)
    then have "mapValue n' ''labels'' = Some (Node (nkind m) (nval m) (content m @ ?new))"
      using assms(2) unfolding n' by (auto simp: mapValue_def find_extend)
    then show ?thesis using assms(1) Some str_map_extended [of m] by (simp add: rule_ok_def)
  qed
  moreover have "nkind n' = MappingNode" using assms(2) unfolding n' by (auto split: option.splits)
  ultimately show ?thesis by (simp add: classifyRuleNode_def rule_of_node_def)
qed

definition rules_ok :: "ynode list \<Rightarrow> bool" where
  "rules_ok items \<longleftrightarrow> (\<forall>i \<in> set items. nkind i = MappingNode \<longrightarrow> rule_ok i)"

lemma classify_items_twice:
  "rules_ok items \<Longrightarrow> classify_items a items = (k, items') \<Longrightarrow> classify_items a items' = (0, items')"
proof (induction items arbitrary: k items')
  case (Cons i items)
  obtain k1 i' where i: "(if nkind i = MappingNode then classifyRuleNode a i else (0, i)) = (k1, i')" by (metis surj_pair)
  obtain k2 is' where t: "classify_items a items = (k2, is')" by (metis surj_pair)
  have "classify_items a is' = (0, is')" using Cons.IH [OF _ t] Cons.prems(1) by (simp add: rules_ok_def)
  moreover have "(if nkind i' = MappingNode then classifyRuleNode a i' else (0, i')) = (0, i')"
    using i Cons.prems(1) classifyRuleNode_twice [of i a k1 i'] by (auto simp: rules_ok_def split: if_splits)
  moreover have "items' = i' # is'" using Cons.prems(2) i t by (auto simp: classify_items_def Let_def)
  ultimately show ?case by (simp add: classify_items_def Let_def)
qed (simp add: classify_items_def)

definition group_ok :: "ynode \<Rightarrow> bool" where
  "group_ok g \<longleftrightarrow> (\<forall>rn. mapValue g ''rules'' = Some rn \<longrightarrow> rules_ok (content rn))"

lemma classify_group_twice: "group_ok g \<Longrightarrow> classify_group a g = (k, g') \<Longrightarrow> classify_group a g' = (0, g')"
proof (cases "\<exists>rn. nkind g = MappingNode \<and> mapValue g ''rules'' = Some rn \<and> nkind rn = SequenceNode")
  case False
  assume "group_ok g" "classify_group a g = (k, g')"
  then have "g' = g" "classify_group a g = (0, g)" using False by (auto simp: classify_group_def split: if_splits option.splits)
  then show ?thesis by simp
next
  case True
  then obtain rn where rn: "nkind g = MappingNode" "mapValue g ''rules'' = Some rn" "nkind rn = SequenceNode" by blast
  assume a: "group_ok g" "classify_group a g = (k, g')"
  obtain m items where t: "classify_items a (content rn) = (m, items)" by (metis surj_pair)
  let ?rn = "Node (nkind rn) (nval rn) items"
  have g': "g' = Node (nkind g) (nval g) (set_value ''rules'' ?rn (content g))" using a(2) rn t by (simp add: classify_group_def)
  have mv: "mapValue g' ''rules'' = Some ?rn" using rn by (auto simp: g' mapValue_def find_set)
  have "classify_items a items = (0, items)" using classify_items_twice [OF _ t] a(1) rn by (simp add: group_ok_def)
  then show ?thesis using mv rn by (simp add: classify_group_def g' set_value_set)
qed

definition doc_ok :: "ynode \<Rightarrow> bool" where
  "doc_ok doc \<longleftrightarrow> (\<forall>rt gs. content doc \<noteq> [] \<and> hd (content doc) = rt \<and> mapValue rt ''groups'' = Some gs \<longrightarrow> list_all group_ok (content gs))"

lemma classify_groups_twice:
  "list_all group_ok gs \<Longrightarrow> rs = map (classify_group a) gs \<Longrightarrow> map (classify_group a) (map snd rs) = map (\<lambda>g. (0, g)) (map snd rs)"
  using classify_group_twice by (auto simp: list_all_iff) (metis prod.collapse)

lemma classify_root_twice:
  assumes "\<And>gs. mapValue rt ''groups'' = Some gs \<Longrightarrow> list_all group_ok (content gs)" "classify_root a rt = (k, rt')"
  shows "classify_root a rt' = (0, rt') \<and> nkind rt' = nkind rt"
proof (cases "\<exists>gs. mapValue rt ''groups'' = Some gs \<and> nkind gs = SequenceNode")
  case False
  then have "rt' = rt" "classify_root a rt = (0, rt)" using assms(2) by (auto simp: classify_root_def split: if_splits option.splits)
  then show ?thesis by simp
next
  case True
  then obtain gs where gs: "mapValue rt ''groups'' = Some gs" "nkind gs = SequenceNode" by blast
  let ?rs = "map (classify_group a) (content gs)"
  let ?gs = "Node (nkind gs) (nval gs) (map snd ?rs)"
  have r': "rt' = Node (nkind rt) (nval rt) (set_value ''groups'' ?gs (content rt))"
    using assms(2) gs by (simp add: classify_root_def)
  have mv: "mapValue rt' ''groups'' = Some ?gs" using gs by (auto simp: r' mapValue_def find_set split: if_splits)
  have "map (classify_group a) (content ?gs) = map (\<lambda>g. (0, g)) (content ?gs)"
    using classify_groups_twice [OF assms(1) [OF gs(1)] refl] by simp
  then show ?thesis using mv gs by (simp add: classify_root_def r' set_value_set o_def cong: map_cong)
qed

text \<open>
  Claim C15. Automatic classification is idempotent: on a rules file whose label blocks are proper mappings, classifying the classified tree again adds
  nothing and changes nothing, so the synchronisation script can be run any number of times.
\<close>

theorem classify_doc_idempotent:
  assumes "doc_ok doc" "classify_doc a doc = Inr (n, doc')"
  shows "classify_doc a doc' = Inr (0, doc')"
proof -
  obtain rt rest where c: "content doc = rt # rest" "nkind rt = MappingNode"
    using assms(2) by (auto simp: classify_doc_def split: list.splits if_splits)
  obtain k rt' where r: "classify_root a rt = (k, rt')" by (metis surj_pair)
  have d': "doc' = Node (nkind doc) (nval doc) (rt' # rest)" using assms(2) c r by (simp add: classify_doc_def)
  have "classify_root a rt' = (0, rt') \<and> nkind rt' = nkind rt"
    using assms(1) c by (intro classify_root_twice [OF _ r]) (simp add: doc_ok_def)
  then show ?thesis using c by (simp add: classify_doc_def d')
qed

definition doc0 :: ynode where
  "doc0 = Node DocumentNode [] [Node MappingNode [] [scalar ''groups'', Node SequenceNode [] [Node MappingNode []
     [scalar ''rules'', Node SequenceNode [] [Node MappingNode [] [scalar ''alert'', scalar ''A'', scalar ''expr'', scalar ''sloth:x'']]]]]]"

theorem classify_doc_idempotent_witness:
  "\<exists>d. classify_doc AMD64 doc0 = Inr (1, d) \<and> classify_doc AMD64 d = Inr (0, d)"
proof -
  have "SuggestKind (rule_of_node AMD64 (Node MappingNode [] [scalar ''alert'', scalar ''A'', scalar ''expr'', scalar ''sloth:x''])) = KindBudget"
    by (simp add: SuggestKind_def rule_of_node_def slothRefRe_def scalarOf_def mapValue_def scalar_def lower_def lower_char_def char_range_def less_eq_char_def)
  then obtain d where d: "classify_doc AMD64 doc0 = Inr (1, d)"
    by (simp add: classify_doc_def doc0_def classify_root_def mapValue_def scalar_def classify_group_def classify_items_def
        classifyRuleNode_def rule_of_node_def str_map_def Let_def)
  have "doc_ok doc0" by (simp add: doc_ok_def doc0_def mapValue_def group_ok_def rules_ok_def rule_ok_def paired_def scalar_def)
  from classify_doc_idempotent [OF this d] d show ?thesis by blast
qed

text \<open>An empty rules file has no rt node: indexing it panics before the nil check.\<close>

lemma empty_file_panics: "classify_doc a (Node k v []) = Inl Panic"
  by (simp add: classify_doc_def)

subsection \<open>Quarantine\<close>

text \<open>What one entry of the walk contributes: groups, or a quarantined file with its reason.\<close>

definition entry_groups :: "(string \<Rightarrow> string) \<Rightarrow> (string \<Rightarrow> group list res) \<Rightarrow> walk_entry \<Rightarrow> group list" where
  "entry_groups promtool parse e =
     (case e of WalkFile p \<Rightarrow> if is_yaml p \<and> promtool p = [] then (case parse p of Inl _ \<Rightarrow> [] | Inr g \<Rightarrow> g) else [] | _ \<Rightarrow> [])"

definition broken :: "(string \<Rightarrow> string) \<Rightarrow> (string \<Rightarrow> group list res) \<Rightarrow> walk_entry \<Rightarrow> bool" where
  "broken promtool parse e = (case e of WalkFile p \<Rightarrow> is_yaml p \<and> (promtool p \<noteq> [] \<or> isl (parse p)) | _ \<Rightarrow> False)"

definition entry_path :: "walk_entry \<Rightarrow> string" where
  "entry_path e = (case e of WalkErr p \<Rightarrow> p | WalkDirectory p \<Rightarrow> p | WalkFile p \<Rightarrow> p)"

lemma walk_fold:
  "foldl (\<lambda>acc e. walk_step promtool parse e acc) (gs, qs) es =
     (gs @ concat (map (entry_groups promtool parse) es),
      snd (foldl (\<lambda>acc e. walk_step promtool parse e acc) (gs, qs) es))"
proof (induction es arbitrary: gs qs)
  case (Cons e es)
  obtain gs' qs' where s: "walk_step promtool parse e (gs, qs) = (gs', qs')" by (metis surj_pair)
  have "gs' = gs @ entry_groups promtool parse e"
    using s by (cases e) (auto simp: entry_groups_def Let_def split: if_splits sum.splits)
  then show ?case using Cons.IH [of gs' qs'] by (simp add: s prod_eq_iff)
qed simp

lemma walk_quarantine:
  "map fst (snd (foldl (\<lambda>acc e. walk_step promtool parse e acc) (gs, qs) es)) =
     map fst qs @ map entry_path (filter (broken promtool parse) es)"
proof (induction es arbitrary: gs qs)
  case (Cons e es)
  obtain gs' qs' where s: "walk_step promtool parse e (gs, qs) = (gs', qs')" by (metis surj_pair)
  have "map fst qs' = map fst qs @ (if broken promtool parse e then [entry_path e] else [])"
    using s by (cases e) (auto simp: broken_def entry_path_def Let_def split: if_splits sum.splits)
  then show ?case using Cons.IH [of gs' qs'] by (simp add: s)
qed simp

lemma broken_no_groups: "broken promtool parse e \<Longrightarrow> entry_groups promtool parse e = []"
  by (cases e) (auto simp: broken_def entry_groups_def split: sum.splits)

lemma groups_without_broken:
  "concat (map (entry_groups promtool parse) (filter (\<lambda>e. \<not> broken promtool parse e) es)) =
   concat (map (entry_groups promtool parse) es)"
  by (induction es) (auto simp: broken_no_groups)

lemma Loader_Load_eq:
  "Stat fs dir = IsDir \<Longrightarrow>
   \<exists>v. Loader_Load a fs walk pt unmarshal dir now =
     Inr (\<lparr>Groups = concat (map (entry_groups (validateFile pt) (parseFile a (ReadFile fs) unmarshal)) (walk dir)), Version = v, LoadedAt = now\<rparr>,
          snd (foldl (\<lambda>acc e. walk_step (validateFile pt) (parseFile a (ReadFile fs) unmarshal) e acc) ([], []) (walk dir)))"
  by (subst Loader_Load_def, subst walk_fold) auto

text \<open>
  Claim C12. A broken rules file is quarantined alone: loading a directory succeeds whatever its files hold, the groups are those of the same
  directory with every broken file removed, and exactly the broken files (those \<^verbatim>\<open>promtool\<close> or the YAML decoder rejects) are listed
  as quarantined, once each and in the order of the walk.
\<close>

theorem Load_isolates:
  assumes "Stat fs dir = IsDir"
  shows "\<exists>c qs c'. Loader_Load a fs walk pt unmarshal dir now = Inr (c, qs) \<and>
      map fst qs = map entry_path (filter (broken (validateFile pt) (parseFile a (ReadFile fs) unmarshal)) (walk dir)) \<and>
      Loader_Load a fs (\<lambda>d. filter (\<lambda>e. \<not> broken (validateFile pt) (parseFile a (ReadFile fs) unmarshal) e) (walk d)) pt unmarshal dir now = Inr (c', []) \<and>
      Groups c' = Groups c"
proof -
  let ?p = "parseFile a (ReadFile fs) unmarshal"
  let ?w = "\<lambda>d. filter (\<lambda>e. \<not> broken (validateFile pt) ?p e) (walk d)"
  obtain v where v: "Loader_Load a fs walk pt unmarshal dir now =
     Inr (\<lparr>Groups = concat (map (entry_groups (validateFile pt) ?p) (walk dir)), Version = v, LoadedAt = now\<rparr>,
          snd (foldl (\<lambda>acc e. walk_step (validateFile pt) ?p e acc) ([], []) (walk dir)))"
    using Loader_Load_eq [OF assms] by blast
  obtain v' where v': "Loader_Load a fs ?w pt unmarshal dir now =
     Inr (\<lparr>Groups = concat (map (entry_groups (validateFile pt) ?p) (?w dir)), Version = v', LoadedAt = now\<rparr>,
          snd (foldl (\<lambda>acc e. walk_step (validateFile pt) ?p e acc) ([], []) (?w dir)))"
    using Loader_Load_eq [OF assms] by blast
  have q: "snd (foldl (\<lambda>acc e. walk_step (validateFile pt) ?p e acc) ([], []) (?w dir)) = []"
    using walk_quarantine [of "validateFile pt" ?p "[]" "[]" "?w dir"] by (simp add: filter_empty_conv)
  show ?thesis
    using v v' q walk_quarantine [of "validateFile pt" ?p "[]" "[]" "walk dir"] by (simp add: groups_without_broken)
qed

definition rules_fs :: filesys where
  "rules_fs = \<lparr>Stat = \<lambda>_. IsDir, ReadDir = \<lambda>_. Inr [], ReadFile = \<lambda>p. if p = ''r/bad.yml'' then Inl (Err ''io'') else Inr []\<rparr>"

theorem Load_isolates_witness:
  "\<exists>c qs. Loader_Load AMD64 rules_fs (\<lambda>_. [WalkDirectory ''r'', WalkFile ''r/bad.yml'', WalkFile ''r/ok.yml'']) None (\<lambda>_. Inr [(''g'', [])]) ''r'' 0
     = Inr (c, qs) \<and> map fst qs = [''r/bad.yml''] \<and> length (Groups c) = 1"
proof -
  let ?walk = "\<lambda>_. [WalkDirectory ''r'', WalkFile ''r/bad.yml'', WalkFile ''r/ok.yml'']"
  obtain c qs c' where l: "Loader_Load AMD64 rules_fs ?walk None (\<lambda>_. Inr [(''g'', [])]) ''r'' 0 = Inr (c, qs)"
    "map fst qs = map entry_path (filter (broken (validateFile None) (parseFile AMD64 (ReadFile rules_fs) (\<lambda>_. Inr [(''g'', [])]))) (?walk ''r''))"
    using Load_isolates [of rules_fs "''r''" AMD64 ?walk None "\<lambda>_. Inr [(''g'', [])]" 0] by (auto simp: rules_fs_def)
  have p: "parseFile AMD64 (ReadFile rules_fs) (\<lambda>_. Inr [(''g'', [])]) f = (if f = ''r/bad.yml'' then Inl (Err ''io'') else Inr [\<lparr>GName = ''g'', GRules = []\<rparr>])" for f
    by (simp add: parseFile_def rules_fs_def)
  have "map fst qs = [''r/bad.yml'']"
    using l(2) by (simp add: broken_def p validateFile_def is_yaml_def Ext_def Let_def entry_path_def)
  moreover have "Stat rules_fs ''r'' = IsDir" by (simp add: rules_fs_def)
  from Loader_Load_eq [OF this, of AMD64 ?walk None "\<lambda>_. Inr [(''g'', [])]" 0] l(1)
  have "Groups c = concat (map (entry_groups (validateFile None) (parseFile AMD64 (ReadFile rules_fs) (\<lambda>_. Inr [(''g'', [])]))) (?walk ''r''))" by auto
  then have "length (Groups c) = 1" by (simp add: entry_groups_def p validateFile_def is_yaml_def Ext_def Let_def)
  ultimately show ?thesis using l(1) by (intro exI [of _ c] exI [of _ qs]) simp
qed

text \<open>Every rule that reaches the engines carries the kind the conventions give it.\<close>

lemma Classify_cong: "Labels r = Labels s \<Longrightarrow> Record r = Record s \<Longrightarrow> Annotations r = Annotations s \<Longrightarrow> Classify r = Classify s"
  unfolding Classify_def by (simp only:)

lemma Kind_to_rule: "Kind (to_rule a p y) = Classify (to_rule a p y)"
  by (simp add: to_rule_def Let_def) (rule Classify_cong, simp_all)

lemma to_rule_fields [simp]: "Record (to_rule a p y) = Y_Record y" "RAlert (to_rule a p y) = Y_Alert y"
  by (simp_all add: to_rule_def Let_def)

lemma parseFile_kinds:
  "parseFile a read unmarshal p = Inr gs \<Longrightarrow> list_all (\<lambda>g. list_all (\<lambda>r. Kind r = Classify r \<and> (Record r \<noteq> [] \<or> RAlert r \<noteq> [])) (GRules g)) gs"
  by (clarsimp simp: parseFile_def res_bind_Inr list_all_iff) (auto simp: Kind_to_rule)

lemma RulesOfKind_iff: "r \<in> set (RulesOfKind c k) \<longleftrightarrow> (\<exists>g \<in> set (Groups c). r \<in> set (GRules g) \<and> Kind r = k)"
  by (auto simp: RulesOfKind_def)

subsection \<open>Classifying a directory\<close>

text \<open>
  The walk stops at the first file that fails; what was written before stays written. The results are the counts, the
  files written back (path and text) and the outcome.
\<close>

fun AutoClassifyDir :: "arch \<Rightarrow> (string \<Rightarrow> string res) \<Rightarrow> (string \<Rightarrow> ynode res) \<Rightarrow> (ynode \<Rightarrow> string res) \<Rightarrow> walk_entry list
    \<Rightarrow> (int \<times> int \<times> (string \<times> string) list) \<Rightarrow> (int \<times> int \<times> (string \<times> string) list) \<times> unit res" where
  "AutoClassifyDir a read unmarshal marshal [] acc = (acc, Inr ())"
| "AutoClassifyDir a read unmarshal marshal (WalkFile p # es) (files, rules, ws) =
     (if \<not> is_yaml p then AutoClassifyDir a read unmarshal marshal es (files, rules, ws)
      else case AutoClassifyFile a read unmarshal marshal p of
          Inl e \<Rightarrow> ((files + 1, rules, ws), Inl e)
        | Inr (n, w) \<Rightarrow> AutoClassifyDir a read unmarshal marshal es
            (files + 1, rules + int n, ws @ (case w of None \<Rightarrow> [] | Some out \<Rightarrow> [(p, out)])))"
| "AutoClassifyDir a read unmarshal marshal (e # es) acc = AutoClassifyDir a read unmarshal marshal es acc"

lemma AutoClassifyDir_stops:
  "is_yaml p \<Longrightarrow> AutoClassifyFile a read unmarshal marshal p = Inl e \<Longrightarrow>
   snd (AutoClassifyDir a read unmarshal marshal (WalkFile p # es) acc) = Inl e"
  by (cases acc) simp

end
