(* ===== verification/Engine.thy ===== *)
theory Engine
  imports Query
begin

text \<open>
  \<^verbatim>\<open>internal/budget/engine.go\<close>: thresholds and the numerical tools of the forecast engine. A result pair
  \<^verbatim>\<open>(float64, bool)\<close> stays a pair; an index out of range is a panic.
\<close>

subsection \<open>States and thresholds\<close>

datatype state = Unset | Healthy | Warning | Critical

record thresholds =
  WarnEta :: duration
  CritEta :: duration
  SoftRatio :: f64
  CritRatio :: f64

definition DefaultThresholds :: thresholds where
  "DefaultThresholds = \<lparr>WarnEta = 72 * hour, CritEta = 6 * hour, SoftRatio = rnd (4 / 5), CritRatio = rnd (19 / 20)\<rparr>"

definition zeroThresholds :: thresholds where
  "zeroThresholds = \<lparr>WarnEta = 0, CritEta = 0, SoftRatio = Fin 0, CritRatio = Fin 0\<rparr>"

definition DefaultExitPolls :: int where
  "DefaultExitPolls = 2"

definition DefaultEpsilon :: f64 where
  "DefaultEpsilon = rnd (1 / 10 ^ 12)"

definition DefaultHorizons :: "duration list" where
  "DefaultHorizons = [hour, 6 * hour, 3 * 24 * hour]"

definition validate :: "thresholds \<Rightarrow> unit res" where
  "validate t =
     (if \<not> flt (SoftRatio t) (CritRatio t) then Inl (Err ''soft_ratio'')
      else if \<not> WarnEta t > CritEta t then Inl (Err ''warn_eta'')
      else Inr ())"

subsection \<open>Down-sampling\<close>

definition decimate_index :: "arch \<Rightarrow> nat \<Rightarrow> int \<Rightarrow> nat \<Rightarrow> int" where
  "decimate_index a n mx i =
     to_i64 a (math_Round (fmul (of_i64 (int i)) (fdiv (of_i64 (int n - 1)) (of_i64 (mx - 1)))))"

definition decimate :: "arch \<Rightarrow> sample list \<Rightarrow> int \<Rightarrow> sample list res" where
  "decimate a samples mx =
     (if int (length samples) \<le> mx then Inr samples
      else if mx < 0 then Inl Panic
      else res_all (\<lambda>i. let k = decimate_index a (length samples) mx i
                        in if 0 \<le> k \<and> k < int (length samples) then Inr (samples ! nat k) else Inl Panic)
             [0..<nat mx])"

subsection \<open>Slopes\<close>

definition sort_Float64s :: "f64 list \<Rightarrow> f64 list" where
  "sort_Float64s xs = sort xs"

definition pair_dt :: "sample list \<Rightarrow> nat \<Rightarrow> nat \<Rightarrow> f64" where
  "pair_dt pts i j = dur_Seconds (time_Sub (s_time (pts ! j)) (s_time (pts ! i)))"

definition pair_slopes :: "sample list \<Rightarrow> f64 list" where
  "pair_slopes pts =
     concat (map (\<lambda>i. concat (map (\<lambda>j.
         if fle (pair_dt pts i j) (Fin 0) then []
         else [fdiv (fsub (s_value (pts ! j)) (s_value (pts ! i))) (pair_dt pts i j)])
       [Suc i..<length pts])) [0..<length pts])"

definition median_of :: "f64 list \<Rightarrow> f64" where
  "median_of s =
     (let n = length s in
      if n mod 2 = 1 then s ! (n div 2)
      else fdiv (fadd (s ! (n div 2 - 1)) (s ! (n div 2))) (Fin 2))"

definition TheilSenSlope :: "arch \<Rightarrow> sample list \<Rightarrow> int \<Rightarrow> (f64 \<times> bool) res" where
  "TheilSenSlope a samples maxPoints =
     res_bind (decimate a samples maxPoints) (\<lambda>pts.
       if length pts < 2 then Inr (Fin 0, False)
       else let slopes = pair_slopes pts in
         if slopes = [] then Inr (Fin 0, False)
         else Inr (median_of (sort_Float64s slopes), True))"

fun ols_sums :: "time \<Rightarrow> sample list \<Rightarrow> f64 \<times> f64 \<times> f64 \<times> f64 \<Rightarrow> f64 \<times> f64 \<times> f64 \<times> f64" where
  "ols_sums t0 [] acc = acc"
| "ols_sums t0 (s # ss) (st, sy, sty, stt) =
     (let t = dur_Seconds (time_Sub (s_time s) t0)
      in ols_sums t0 ss (fadd st t, fadd sy (s_value s), fadd sty (fmul t (s_value s)), fadd stt (fmul t t)))"

definition OLSSlope :: "sample list \<Rightarrow> f64 \<times> bool" where
  "OLSSlope samples =
     (if length samples < 2 then (Fin 0, False)
      else let (st, sy, sty, stt) = ols_sums (s_time (samples ! 0)) samples (Fin 0, Fin 0, Fin 0, Fin 0);
               n = of_i64 (int (length samples));
               den = fsub (fmul n stt) (fmul st st)
           in if feq den (Fin 0) then (Fin 0, False)
              else (fdiv (fsub (fmul n sty) (fmul st sy)) den, True))"

subsection \<open>Gaps, sample counts and ceiling jumps\<close>

fun split_gaps :: "duration \<Rightarrow> sample list \<Rightarrow> sample list \<Rightarrow> sample list list" where
  "split_gaps maxGap cur [] = (if cur \<noteq> [] then [cur] else [])"
| "split_gaps maxGap cur (s # ss) =
     (if cur \<noteq> [] \<and> time_Sub (s_time s) (s_time (last cur)) > maxGap
      then cur # split_gaps maxGap [s] ss
      else split_gaps maxGap (cur @ [s]) ss)"

definition SplitByGaps :: "sample list \<Rightarrow> duration \<Rightarrow> sample list list" where
  "SplitByGaps samples maxGap = split_gaps maxGap [] samples"

definition MinSamples :: "arch \<Rightarrow> duration \<Rightarrow> duration \<Rightarrow> int" where
  "MinSamples a window interval =
     (if interval \<le> 0 then 0
      else let expected = to_i64 a (math_Round (fdiv (of_i64 window) (of_i64 interval)))
           in gquot (wrap64 (expected * 83)) 100)"

definition CeilingJumped :: "f64 \<Rightarrow> f64 \<Rightarrow> bool" where
  "CeilingJumped prev new =
     (if fle prev (Fin 0) \<or> fle new (Fin 0) then False
      else flt (rnd (1 / 100)) (fdiv (fabs (fsub new prev)) prev))"

lemma validate_ok: "validate t = Inr () \<longleftrightarrow> flt (SoftRatio t) (CritRatio t) \<and> CritEta t < WarnEta t"
  by (simp add: validate_def)

lemma rnd_4_5: "rnd (4 / 5) = Fin (3602879701896397 / 4503599627370496)"
  by (simp add: rnd_eval)

lemma rnd_19_20: "rnd (19 / 20) = Fin (4278419646001971 / 4503599627370496)"
  by (simp add: rnd_eval)

lemma validate_default: "validate DefaultThresholds = Inr ()"
  by (simp add: validate_ok DefaultThresholds_def rnd_4_5 rnd_19_20)

lemma default_neq_zero [simp]: "DefaultThresholds \<noteq> zeroThresholds"
  by (simp add: DefaultThresholds_def zeroThresholds_def)

subsection \<open>The partition into runs\<close>

definition gap_ok :: "duration \<Rightarrow> sample \<Rightarrow> sample \<Rightarrow> bool" where
  "gap_ok g a b \<longleftrightarrow> time_Sub (s_time b) (s_time a) \<le> g"

lemma concat_split_gaps: "concat (split_gaps g cur ss) = cur @ ss"
  by (induction g cur ss rule: split_gaps.induct) auto

lemma split_gaps_nonempty: "r \<in> set (split_gaps g cur ss) \<Longrightarrow> r \<noteq> []"
  by (induction g cur ss rule: split_gaps.induct) (auto split: if_splits)

lemma split_gaps_runs:
  "successively (gap_ok g) cur \<Longrightarrow> r \<in> set (split_gaps g cur ss) \<Longrightarrow> successively (gap_ok g) r"
proof (induction g cur ss rule: split_gaps.induct)
  case (2 g cur s ss)
  show ?case
  proof (cases "cur \<noteq> [] \<and> time_Sub (s_time s) (s_time (last cur)) > g")
    case True
    then show ?thesis using 2 by auto
  next
    case False
    then have "successively (gap_ok g) (cur @ [s])"
      using "2.prems"(1) by (cases cur rule: rev_cases) (auto simp: successively_append_iff gap_ok_def)
    then show ?thesis using 2 False by auto
  qed
qed (auto split: if_splits)

lemma split_gaps_hd: "cur \<noteq> [] \<Longrightarrow> split_gaps g cur ss \<noteq> [] \<and> hd (hd (split_gaps g cur ss)) = hd cur"
  by (induction g cur ss rule: split_gaps.induct) auto

lemma split_gaps_between:
  "successively (\<lambda>r q. \<not> gap_ok g (last r) (hd q)) (split_gaps g cur ss)"
proof (induction g cur ss rule: split_gaps.induct)
  case (2 g cur s ss)
  then show ?case
    using split_gaps_hd [of "[s]" g ss]
    by (cases "split_gaps g [s] ss") (auto simp: gap_ok_def)
qed simp

subsection \<open>Down-sampling never leaves the series\<close>

lemma p2_neg_4: "p2 (- 4) = 1 / 16"
  by (simp add: p2_def)

lemma decimate_index_near:
  assumes n: "mx < int n" "int n \<le> 2 ^ 48" and mx: "2 \<le> mx" and i: "int i < mx"
  obtains y :: rat where "decimate_index a n mx i = \<lfloor>y + 1 / 2\<rfloor>" and "0 \<le> y"
    and "\<bar>y - of_nat i * (of_int (int n - 1) / of_int (mx - 1))\<bar> \<le> 1 / 8"
proof -
  define N M t where "N = int n - 1" and "M = mx - 1" and "t = (of_int N / of_int M :: rat)"
  have NM: "1 \<le> M" "M < N" "N \<le> 2 ^ 48 - 1" using n mx by (auto simp: N_def M_def)
  then have fl: "of_i64 N = Fin (of_int N)" "of_i64 M = Fin (of_int M)" by (simp_all add: of_i64_small)
  have t1: "1 \<le> t" using NM by (simp add: t_def)
  have Mt: "of_int M * t = of_int N" using NM by (simp add: t_def)
  define k where "k = ilog2 t + 1"
  have tk: "p2 (k - 1) \<le> t" "t < p2 k" using ilog2_bounds [of t] t1 by (auto simp: k_def)
  have "t \<le> of_int N" using Mt NM t1 mult_right_mono [of 1 "of_int M" t] by simp
  also have "\<dots> < p2 48" using NM by (subst p2_int) (simp_all only: of_int_less_iff, simp)
  finally have "p2 (k - 1) < p2 48" using tk by linarith
  then have k: "k \<le> 48" by (simp add: p2_less_iff)
  have "p2 0 < p2 k" using t1 tk by (simp add: p2_def)
  then have k0: "0 < k" by (simp add: p2_less_iff)
  obtain s where s: "rnd t = Fin s" "\<bar>s - t\<bar> \<le> p2 (k - 53)" "0 \<le> s"
    using rnd_error [of t k] t1 tk k k0 by auto
  have "p2 (k - 53) = p2 (k - 1) * p2 (- 52)" by (simp add: p2_add [symmetric])
  also have "\<dots> \<le> t * p2 (- 52)" using tk by (intro mult_right_mono) auto
  finally have st: "\<bar>s - t\<bar> \<le> t * p2 (- 52)" using s(2) by linarith
  define x where "x = of_nat i * s"
  have iM: "int i \<le> M" using i by (simp add: M_def)
  then have itN: "of_nat i * t \<le> of_int N"
  proof -
    have "(of_nat i :: rat) = of_int (int i)" by simp
    also have "\<dots> \<le> of_int M" using iM by (simp only: of_int_le_iff)
    finally show ?thesis unfolding Mt [symmetric] using t1 by (intro mult_right_mono) auto
  qed
  have N52: "of_int N * p2 (- 52) \<le> 1 / 16"
  proof -
    have "(of_int N :: rat) \<le> p2 48" using NM by (subst p2_int) (simp_all only: of_int_le_iff, simp)
    then have "of_int N * p2 (- 52) \<le> p2 48 * p2 (- 52)" by (intro mult_right_mono) auto
    also have "\<dots> = p2 (- 4)" by (simp add: p2_add [symmetric])
    finally show ?thesis by (simp add: p2_neg_4)
  qed
  have "\<bar>x - of_nat i * t\<bar> = of_nat i * \<bar>s - t\<bar>"
    by (simp add: x_def abs_mult flip: right_diff_distrib)
  also have "\<dots> \<le> of_nat i * (t * p2 (- 52))" using st by (intro mult_left_mono) auto
  also have "\<dots> \<le> of_int N * p2 (- 52)" using itN mult_right_mono [OF itN, of "p2 (- 52)"] by (simp add: mult.assoc)
  finally have xt: "\<bar>x - of_nat i * t\<bar> \<le> 1 / 16" using N52 by linarith
  have x0: "0 \<le> x" using s by (simp add: x_def)
  have idx: "decimate_index a n mx i = to_i64 a (math_Round (rnd x))"
    using s i NM n by (simp add: decimate_index_def of_i64_small x_def t_def [symmetric] fl N_def [symmetric] M_def [symmetric])
  obtain y where y: "rnd x = Fin y" "0 \<le> y" "\<bar>y - x\<bar> \<le> 1 / 16"
  proof (cases "x = 0")
    case True
    with that [of 0] show thesis by simp
  next
    case False
    have "(of_int N :: rat) \<le> of_int (2 ^ 48)" using NM by (intro of_int_le_iff [THEN iffD2]) simp
    then have "x \<le> of_int (2 ^ 48) + 1 / 16" using xt itN by linarith
    then have "x \<le> of_int (2 ^ 49)" by simp
    then have "x \<le> p2 49" by (simp add: p2_def)
    then show thesis using that rnd_error [of x 49] False x0 p2_neg_4 by force
  qed
  have yt: "\<bar>y - of_nat i * t\<bar> \<le> 1 / 8" using xt y by linarith
  have fy: "0 \<le> \<lfloor>y + 1 / 2\<rfloor>" "\<lfloor>y + 1 / 2\<rfloor> \<le> N" using yt itN y by linarith+
  define f where "f = \<lfloor>y + 1 / 2\<rfloor>"
  have "0 \<le> f" "f \<le> 2 ^ 48" using fy NM by (auto simp: f_def [symmetric])
  then have "decimate_index a n mx i = f"
    using y by (simp add: idx math_Round_Fin f_def [symmetric] rnd_of_int to_i64_def rtrunc_def i64_def)
  then have "decimate_index a n mx i = \<lfloor>y + 1 / 2\<rfloor>" by (simp only: f_def)
  then show thesis using that [of y] y(2) yt unfolding t_def N_def M_def by blast
qed

lemma decimate_index_bounds:
  assumes "mx < int n" "int n \<le> 2 ^ 48" "2 \<le> mx" "int i < mx"
  shows "0 \<le> decimate_index a n mx i" "decimate_index a n mx i < int n"
    and "i = 0 \<Longrightarrow> decimate_index a n mx i = 0"
    and "int i = mx - 1 \<Longrightarrow> decimate_index a n mx i = int n - 1"
    and "int (Suc i) < mx \<Longrightarrow> decimate_index a n mx i \<le> decimate_index a n mx (Suc i)"
proof -
  let ?t = "(of_int (int n - 1) / of_int (mx - 1) :: rat)"
  obtain y where y: "decimate_index a n mx i = \<lfloor>y + 1 / 2\<rfloor>" "0 \<le> y" "\<bar>y - of_nat i * ?t\<bar> \<le> 1 / 8"
    using decimate_index_near [OF assms] by blast
  have t1: "1 \<le> ?t" using assms by simp
  have Mt: "of_int (mx - 1) * ?t = of_int (int n - 1)" using assms by simp
  have "(of_nat i :: rat) = of_int (int i)" by simp
  also have "\<dots> \<le> of_int (mx - 1)" using assms by (simp only: of_int_le_iff)
  finally have "of_nat i * ?t \<le> of_int (mx - 1) * ?t"
    using t1 by (intro mult_right_mono) auto
  then have le: "of_nat i * ?t \<le> of_int (int n - 1)" using Mt by simp
  show "0 \<le> decimate_index a n mx i" using y by simp
  have "\<lfloor>y + 1 / 2\<rfloor> \<le> int n - 1" using y le by linarith
  then show "decimate_index a n mx i < int n" using y by simp
  show "decimate_index a n mx i = 0" if "i = 0"
    using y that by (auto simp: floor_eq_iff)
  show "decimate_index a n mx i = int n - 1" if "int i = mx - 1"
  proof -
    have "of_nat i * ?t = of_int (int n - 1)"
      using Mt that by (metis of_int_of_nat_eq)
    then have "of_int (int n - 1) - 1 / 8 \<le> y" "y \<le> of_int (int n - 1) + 1 / 8" using y(3) by linarith+
    then have "\<lfloor>y + 1 / 2\<rfloor> = int n - 1" by (intro floor_unique) linarith+
    then show ?thesis using y by simp
  qed
  show "decimate_index a n mx i \<le> decimate_index a n mx (Suc i)" if nx: "int (Suc i) < mx"
  proof -
    obtain z where z: "decimate_index a n mx (Suc i) = \<lfloor>z + 1 / 2\<rfloor>" "\<bar>z - of_nat (Suc i) * ?t\<bar> \<le> 1 / 8"
      using decimate_index_near [OF assms(1-3) nx, of a] by blast
    have "of_nat (Suc i) * ?t = of_nat i * ?t + ?t" by (simp only: of_nat_Suc distrib_right mult_1 add.commute)
    then have "y \<le> z" using y(3) z(2) t1 by linarith
    then show ?thesis using y z by (simp add: floor_mono)
  qed
qed

lemma decimate_Inr:
  assumes "2 \<le> mx" "int (length ss) \<le> 2 ^ 48"
  shows "decimate a ss mx = Inr (if int (length ss) \<le> mx then ss
           else map (\<lambda>i. ss ! nat (decimate_index a (length ss) mx i)) [0..<nat mx])"
  using assms decimate_index_bounds [of mx "length ss"]
  by (auto simp: decimate_def Let_def intro!: res_all_cong)

subsection \<open>The median of the slopes withstands outliers\<close>

lemma median_between:
  assumes maj: "length xs div 2 < length (filter (\<lambda>x. Fin lo \<le> x \<and> x \<le> Fin hi) xs)"
    and f: "frep lo" "frep hi" "\<bar>lo\<bar> < p2 1023" "\<bar>hi\<bar> < p2 1023"
  shows "\<exists>b. median_of (sort_Float64s xs) = Fin b \<and> lo \<le> b \<and> b \<le> hi"
proof (cases "odd (length xs)")
  case True
  obtain b where "sort xs ! (length xs div 2) = Fin b" "lo \<le> b" "b \<le> hi"
    using sort_majority [OF maj, of "length xs div 2"] unfolding Fin_between by blast
  then show ?thesis using True by (simp add: median_of_def sort_Float64s_def Let_def odd_iff_mod_2_eq_one)
next
  case False
  have "length xs \<noteq> 0" using maj by (cases xs) auto
  then have s: "Suc (length xs div 2 - 1) = length xs div 2" using False by (cases "length xs") (auto elim!: evenE)
  obtain a where a: "sort xs ! (length xs div 2 - 1) = Fin a" "lo \<le> a" "a \<le> hi"
    using sort_majority [OF maj, of "length xs div 2 - 1"] False s unfolding Fin_between by blast
  obtain b where b: "sort xs ! (length xs div 2) = Fin b" "lo \<le> b" "b \<le> hi"
    using sort_majority [OF maj, of "length xs div 2"] unfolding Fin_between by blast
  obtain c where c: "rnd (a + b) = Fin c" "2 * lo \<le> c" "c \<le> 2 * hi"
    using rnd_between [of "2 * lo" "2 * hi" "a + b"] frep_double f a b by auto
  obtain d where "rnd (c / 2) = Fin d" "lo \<le> d" "d \<le> hi"
    using rnd_between [of lo hi "c / 2"] f c by auto
  then show ?thesis using False a b c
    by (auto simp: median_of_def sort_Float64s_def Let_def odd_iff_mod_2_eq_one)
qed

definition pslope :: "sample list \<Rightarrow> nat \<times> nat \<Rightarrow> f64" where
  "pslope pts = (\<lambda>(i, j). fdiv (fsub (s_value (pts ! j)) (s_value (pts ! i))) (pair_dt pts i j))"

definition pair_list :: "nat \<Rightarrow> (nat \<times> nat) list" where
  "pair_list n = concat (map (\<lambda>i. map (Pair i) [Suc i..<n]) [0..<n])"

lemma pair_slopes_eq:
  "pair_slopes pts = map (pslope pts) (filter (\<lambda>(i, j). \<not> fle (pair_dt pts i j) (Fin 0)) (pair_list (length pts)))"
proof -
  have "concat (map (\<lambda>j. if P i j then [] else [f i j]) js)
      = map (\<lambda>(i, j). f i j) (filter (\<lambda>(i, j). \<not> P i j) (map (Pair i) js))"
    for P and f :: "nat \<Rightarrow> nat \<Rightarrow> f64" and i js by (induction js) auto
  note inner = this [where P = "\<lambda>i j. fle (pair_dt pts i j) (Fin 0)" and
      f = "\<lambda>i j. fdiv (fsub (s_value (pts ! j)) (s_value (pts ! i))) (pair_dt pts i j)"]
  show ?thesis unfolding pair_slopes_def pair_list_def pslope_def
    by (simp only: filter_concat map_concat inner map_map o_def)
qed

lemma pair_list_product: "pair_list n = filter (\<lambda>(i, j). i < j) (List.product [0..<n] [0..<n])"
proof -
  have "filter (\<lambda>j. i < j) [0..<n] = [Suc i..<n]" for i
    by (induction n) (auto simp: le_less_Suc_eq)
  then show ?thesis
    by (simp add: pair_list_def product_concat_map filter_concat filter_map o_def)
qed

lemma set_pair_list: "set (pair_list n) = {(i, j). i < j \<and> j < n}"
  by (auto simp: pair_list_product)

lemma distinct_pair_list: "distinct (pair_list n)"
  by (simp add: pair_list_product distinct_product)

lemma length_pair_list: "2 * length (pair_list n) = n * (n - 1)"
proof -
  have s: "2 * \<Sum> {0..<n} = n * (n - 1)" for n :: nat
    by (cases n) (auto simp: Sum_Ico_nat)
  have "length (pair_list n) = (\<Sum>i = 0..<n. n - Suc i)"
    by (simp add: pair_list_def length_concat o_def interv_sum_list_conv_sum_set_nat del: upt_Suc)
  also have "\<dots> = \<Sum> {0..<n}" using sum.nat_diff_reindex [of "\<lambda>i. i" n] by (simp add: atLeast0LessThan)
  finally show ?thesis using s [of n] by simp
qed


text \<open>Pairs that touch a set of positions.\<close>

lemma touched_pairs:
  assumes "finite B"
  shows "card {(i, j). i < j \<and> j < n \<and> (i \<in> B \<or> j \<in> B)} \<le> card B * (n - 1)"
proof -
  define f where "f b = (\<lambda>k. if k < b then (k, b) else (b, k))" for b :: nat
  have "{(i, j). i < j \<and> j < n \<and> (i \<in> B \<or> j \<in> B)} \<subseteq> (\<Union>b \<in> B \<inter> {..<n}. f b ` ({..<n} - {b}))"
    by (force simp: f_def image_iff)
  then have "card {(i, j). i < j \<and> j < n \<and> (i \<in> B \<or> j \<in> B)} \<le> card (\<Union>b \<in> B \<inter> {..<n}. f b ` ({..<n} - {b}))"
    using assms by (intro card_mono) auto
  also have "\<dots> \<le> (\<Sum>b \<in> B \<inter> {..<n}. card (f b ` ({..<n} - {b})))"
    using assms by (intro card_UN_le) auto
  also have "\<dots> \<le> (\<Sum>b \<in> B \<inter> {..<n}. n - 1)"
    by (intro sum_mono order_trans [OF card_image_le]) auto
  also have "\<dots> \<le> card B * (n - 1)"
    using assms card_mono [of B "B \<inter> {..<n}"] by simp
  finally show ?thesis .
qed

text \<open>The pairs of a strictly increasing series all count.\<close>

definition increasing :: "sample list \<Rightarrow> bool" where
  "increasing pts \<longleftrightarrow> sorted_wrt (\<lambda>p q. s_time p < s_time q) pts"

lemma increasing_pair_dt:
  "increasing pts \<Longrightarrow> i < j \<Longrightarrow> j < length pts \<Longrightarrow> \<exists>q. pair_dt pts i j = Fin q \<and> 0 < q"
proof -
  assume a: "increasing pts" "i < j" "j < length pts"
  then have "0 < time_Sub (s_time (pts ! j)) (s_time (pts ! i))"
    using sorted_wrt_nth_less [of "\<lambda>p q. s_time p < s_time q" pts i j] by (simp add: time_Sub_pos increasing_def)
  then show ?thesis using dur_Seconds_pos [OF _ i64_time_Sub] p2_pos [of "- 30"] unfolding pair_dt_def
    by (meson less_le_trans)
qed

lemma pair_slopes_increasing: "increasing pts \<Longrightarrow> pair_slopes pts = map (pslope pts) (pair_list (length pts))"
proof -
  assume "increasing pts"
  then have "\<forall>(i, j) \<in> set (pair_list (length pts)). \<not> fle (pair_dt pts i j) (Fin 0)"
    using increasing_pair_dt [of pts] by (fastforce simp: set_pair_list)
  then show ?thesis unfolding pair_slopes_eq by (simp add: filter_id_conv case_prod_unfold)
qed

lemma pair_slopes_majority:
  assumes inc: "increasing pts" and B: "finite B" "4 * card B < length pts" and n: "2 \<le> length pts"
    and ok: "\<And>i j. i < j \<Longrightarrow> j < length pts \<Longrightarrow> i \<notin> B \<Longrightarrow> j \<notin> B \<Longrightarrow> P (pslope pts (i, j))"
  shows "length (pair_slopes pts) div 2 < length (filter P (pair_slopes pts))"
proof -
  let ?n = "length pts" and ?G = "\<lambda>p. P (pslope pts p)"
  have eq: "pair_slopes pts = map (pslope pts) (pair_list ?n)" using inc by (rule pair_slopes_increasing)
  have fin: "finite {(i, j). i < j \<and> j < ?n \<and> (i \<in> B \<or> j \<in> B)}"
    by (rule finite_subset [of _ "{..<?n} \<times> {..<?n}"]) auto
  have "length (filter (\<lambda>p. \<not> ?G p) (pair_list ?n)) \<le> card {(i, j). i < j \<and> j < ?n \<and> (i \<in> B \<or> j \<in> B)}"
    unfolding length_filter_card [OF distinct_pair_list] set_pair_list
    using ok fin by (intro card_mono) auto
  also have "\<dots> \<le> card B * (?n - 1)" by (rule touched_pairs [OF B(1)])
  finally have "4 * length (filter (\<lambda>p. \<not> ?G p) (pair_list ?n)) \<le> 4 * card B * (?n - 1)" by simp
  also have "\<dots> < ?n * (?n - 1)" using B n by (intro mult_strict_right_mono) auto
  also have "\<dots> = 2 * length (pair_list ?n)" by (rule length_pair_list [symmetric])
  finally have "2 * length (filter (\<lambda>p. \<not> ?G p) (pair_list ?n)) < length (pair_list ?n)" by simp
  then show ?thesis using sum_length_filter_compl [of ?G "pair_list ?n"] by (simp add: eq filter_map o_def)
qed

subsection \<open>Properties\<close>

text \<open>A sample at a whole second, for the concrete series below.\<close>

definition pt :: "int \<Rightarrow> rat \<Rightarrow> sample" where
  "pt t v = \<lparr>s_time = t * second, s_value = Fin v\<rparr>"

text \<open>
  Down-sampling a longer series to \<open>mx\<close> points never indexes outside it: it returns
  \<open>mx\<close> points of the series, keeps its first and its last point, and keeps them in time order.
\<close>

lemma decimate_spec:
  assumes "2 \<le> mx" "mx < int (length ss)" "int (length ss) \<le> 2 ^ 48"
  shows "\<exists>out. decimate a ss mx = Inr out \<and> int (length out) = mx \<and> set out \<subseteq> set ss
           \<and> hd out = hd ss \<and> last out = last ss \<and> (sorted (map s_time ss) \<longrightarrow> sorted (map s_time out))"
proof -
  let ?n = "length ss" and ?f = "\<lambda>i. nat (decimate_index a (length ss) mx i)"
  let ?out = "map (\<lambda>i. ss ! ?f i) [0..<nat mx]"
  note B = decimate_index_bounds [OF assms(2,3,1)]
  have ne: "ss \<noteq> []" "?out \<noteq> []" using assms by auto
  have lt: "?f i < ?n" if "i < nat mx" for i using B(1,2) [of i a] that by linarith
  have step: "?f i \<le> ?f (Suc i)" if "Suc i < nat mx" for i using B(5) [of i a] that by (simp add: nat_mono)
  have "sorted (map s_time ?out)" if so: "sorted (map s_time ss)"
    unfolding sorted_iff_nth_Suc
    using sorted_nth_mono [OF so step] lt by auto
  moreover have "hd ?out = hd ss" using B(3) [of 0 a] assms ne by (simp add: hd_map hd_conv_nth)
  moreover have "last ?out = last ss"
    using B(4) [of "nat (mx - 1)" a] assms ne by (simp add: last_map last_conv_nth nat_diff_distrib)
  moreover have "set ?out \<subseteq> set ss" using lt by auto
  moreover have "decimate a ss mx = Inr ?out" using decimate_Inr [OF assms(1,3)] assms(2) by simp
  ultimately show ?thesis using assms by (intro exI [of _ ?out]) auto
qed

lemma decimate_spec_witness:
  "\<exists>out. decimate AMD64 [pt 0 5, pt 1 7, pt 2 9] 2 = Inr out \<and> int (length out) = 2
     \<and> hd out = pt 0 5 \<and> last out = pt 2 9 \<and> sorted (map s_time out)"
  using decimate_spec [of 2 "[pt 0 5, pt 1 7, pt 2 9]" AMD64] by (auto simp: pt_def)

lemma decimate_total:
  assumes "2 \<le> mx" "int (length ss) \<le> 2 ^ 48"
  obtains pts where "decimate a ss mx = Inr pts" "set pts \<subseteq> set ss"
proof (cases "int (length ss) \<le> mx")
  case True
  then show thesis using that by (simp add: decimate_def)
next
  case False
  have "nat (decimate_index a (length ss) mx i) < length ss" if "i < nat mx" for i
    using decimate_index_bounds(1,2) [of mx "length ss" i a] assms False that by linarith
  then have "set (map (\<lambda>i. ss ! nat (decimate_index a (length ss) mx i)) [0..<nat mx]) \<subseteq> set ss" by auto
  with that show thesis using decimate_Inr [OF assms, of a] False by simp
qed

text \<open>
  The slope routine never panics: on any series of up to \<open>2 ^ 48\<close> samples and a limit of at
  least two points it returns, and it reports a slope exactly if two of the kept points differ in time.
\<close>

lemma TheilSenSlope_total:
  assumes "2 \<le> mx" "int (length ss) \<le> 2 ^ 48"
  shows "\<exists>pts. decimate a ss mx = Inr pts \<and>
           (\<exists>b. TheilSenSlope a ss mx = Inr (b, \<exists>i j. i < j \<and> j < length pts \<and> \<not> fle (pair_dt pts i j) (Fin 0)))"
proof -
  obtain pts where "decimate a ss mx = Inr pts" using decimate_total [OF assms] .
  moreover have "pair_slopes pts = [] \<longleftrightarrow> \<not> (\<exists>i j. i < j \<and> j < length pts \<and> \<not> fle (pair_dt pts i j) (Fin 0))"
    by (auto simp: pair_slopes_eq filter_empty_conv set_pair_list)
  ultimately show ?thesis by (auto simp: TheilSenSlope_def Let_def)
qed

lemma TheilSenSlope_total_witness:
  "\<exists>pts. decimate AMD64 [pt 0 5, pt 1 7, pt 2 9] 2 = Inr pts \<and>
     (\<exists>b. TheilSenSlope AMD64 [pt 0 5, pt 1 7, pt 2 9] 2
        = Inr (b, \<exists>i j. i < j \<and> j < length pts \<and> \<not> fle (pair_dt pts i j) (Fin 0)))"
  by (rule TheilSenSlope_total) simp_all

text \<open>
  Claim C1. Robustness of the Theil-Sen slope: if fewer than a quarter of the (down-sampled) points are
  arbitrary and every pair of the others has a slope between \<open>lo\<close> and \<open>hi\<close>, then so has the result,
  rounding errors included. A burst that hits fewer than a quarter of the points cannot move the forecast.
\<close>

theorem TheilSenSlope_robust:
  assumes "decimate a ss mx = Inr pts" "increasing pts" "2 \<le> length pts" "finite B" "4 * card B < length pts"
    and "frep lo" "frep hi" "\<bar>lo\<bar> < p2 1023" "\<bar>hi\<bar> < p2 1023"
    and "\<And>i j. i < j \<Longrightarrow> j < length pts \<Longrightarrow> i \<notin> B \<Longrightarrow> j \<notin> B \<Longrightarrow> Fin lo \<le> pslope pts (i, j) \<and> pslope pts (i, j) \<le> Fin hi"
  shows "\<exists>b. TheilSenSlope a ss mx = Inr (Fin b, True) \<and> lo \<le> b \<and> b \<le> hi"
proof -
  have m: "length (pair_slopes pts) div 2 < length (filter (\<lambda>x. Fin lo \<le> x \<and> x \<le> Fin hi) (pair_slopes pts))"
    using pair_slopes_majority [of pts B "\<lambda>x. Fin lo \<le> x \<and> x \<le> Fin hi"] assms by simp
  then have "pair_slopes pts \<noteq> []" by auto
  then show ?thesis using median_between [OF m] assms by (auto simp: TheilSenSlope_def Let_def)
qed

theorem TheilSenSlope_robust_witness:
  "\<exists>b. TheilSenSlope AMD64 [pt 0 1, pt 1 1, pt 2 900, pt 3 1, pt 4 1] 100 = Inr (Fin b, True) \<and> 0 \<le> b \<and> b \<le> 0"
proof (rule TheilSenSlope_robust [where pts = "[pt 0 1, pt 1 1, pt 2 900, pt 3 1, pt 4 1]" and B = "{2}"])
  let ?p = "[pt 0 1, pt 1 1, pt 2 900, pt 3 1, pt 4 1]"
  fix i j :: nat
  assume ij: "i < j" "j < length ?p" "i \<notin> {2}" "j \<notin> {2}"
  have inc: "increasing ?p" by (simp add: increasing_def pt_def)
  then obtain q where "pair_dt ?p i j = Fin q" "0 < q" using increasing_pair_dt ij(1,2) by blast
  moreover have "s_value (?p ! i) = Fin 1" "s_value (?p ! j) = Fin 1"
    using ij by (auto simp: less_Suc_eq numeral_eq_Suc pt_def)
  ultimately show "Fin 0 \<le> pslope ?p (i, j) \<and> pslope ?p (i, j) \<le> Fin 0"
    by (simp add: pslope_def)
qed (simp_all add: decimate_def increasing_def pt_def)

text \<open>
  Splitting at gaps loses and reorders nothing: the runs concatenate to the series, no run is empty,
  inside a run neighbours are at most \<open>g\<close> apart, and between two runs there is a larger gap.
\<close>

lemma SplitByGaps_spec:
  "concat (SplitByGaps ss g) = ss \<and> list_all (\<lambda>r. r \<noteq> [] \<and> successively (gap_ok g) r) (SplitByGaps ss g)
   \<and> successively (\<lambda>r q. \<not> gap_ok g (last r) (hd q)) (SplitByGaps ss g)"
  unfolding SplitByGaps_def
  using concat_split_gaps [of g "[]" ss] split_gaps_nonempty [of _ g "[]" ss] split_gaps_runs [of g "[]" _ ss]
    split_gaps_between [of g "[]" ss] by (auto simp: list_all_iff)


text \<open>
  For a window that is a whole number \<open>n\<close> of sampling intervals (window up to 104 days) the required number of
  samples is 83 per cent of \<open>n\<close>, rounded down: the float division in between is exact.
\<close>

lemma MinSamples_whole:
  assumes "0 < interval" "0 < n" "n * interval \<le> 2 ^ 53"
  shows "MinSamples a (n * interval) interval = 83 * n div 100"
proof -
  have i: "interval \<le> 2 ^ 53"
  proof -
    have "1 * interval \<le> n * interval" using assms by (intro mult_right_mono) auto
    then show ?thesis using assms(3) by linarith
  qed
  have n: "n \<le> 2 ^ 53"
  proof -
    have "n * 1 \<le> n * interval" using assms by (intro mult_left_mono) auto
    then show ?thesis using assms(3) by linarith
  qed
  have "math_Round (fdiv (of_i64 (n * interval)) (of_i64 interval)) = Fin (of_int n)"
  proof -
    have "of_i64 (n * interval) = Fin (of_int (n * interval))" "of_i64 interval = Fin (of_int interval)"
      using of_i64_small [of "n * interval"] of_i64_small [of interval] assms i by simp_all
    moreover have "\<lfloor>of_int n + 1 / 2 :: rat\<rfloor> = n" by (simp add: floor_eq_iff)
    ultimately show ?thesis using assms n by (simp add: math_Round_Fin rnd_of_int)
  qed
  moreover have "i64 n" "i64 (n * 83)" using n assms(2) by (auto simp: i64_def)
  ultimately show ?thesis using assms
    by (simp add: MinSamples_def to_i64_def rtrunc_def gquot_nonneg Let_def mult.commute)
qed

lemma MinSamples_example: "MinSamples ARM64 (180 * (20 * second)) (20 * second) = 83 * 180 div 100"
  by (rule MinSamples_whole) simp_all

lemma rnd_cent: "rnd (1 / 100) = Fin (5764607523034235 / 576460752303423488)"
  by (simp add: rnd_eval)

text \<open>
  The ceiling-jump guard on positive ceilings: a relative change of at most 1/128 is never taken for a jump, a
  change of at least 1/64 always is (the threshold of one per cent lies between), whatever the roundings; and the
  first observation (no previous ceiling) is never a jump.
\<close>

lemma CeilingJumped_spec:
  assumes "frep p" "0 < c" "p2 (- 1000) \<le> p" "p < p2 1000" "c < p2 1000" "q \<le> 0"
  shows "(\<bar>c - p\<bar> \<le> p / 128 \<longrightarrow> \<not> CeilingJumped (Fin p) (Fin c))
       \<and> (p / 64 \<le> \<bar>c - p\<bar> \<longrightarrow> CeilingJumped (Fin p) (Fin c)) \<and> \<not> CeilingJumped (Fin q) (Fin c)"
proof (intro conjI impI)
  have p: "0 < p" using assms p2_pos [of "- 1000"] by linarith
  have pw: "p2 (- 7) = 1 / 128" "p2 (- 6) = 1 / 64" by (simp_all add: p2_def)
  have fr: "frep (p / 128)" "frep (p / 64)" "frep (1 / 128)" "frep (1 / 64)"
    using frep_shrink [of p 7] frep_shrink [of p 6] frep_p2 [of "- 7"] frep_p2 [of "- 6"] assms by (simp_all add: pw)
  have d: "\<bar>c - p\<bar> \<le> p2 1000" using assms p by linarith
  have dp: "0 \<le> \<bar>c - p\<bar>" by simp
  obtain r where r: "rnd \<bar>c - p\<bar> = Fin r" "0 \<le> r"
    using rnd_between [OF _ frep_p2 [of 1000] dp d] by auto
  have J: "CeilingJumped (Fin p) (Fin c) \<longleftrightarrow> flt (rnd (1 / 100)) (rnd (r / p))"
    using p assms(2) r by (simp add: CeilingJumped_def fabs_rnd)
  show "\<not> CeilingJumped (Fin p) (Fin c)" if "\<bar>c - p\<bar> \<le> p / 128"
  proof -
    have "r \<le> p / 128" using rnd_mono [OF that] rnd_rep fr r by simp
    then have "r / p \<le> 1 / 128" using p by (simp add: field_simps)
    then have "rnd (r / p) \<le> Fin (1 / 128)" using rnd_mono [of "r / p" "1 / 128"] rnd_rep fr by simp
    then show ?thesis by (cases "rnd (r / p)") (auto simp: J rnd_cent)
  qed
  show "CeilingJumped (Fin p) (Fin c)" if "p / 64 \<le> \<bar>c - p\<bar>"
  proof -
    have "p / 64 \<le> r" using rnd_mono [OF that] rnd_rep fr r by simp
    then have "1 / 64 \<le> r / p" using p by (simp add: field_simps)
    then have "Fin (1 / 64) \<le> rnd (r / p)" using rnd_mono [of "1 / 64" "r / p"] rnd_rep fr by simp
    then show ?thesis by (cases "rnd (r / p)") (auto simp: J rnd_cent)
  qed
  show "\<not> CeilingJumped (Fin q) (Fin c)" using assms by (simp add: CeilingJumped_def)
qed

lemma frep_numerals: "frep 100" "frep 103"
  using frep_of_int [of 100] frep_of_int [of 103] by simp_all

lemma CeilingJumped_spec_witness:
  "CeilingJumped (Fin 100) (Fin 103) \<and> \<not> CeilingJumped (Fin 0) (Fin 103)"
  using CeilingJumped_spec [of 100 103 0] by (simp add: frep_numerals p2_def)

end
