(* ===== verification/Evaluate.thy ===== *)
theory Evaluate
  imports Engine
begin

text \<open>
  \<^verbatim>\<open>internal/budget/evaluate.go\<close>: the evaluation of one regression window, the forecast over all
  windows, and the state decision with its exit hysteresis. \<open>PerWindow\<close> is keyed by the window itself, which
  \<^verbatim>\<open>Duration.String\<close> writes without loss. A reason is a constructor instead of a formatted text.
\<close>

datatype reason = NoReason | TooFew int int | CeilingReset | NoSlope

record window_eval =
  Window :: duration
  Slope :: "f64 option"
  Samples_used :: int
  ETA :: "f64 option"
  Valid :: bool
  Reason :: reason

record forecast =
  F_ID :: string
  F_Now :: time
  F_Value :: f64
  F_Ceiling :: f64
  Headroom :: f64
  Utilization :: f64
  EtaAggressive :: "f64 option"
  EtaConservative :: "f64 option"
  PerWindow :: "duration \<rightharpoonup> window_eval"
  F_State :: state
  ExitStreak :: int
  F_CeilingJumped :: bool

record eval_def =
  D_ID :: string
  D_ValueQuery :: string
  D_CeilingQuery :: string
  Horizons :: "duration list"

record input =
  Def :: eval_def
  Now :: time
  Value :: f64
  Ceiling :: f64
  PrevCeiling :: f64
  Samples :: "duration \<rightharpoonup> sample list"
  Interval :: duration
  PrevState :: state
  PrevExitStreak :: int
  Th :: thresholds
  UseOLS :: bool

definition f_headroom :: "input \<Rightarrow> f64" where
  "f_headroom inp = fsub (Ceiling inp) (Value inp)"

definition sortSlice :: "f64 list \<Rightarrow> f64 list" where
  "sortSlice s = swap_sort flt s"

definition samples_of :: "input \<Rightarrow> duration \<Rightarrow> sample list" where
  "samples_of inp w = (case Samples inp w of None \<Rightarrow> [] | Some ss \<Rightarrow> ss)"

definition run_slope :: "arch \<Rightarrow> bool \<Rightarrow> sample list \<Rightarrow> (f64 \<times> bool) res" where
  "run_slope a ols run = (if ols then Inr (OLSSlope run) else TheilSenSlope a run 100)"

definition new_eval :: "duration \<Rightarrow> window_eval" where
  "new_eval w = \<lparr>Window = w, Slope = None, Samples_used = 0, ETA = None, Valid = False, Reason = NoReason\<rparr>"

definition evalWindow :: "arch \<Rightarrow> duration \<Rightarrow> input \<Rightarrow> bool \<Rightarrow> window_eval res" where
  "evalWindow a w inp ceilingJumped =
     (let ev = new_eval w; samples = samples_of inp w; minN = MinSamples a w (Interval inp) in
      if int (length samples) < minN then Inr (ev\<lparr>Reason := TooFew (int (length samples)) minN\<rparr>)
      else if ceilingJumped then Inr (ev\<lparr>Reason := CeilingReset\<rparr>)
      else let runs = SplitByGaps samples (5 * minute) in
        res_bind (res_all (run_slope a (UseOLS inp)) runs) (\<lambda>rs.
          let slopes = map fst (filter snd rs);
              totalPairs = int (sum_list (map length runs))
          in if slopes = [] then Inr (ev\<lparr>Reason := NoSlope\<rparr>)
             else let beta = sortSlice slopes ! (length slopes div 2);
                      ev = ev\<lparr>Samples_used := totalPairs, Slope := Some beta, Valid := True\<rparr>
                  in if fle beta DefaultEpsilon then Inr ev
                     else Inr (ev\<lparr>ETA := Some (fdiv (f_headroom inp) beta)\<rparr>)))"

text \<open>\<^verbatim>\<open>time.Duration(eta * float64(time.Second))\<close>.\<close>

definition eta_duration :: "arch \<Rightarrow> f64 \<Rightarrow> duration" where
  "eta_duration a eta = to_i64 a (fmul eta (Fin 1000000000))"

definition eta_below :: "arch \<Rightarrow> f64 option \<Rightarrow> duration \<Rightarrow> bool" where
  "eta_below a eta d = (case eta of None \<Rightarrow> False | Some e \<Rightarrow> eta_duration a e < d)"

definition effective :: "thresholds \<Rightarrow> thresholds" where
  "effective th = (if th = zeroThresholds then DefaultThresholds else th)"

definition decide :: "arch \<Rightarrow> forecast \<Rightarrow> input \<Rightarrow> state \<times> int" where
  "decide a f inp =
     (let th = effective (Th inp);
          wouldWarn = eta_below a (EtaAggressive f) (WarnEta th) \<and> fle (SoftRatio th) (Utilization f)
                      \<or> eta_below a (EtaConservative f) (WarnEta th);
          wouldCrit = eta_below a (EtaAggressive f) (CritEta th) \<or> fle (CritRatio th) (Utilization f)
      in if wouldCrit then (Critical, 0)
         else if wouldWarn then (Warning, 0)
         else let streak = wrap64 (PrevExitStreak inp + 1)
              in if streak \<ge> DefaultExitPolls \<or> PrevState inp = Healthy then (Healthy, streak)
                 else if PrevState inp = Unset then (Healthy, streak)
                 else (PrevState inp, streak))"

definition aggressive :: "window_eval list \<Rightarrow> f64 option \<Rightarrow> f64 option" where
  "aggressive evs init = foldl (\<lambda>e ev. if Window ev = hour then ETA ev else e) init evs"

definition conservative :: "(duration \<rightharpoonup> window_eval) \<Rightarrow> duration list \<Rightarrow> duration \<times> f64 option \<Rightarrow> duration \<times> f64 option" where
  "conservative pw ws acc =
     foldl (\<lambda>(longest, e) w. if w > longest then (w, Option.bind (pw w) ETA) else (longest, e)) acc ws"

definition horizons_of :: "input \<Rightarrow> duration list" where
  "horizons_of inp = (if Horizons (Def inp) = [] then DefaultHorizons else Horizons (Def inp))"

definition jumped :: "input \<Rightarrow> bool" where
  "jumped inp = CeilingJumped (PrevCeiling inp) (Ceiling inp)"

text \<open>The part of \<^verbatim>\<open>Evaluate\<close> after the windows are evaluated.\<close>

definition build_forecast :: "arch \<Rightarrow> input \<Rightarrow> window_eval list \<Rightarrow> forecast" where
  "build_forecast a inp evs =
     (let pw = foldl (\<lambda>m ev. m(Window ev \<mapsto> ev)) Map.empty evs;
          f = \<lparr>F_ID = D_ID (Def inp), F_Now = Now inp, F_Value = Value inp, F_Ceiling = Ceiling inp,
               Headroom = fsub (Ceiling inp) (Value inp), Utilization = fdiv (Value inp) (Ceiling inp),
               EtaAggressive = aggressive evs None,
               EtaConservative = snd (conservative pw (horizons_of inp) (0, None)),
               PerWindow = pw, F_State = Unset, ExitStreak = 0, F_CeilingJumped = jumped inp\<rparr>;
          (st, streak) = decide a f inp
      in f\<lparr>F_State := st, ExitStreak := streak\<rparr>)"

definition Evaluate :: "arch \<Rightarrow> input \<Rightarrow> forecast res" where
  "Evaluate a inp =
     res_bind (if Th inp = zeroThresholds then Inr () else validate (Th inp)) (\<lambda>_.
       if D_ID (Def inp) = [] then Inl (Err ''definition id'')
       else if fle (Ceiling inp) (Fin 0) then Inl (Err ''ceiling'')
       else res_bind (res_all (\<lambda>w. evalWindow a w inp (jumped inp)) (horizons_of inp)) (\<lambda>evs.
              Inr (build_forecast a inp evs)))"

subsection \<open>The conversion of a time to exhaustion\<close>

lemma frep_62: "frep (2 ^ 62)" "frep (- (2 ^ 62))"
  using frep_p2 [of 62] by (simp_all add: p2_def)

lemma eta_duration_range:
  assumes "\<bar>e * 1000000000\<bar> \<le> 2 ^ 62"
  obtains r where "rnd (e * 1000000000) = Fin r" "\<bar>r\<bar> \<le> 2 ^ 62" "eta_duration a (Fin e) = rtrunc r"
proof -
  have "- (2 ^ 62) \<le> e * 1000000000" "e * 1000000000 \<le> 2 ^ 62" using assms by linarith+
  then obtain r where r: "rnd (e * 1000000000) = Fin r" "- (2 ^ 62) \<le> r" "r \<le> 2 ^ 62"
    by (rule rnd_between [OF frep_62(2,1)])
  have "i64 (rtrunc r)" using r by (auto simp: i64_def rtrunc_def floor_less_iff ceiling_less_iff le_floor_iff le_ceiling_iff)
  then show thesis using that r by (simp add: eta_duration_def to_i64_def abs_le_iff)
qed

lemma eta_duration_ge:
  assumes "\<bar>e * 1000000000\<bar> \<le> 2 ^ 62" "of_int d \<le> e * 1000000000" "\<bar>d\<bar> \<le> 2 ^ 53"
  shows "d \<le> eta_duration a (Fin e)"
proof -
  obtain r where r: "rnd (e * 1000000000) = Fin r" "eta_duration a (Fin e) = rtrunc r"
    using eta_duration_range [OF assms(1)] by metis
  have "of_int d \<le> r" using rnd_mono [OF assms(2)] rnd_of_int [OF assms(3)] r by simp
  then have "d \<le> rtrunc r" by (simp add: rtrunc_def le_floor_iff) linarith
  then show ?thesis using r by simp
qed

lemma eta_duration_lt:
  assumes "\<bar>e * 1000000000\<bar> \<le> 2 ^ 62" "e * 1000000000 \<le> of_int (d - 1)" "\<bar>d - 1\<bar> \<le> 2 ^ 53"
  shows "eta_duration a (Fin e) < d"
proof -
  obtain r where r: "rnd (e * 1000000000) = Fin r" "eta_duration a (Fin e) = rtrunc r"
    using eta_duration_range [OF assms(1)] by metis
  have "r \<le> of_int (d - 1)" using rnd_mono [OF assms(2)] rnd_of_int [OF assms(3)] r by simp
  then have "rtrunc r \<le> d - 1" unfolding rtrunc_def by (simp add: ceiling_le_iff) linarith
  then show ?thesis using r by simp
qed

lemma eta_duration_overflow:
  assumes "2 ^ 63 \<le> e * 1000000000"
  shows "eta_duration AMD64 (Fin e) = - (2 ^ 63)" "eta_duration ARM64 (Fin e) = 2 ^ 63 - 1"
proof -
  have f: "frep (2 ^ 63)" using frep_p2 [of 63] by (simp add: p2_def)
  have "Fin (2 ^ 63) \<le> rnd (e * 1000000000)" using rnd_mono [OF assms] rnd_rep [OF f] by simp
  then have "eta_duration AMD64 (Fin e) = - (2 ^ 63) \<and> eta_duration ARM64 (Fin e) = 2 ^ 63 - 1"
    by (cases "rnd (e * 1000000000)")
      (auto simp: eta_duration_def to_i64_def rtrunc_def i64_def floor_less_iff)
  then show "eta_duration AMD64 (Fin e) = - (2 ^ 63)" "eta_duration ARM64 (Fin e) = 2 ^ 63 - 1" by auto
qed

text \<open>
  The comparison of a time to exhaustion with a limit is right to the nanosecond as long as the product with
  \<open>10 ^ 9\<close> stays below \<open>2 ^ 62\<close> (146 years): a forecast at or beyond the limit never trips it, one at least a
  nanosecond short of it always does, on both platforms and despite the two roundings.
\<close>

lemma eta_below_spec:
  assumes "\<bar>e * 1000000000\<bar> \<le> 2 ^ 62" "0 \<le> d" "d \<le> 2 ^ 53"
  shows "(of_int d \<le> e * 1000000000 \<longrightarrow> \<not> eta_below a (Some (Fin e)) d)
       \<and> (e * 1000000000 \<le> of_int (d - 1) \<longrightarrow> eta_below a (Some (Fin e)) d)"
  using eta_duration_ge [OF assms(1), of d a] eta_duration_lt [OF assms(1), of d a] assms(2,3)
  by (simp add: eta_below_def not_less abs_le_iff)

lemma eta_below_spec_witness:
  "\<not> eta_below AMD64 (Some (Fin 21600)) (6 * hour) \<and> eta_below AMD64 (Some (Fin 21599)) (6 * hour)"
  using eta_below_spec [of 21600 "6 * hour" AMD64] eta_below_spec [of 21599 "6 * hour" AMD64] by simp

text \<open>
  Claim C6. Beyond the range of \<^verbatim>\<open>time.Duration\<close> the decision depends on the platform: a one-hour trend whose time to
  exhaustion is \<open>2 ^ 63\<close> ns or more (292 years, so no risk at all) makes the state critical on amd64, while
  arm64 does not raise it.
\<close>

theorem decide_overflow:
  assumes "EtaAggressive f = Some (Fin e)" "2 ^ 63 \<le> e * 1000000000" "0 \<le> CritEta (effective (Th inp))"
    and "CritEta (effective (Th inp)) < 2 ^ 63" "\<not> fle (CritRatio (effective (Th inp))) (Utilization f)" "PrevState inp \<noteq> Critical"
  shows "decide AMD64 f inp = (Critical, 0) \<and> fst (decide ARM64 f inp) \<noteq> Critical"
  using eta_duration_overflow [OF assms(2)] assms
  by (auto simp: decide_def eta_below_def Let_def)

subsection \<open>The exit hysteresis\<close>

datatype level = Quiet | Warn | Crit

definition level_of :: "arch \<Rightarrow> forecast \<Rightarrow> input \<Rightarrow> level" where
  "level_of a f inp =
     (let th = effective (Th inp) in
      if eta_below a (EtaAggressive f) (CritEta th) \<or> fle (CritRatio th) (Utilization f) then Crit
      else if eta_below a (EtaAggressive f) (WarnEta th) \<and> fle (SoftRatio th) (Utilization f)
              \<or> eta_below a (EtaConservative f) (WarnEta th) then Warn
      else Quiet)"

definition step_state :: "level \<Rightarrow> state \<times> int \<Rightarrow> state \<times> int" where
  "step_state l sk =
     (case l of Crit \<Rightarrow> (Critical, 0) | Warn \<Rightarrow> (Warning, 0)
      | Quiet \<Rightarrow> (if 2 \<le> wrap64 (snd sk + 1) \<or> fst sk = Healthy \<or> fst sk = Unset then Healthy else fst sk, wrap64 (snd sk + 1)))"

lemma decide_level: "decide a f inp = step_state (level_of a f inp) (PrevState inp, PrevExitStreak inp)"
  by (auto simp: decide_def level_of_def step_state_def Let_def DefaultExitPolls_def)

text \<open>What the state machine should show after a history of levels, the newest first.\<close>

fun shown :: "level list \<Rightarrow> state" where
  "shown [] = Healthy"
| "shown (Crit # _) = Critical"
| "shown (Warn # _) = Warning"
| "shown (Quiet # Crit # _) = Critical"
| "shown (Quiet # Warn # _) = Warning"
| "shown (Quiet # _) = Healthy"

definition hyst_ok :: "level list \<Rightarrow> state \<times> int \<Rightarrow> bool" where
  "hyst_ok ls sk \<longleftrightarrow> fst sk = shown ls \<and>
     (case ls of Quiet # Quiet # _ \<Rightarrow> True | Quiet # l # _ \<Rightarrow> snd sk = 1 | [Quiet] \<Rightarrow> True | [] \<Rightarrow> True | _ \<Rightarrow> snd sk = 0)"

lemma hyst_step: "hyst_ok ls sk \<Longrightarrow> hyst_ok (l # ls) (step_state l sk)"
  by (cases ls rule: shown.cases; cases l) (auto simp: hyst_ok_def step_state_def wrap64_def split: list.splits level.splits)

subsection \<open>The middle slope\<close>

interpretation slice: sorter sortSlice "\<lambda>x. x \<noteq> NaN"
proof
  show "mset (sortSlice xs) = mset xs" for xs by (simp add: sortSlice_def mset_swap_sort)
  show "sorted (sortSlice xs)" if "\<forall>x \<in> set xs. x \<noteq> NaN" for xs
    using that by (simp add: sortSlice_def swap_sort_eq_sort flt_def)
qed

text \<open>
  The hand-written insertion sort of the slopes is a sort: on slopes without NaN it returns what the
  library's \<open>sort\<close> returns, and on any input a permutation.
\<close>

theorem sortSlice_spec:
  "mset (sortSlice s) = mset s \<and> (NaN \<in> set s \<or> sortSlice s = sort s)"
  using slice.srt_eq_sort [of s] slice.mset_srt by metis

lemma beta_mem: "slopes \<noteq> [] \<Longrightarrow> sortSlice slopes ! (length slopes div 2) \<in> set slopes"
  by (intro slice.srt_nth_mem) (cases slopes, auto)

subsection \<open>Evaluation is total\<close>

lemma TheilSenSlope_ok: "2 \<le> mx \<Longrightarrow> int (length ss) \<le> 2 ^ 48 \<Longrightarrow> \<exists>r. TheilSenSlope a ss mx = Inr r"
  by (rule decimate_total [of mx ss a]) (auto simp: TheilSenSlope_def Let_def)

lemma length_run: "r \<in> set (SplitByGaps ss g) \<Longrightarrow> length r \<le> length ss"
proof -
  assume "r \<in> set (SplitByGaps ss g)"
  then have "length r \<le> sum_list (map length (SplitByGaps ss g))" by (intro member_le_sum_list) auto
  also have "\<dots> = length ss"
    using concat_split_gaps [of g "[]" ss] by (simp add: SplitByGaps_def flip: length_concat)
  finally show ?thesis .
qed

lemma run_slope_ok:
  "int (length ss) \<le> 2 ^ 48 \<Longrightarrow> r \<in> set (SplitByGaps ss g) \<Longrightarrow> \<exists>p. run_slope a ols r = Inr p"
  using TheilSenSlope_ok [of 100 r a] length_run [of r ss g] by (simp add: run_slope_def)

lemma res_all_ok: "(\<And>x. x \<in> set xs \<Longrightarrow> \<exists>y. f x = Inr y) \<Longrightarrow> \<exists>ys. res_all f xs = Inr ys"
  using res_all_cong [of xs f "\<lambda>x. projr (f x)"] by force

definition short_series :: "input \<Rightarrow> bool" where
  "short_series inp \<longleftrightarrow> (\<forall>w. int (length (samples_of inp w)) \<le> 2 ^ 48)"

lemma evalWindow_ok: "short_series inp \<Longrightarrow> \<exists>ev. evalWindow a w inp j = Inr ev"
proof -
  assume s: "short_series inp"
  obtain rs where "res_all (run_slope a (UseOLS inp)) (SplitByGaps (samples_of inp w) (5 * minute)) = Inr rs"
    using res_all_ok [of "SplitByGaps (samples_of inp w) (5 * minute)" "run_slope a (UseOLS inp)"] run_slope_ok s
    by (metis short_series_def)
  then show ?thesis by (simp add: evalWindow_def Let_def)
qed

lemma evalWindow_Window: "evalWindow a w inp j = Inr ev \<Longrightarrow> Window ev = w"
  by (auto simp: evalWindow_def new_eval_def Let_def res_bind_Inr split: if_splits)

lemma evalWindow_jumped: "evalWindow a w inp True = Inr ev \<Longrightarrow> ETA ev = None \<and> Slope ev = None \<and> \<not> Valid ev"
  by (auto simp: evalWindow_def new_eval_def Let_def split: if_splits)

definition win :: "arch \<Rightarrow> input \<Rightarrow> duration \<Rightarrow> window_eval" where
  "win a inp w = projr (evalWindow a w inp (jumped inp))"

lemma res_all_map: "res_all f xs = Inr ys \<Longrightarrow> ys = map (\<lambda>x. projr (f x)) xs"
  by (induction xs arbitrary: ys) (auto simp: res_bind_Inr)

lemma foldl_PerWindow:
  "(\<And>w. w \<in> set ws \<Longrightarrow> Window (ev w) = w) \<Longrightarrow>
   foldl (\<lambda>m e. m(Window e \<mapsto> e)) m (map ev ws) = (\<lambda>w. if w \<in> set ws then Some (ev w) else m w)"
  by (induction ws arbitrary: m) (auto simp: fun_eq_iff)

lemma aggressive_eq:
  "(\<And>w. w \<in> set ws \<Longrightarrow> Window (ev w) = w) \<Longrightarrow>
   aggressive (map ev ws) e = (if hour \<in> set ws then ETA (ev hour) else e)"
  unfolding aggressive_def by (induction ws arbitrary: e) auto

lemma conservative_eq:
  "snd (conservative pw ws (l, e))
     = (if \<exists>w \<in> set ws. l < w then Option.bind (pw (Max (set ws))) ETA else e)"
proof (induction ws arbitrary: l e)
  case Nil
  then show ?case by (simp add: conservative_def)
next
  case (Cons w ws)
  have step: "conservative pw (w # ws) (l, e)
      = conservative pw ws (if l < w then (w, Option.bind (pw w) ETA) else (l, e))"
    by (simp add: conservative_def)
  show ?case
  proof (cases "l < w")
    case True
    show ?thesis
    proof (cases "\<exists>v \<in> set ws. w < v")
      case True
      then have "Max (set (w # ws)) = Max (set ws)"
        by (metis List.finite_set Max.insert_not_elem Max_ge list.set(2) max.absorb2 less_le_trans less_imp_le empty_iff insert_absorb)
      then show ?thesis using True \<open>l < w\<close> by (auto simp: step Cons.IH)
    next
      case False
      then have "Max (set (w # ws)) = w" by (intro Max_eqI) (auto simp: not_less)
      then show ?thesis using False \<open>l < w\<close> by (auto simp: step Cons.IH)
    qed
  next
    case False
    show ?thesis
    proof (cases "\<exists>v \<in> set ws. l < v")
      case True
      then obtain v where "v \<in> set ws" "w < v" using False by force
      then have "Max (set (w # ws)) = Max (set ws)"
        by (metis List.finite_set Max.insert_not_elem Max_ge list.set(2) max.absorb2 less_le_trans less_imp_le empty_iff insert_absorb)
      then show ?thesis using True False by (auto simp: step Cons.IH)
    next
      case n: False
      then show ?thesis using False by (auto simp: step Cons.IH)
    qed
  qed
qed

lemma build_forecast_sel:
  fixes a inp ws
  assumes W: "\<And>w. w \<in> set (horizons_of inp) \<Longrightarrow> Window (win a inp w) = w"
  defines "f \<equiv> build_forecast a inp (map (win a inp) (horizons_of inp))"
  shows "PerWindow f = (\<lambda>w. if w \<in> set (horizons_of inp) then Some (win a inp w) else None)"
    and "EtaAggressive f = (if hour \<in> set (horizons_of inp) then ETA (win a inp hour) else None)"
    and "EtaConservative f = (if \<exists>w \<in> set (horizons_of inp). 0 < w then ETA (win a inp (Max (set (horizons_of inp)))) else None)"
    and "Utilization f = fdiv (Value inp) (Ceiling inp)" "Headroom f = f_headroom inp" "F_CeilingJumped f = jumped inp"
    and "(F_State f, ExitStreak f) = decide a f inp"
proof -
  have pw: "foldl (\<lambda>m e. m(Window e \<mapsto> e)) Map.empty (map (win a inp) (horizons_of inp))
      = (\<lambda>w. if w \<in> set (horizons_of inp) then Some (win a inp w) else None)"
    using W by (rule foldl_PerWindow)
  have ag: "aggressive (map (win a inp) (horizons_of inp)) None = (if hour \<in> set (horizons_of inp) then ETA (win a inp hour) else None)"
    using W by (rule aggressive_eq)
  note f = f_def [unfolded build_forecast_def pw ag conservative_eq Let_def]
  show "PerWindow f = (\<lambda>w. if w \<in> set (horizons_of inp) then Some (win a inp w) else None)"
    "EtaAggressive f = (if hour \<in> set (horizons_of inp) then ETA (win a inp hour) else None)"
    "Utilization f = fdiv (Value inp) (Ceiling inp)" "Headroom f = f_headroom inp" "F_CeilingJumped f = jumped inp"
    unfolding f by (simp_all add: split_beta f_headroom_def)
  have "Max (set (horizons_of inp)) \<in> set (horizons_of inp)"
    by (intro Max_in) (auto simp: horizons_of_def DefaultHorizons_def)
  then show "EtaConservative f = (if \<exists>w \<in> set (horizons_of inp). 0 < w then ETA (win a inp (Max (set (horizons_of inp)))) else None)"
    unfolding f by (simp add: split_beta)
  show "(F_State f, ExitStreak f) = decide a f inp"
    unfolding f by (simp add: split_beta) (simp add: decide_def)
qed

lemma Evaluate_Inr:
  "Evaluate a inp = Inr f \<longleftrightarrow>
     (Th inp = zeroThresholds \<or> validate (Th inp) = Inr ()) \<and> D_ID (Def inp) \<noteq> [] \<and> \<not> fle (Ceiling inp) (Fin 0)
     \<and> (\<forall>w \<in> set (horizons_of inp). evalWindow a w inp (jumped inp) = Inr (win a inp w))
     \<and> f = build_forecast a inp (map (win a inp) (horizons_of inp))"
proof -
  have "res_all (\<lambda>w. evalWindow a w inp (jumped inp)) (horizons_of inp) = Inr evs \<longleftrightarrow>
      (\<forall>w \<in> set (horizons_of inp). evalWindow a w inp (jumped inp) = Inr (win a inp w)) \<and> evs = map (win a inp) (horizons_of inp)" for evs
    using res_all_map [of "\<lambda>w. evalWindow a w inp (jumped inp)" "horizons_of inp" evs]
    by (auto simp: res_all_Inr list_all2_conv_all_nth win_def all_set_conv_all_nth)
  then show ?thesis unfolding Evaluate_def by (auto simp: res_bind_Inr)
qed

lemma Evaluate_sel:
  assumes "Evaluate a inp = Inr f"
  shows "PerWindow f = (\<lambda>w. if w \<in> set (horizons_of inp) then Some (win a inp w) else None)"
    and "EtaAggressive f = (if hour \<in> set (horizons_of inp) then ETA (win a inp hour) else None)"
    and "EtaConservative f = (if \<exists>w \<in> set (horizons_of inp). 0 < w then ETA (win a inp (Max (set (horizons_of inp)))) else None)"
    and "Utilization f = fdiv (Value inp) (Ceiling inp)" "Headroom f = f_headroom inp" "F_CeilingJumped f = jumped inp"
    and "(F_State f, ExitStreak f) = decide a f inp"
proof -
  have f: "f = build_forecast a inp (map (win a inp) (horizons_of inp))"
    and W: "\<And>w. w \<in> set (horizons_of inp) \<Longrightarrow> Window (win a inp w) = w"
    using assms evalWindow_Window unfolding Evaluate_Inr by blast+
  show "PerWindow f = (\<lambda>w. if w \<in> set (horizons_of inp) then Some (win a inp w) else None)"
    "EtaAggressive f = (if hour \<in> set (horizons_of inp) then ETA (win a inp hour) else None)"
    "EtaConservative f = (if \<exists>w \<in> set (horizons_of inp). 0 < w then ETA (win a inp (Max (set (horizons_of inp)))) else None)"
    "Utilization f = fdiv (Value inp) (Ceiling inp)" "Headroom f = f_headroom inp" "F_CeilingJumped f = jumped inp"
    "(F_State f, ExitStreak f) = decide a f inp"
    unfolding f by (rule build_forecast_sel, rule W, assumption)+
qed


text \<open>
  Claim C4. The evaluation never panics: on series of up to \<open>2 ^ 48\<close> samples it fails exactly when the thresholds are
  inconsistent, the id is empty or the ceiling is not positive, and otherwise returns a forecast.
\<close>

theorem Evaluate_total:
  assumes "short_series inp"
  shows "Evaluate a inp \<noteq> Inl Panic \<and> ((\<exists>f. Evaluate a inp = Inr f) \<longleftrightarrow>
           (Th inp = zeroThresholds \<or> flt (SoftRatio (Th inp)) (CritRatio (Th inp)) \<and> CritEta (Th inp) < WarnEta (Th inp))
           \<and> D_ID (Def inp) \<noteq> [] \<and> \<not> fle (Ceiling inp) (Fin 0))"
proof -
  have w: "evalWindow a w inp (jumped inp) = Inr (win a inp w)" for w
    using evalWindow_ok [OF assms, of a w "jumped inp"] by (auto simp: win_def)
  then have "Evaluate a inp \<noteq> Inl Panic"
    by (auto simp: Evaluate_def validate_def res_all_cong [where g = "win a inp"])
  then show ?thesis using w by (simp add: Evaluate_Inr validate_ok)
qed

text \<open>
  The two reported times to exhaustion are those of the windows they stand for: the aggressive one is the
  one-hour window's (none without such a window), the conservative one the longest window's.
\<close>

lemma Evaluate_etas:
  assumes "Evaluate a inp = Inr f" "\<forall>w \<in> set (horizons_of inp). 0 < w"
  shows "EtaAggressive f = Option.bind (PerWindow f hour) ETA
       \<and> EtaConservative f = Option.bind (PerWindow f (Max (set (horizons_of inp)))) ETA
       \<and> PerWindow f (Max (set (horizons_of inp))) \<noteq> None"
proof -
  have ne: "set (horizons_of inp) \<noteq> {}" by (auto simp: horizons_of_def DefaultHorizons_def)
  then have "Max (set (horizons_of inp)) \<in> set (horizons_of inp)" by (intro Max_in) auto
  then show ?thesis using assms(2) ne by (auto simp: Evaluate_sel [OF assms(1)])
qed

text \<open>
  A ceiling jump suppresses every extrapolation: no window has a slope or a time to exhaustion in that
  round, and the state is critical only because of the utilisation itself.
\<close>

lemma Evaluate_jump:
  assumes "Evaluate a inp = Inr f" "CeilingJumped (PrevCeiling inp) (Ceiling inp)"
  shows "EtaAggressive f = None \<and> EtaConservative f = None \<and> F_CeilingJumped f
       \<and> (\<forall>w ev. PerWindow f w = Some ev \<longrightarrow> Slope ev = None \<and> ETA ev = None)
       \<and> (F_State f = Critical \<longrightarrow> fle (CritRatio (effective (Th inp))) (Utilization f) \<or> PrevState inp = Critical)"
proof -
  have j: "jumped inp" using assms(2) by (simp add: jumped_def)
  have w: "ETA (win a inp w) = None \<and> Slope (win a inp w) = None" if "w \<in> set (horizons_of inp)" for w
    using assms(1) that j evalWindow_jumped unfolding Evaluate_Inr by metis
  have "Max (set (horizons_of inp)) \<in> set (horizons_of inp)"
    by (intro Max_in) (auto simp: horizons_of_def DefaultHorizons_def)
  then have e: "EtaAggressive f = None" "EtaConservative f = None" using w by (auto simp: Evaluate_sel [OF assms(1)])
  have "F_State f = Critical \<Longrightarrow> fle (CritRatio (effective (Th inp))) (Utilization f) \<or> PrevState inp = Critical"
    using Evaluate_sel(7) [OF assms(1)] e by (auto simp: decide_def eta_below_def Let_def split: if_splits)
  then show ?thesis using e w j by (auto simp: Evaluate_sel [OF assms(1)])
qed

lemma exhausted_critical:
  assumes "Evaluate a inp = Inr f" "Value inp = Fin v" "Ceiling inp = Fin c" "c \<le> v"
    and "fle (CritRatio (effective (Th inp))) (Fin 1)"
  shows "F_State f = Critical \<and> ExitStreak f = 0"
proof -
  have c: "0 < c" using assms(1,3) unfolding Evaluate_Inr by auto
  then have "1 \<le> v / c" using assms(4) by simp
  then have "Fin 1 \<le> Utilization f"
    using rnd_mono [of 1 "v / c"] c by (simp add: Evaluate_sel [OF assms(1)] assms(2,3))
  then have "fle (CritRatio (effective (Th inp))) (Utilization f)"
    using assms(5) order_trans [of _ "Fin 1" "Utilization f"] by (cases "Utilization f = NaN") (auto simp: fle_def)
  then show ?thesis using Evaluate_sel(7) [OF assms(1)] by (simp add: decide_def)
qed

text \<open>
  An exhausted budget is critical: once the (finite) value has reached the ceiling, every successful
  evaluation with a critical ratio of at most 1 answers critical, whatever the samples and the history.
\<close>

lemma Evaluate_exhausted:
  assumes "Evaluate a inp = Inr f" "Value inp = Fin v" "Ceiling inp = Fin c" "c \<le> v"
    and "fle (CritRatio (effective (Th inp))) (Fin 1)"
  shows "F_State f = Critical \<and> ExitStreak f = 0"
  using assms by (rule exhausted_critical)

subsection \<open>Concrete evaluations\<close>

definition inp0 :: "rat \<Rightarrow> rat \<Rightarrow> rat \<Rightarrow> input" where
  "inp0 v c p = \<lparr>Def = \<lparr>D_ID = ''disk'', D_ValueQuery = ''v'', D_CeilingQuery = ''c'', Horizons = []\<rparr>, Now = 0,
     Value = Fin v, Ceiling = Fin c, PrevCeiling = Fin p, Samples = Map.empty, Interval = minute,
     PrevState = Healthy, PrevExitStreak = 0, Th = zeroThresholds, UseOLS = False\<rparr>"

lemma inp0_ok: "0 < c \<Longrightarrow> Evaluate a (inp0 v c p) = Inr (build_forecast a (inp0 v c p) (map (win a (inp0 v c p)) DefaultHorizons))"
proof -
  assume "0 < c"
  moreover have "short_series (inp0 v c p)" by (simp add: short_series_def samples_of_def inp0_def)
  then have "evalWindow a w (inp0 v c p) (jumped (inp0 v c p)) = Inr (win a (inp0 v c p) w)" for w
    using evalWindow_ok [of "inp0 v c p" a w "jumped (inp0 v c p)"] by (auto simp: win_def)
  ultimately show ?thesis unfolding Evaluate_Inr by (simp add: horizons_of_def) (simp add: inp0_def)
qed

lemma jump_example: "CeilingJumped (Fin 100) (Fin 200)"
  by (simp add: CeilingJumped_def rnd_cent)

theorem Evaluate_total_witness:
  "\<exists>f. Evaluate AMD64 (inp0 1 100 0) = Inr f"
  using Evaluate_total [of "inp0 1 100 0" AMD64] by (simp add: short_series_def samples_of_def inp0_def)

lemma Evaluate_etas_witness:
  "\<exists>f. Evaluate AMD64 (inp0 1 100 0) = Inr f \<and> EtaAggressive f = Option.bind (PerWindow f hour) ETA
     \<and> EtaConservative f = Option.bind (PerWindow f (Max (set (horizons_of (inp0 1 100 0))))) ETA
     \<and> PerWindow f (Max (set (horizons_of (inp0 1 100 0)))) \<noteq> None"
  using Evaluate_etas [OF inp0_ok [of 100 AMD64 1 0]] inp0_ok [of 100 AMD64 1 0]
  by (simp add: horizons_of_def inp0_def DefaultHorizons_def)

lemma Evaluate_jump_witness:
  "\<exists>f. Evaluate AMD64 (inp0 1 200 100) = Inr f \<and> EtaAggressive f = None \<and> EtaConservative f = None \<and> F_CeilingJumped f"
proof -
  have j: "CeilingJumped (PrevCeiling (inp0 1 200 100)) (Ceiling (inp0 1 200 100))" using jump_example by (simp add: inp0_def)
  have ok: "Evaluate AMD64 (inp0 1 200 100) = Inr (build_forecast AMD64 (inp0 1 200 100) (map (win AMD64 (inp0 1 200 100)) DefaultHorizons))"
    by (rule inp0_ok) simp
  show ?thesis using Evaluate_jump [OF ok j] ok by blast
qed

lemma Evaluate_exhausted_witness:
  "\<exists>f. Evaluate AMD64 (inp0 100 100 0) = Inr f \<and> F_State f = Critical \<and> ExitStreak f = 0"
proof -
  have ok: "Evaluate AMD64 (inp0 100 100 0) = Inr (build_forecast AMD64 (inp0 100 100 0) (map (win AMD64 (inp0 100 100 0)) DefaultHorizons))"
    by (rule inp0_ok) simp
  have "fle (CritRatio (effective (Th (inp0 100 100 0)))) (Fin 1)"
    by (simp add: inp0_def effective_def DefaultThresholds_def rnd_19_20)
  then show ?thesis using Evaluate_exhausted [OF ok, of 100 100] ok by (simp add: inp0_def)
qed

theorem decide_overflow_witness:
  "\<exists>f inp. decide AMD64 f inp = (Critical, 0) \<and> fst (decide ARM64 f inp) \<noteq> Critical"
proof -
  let ?f = "(build_forecast AMD64 (inp0 1 100 0) [])\<lparr>EtaAggressive := Some (Fin (10 ^ 11)), Utilization := Fin 0\<rparr>"
  have "decide AMD64 ?f (inp0 1 100 0) = (Critical, 0) \<and> fst (decide ARM64 ?f (inp0 1 100 0)) \<noteq> Critical"
    by (rule decide_overflow [where e = "10 ^ 11"])
      (simp_all add: inp0_def effective_def DefaultThresholds_def rnd_19_20)
  then show ?thesis by blast
qed

end
