(* ===== verification/Capacity.thy ===== *)
theory Capacity
  imports Evaluate Promdur Files
begin

text \<open>
  \<^verbatim>\<open>internal/capacity\<close>: definitions of capacity sensors (\<^verbatim>\<open>defs.go\<close>) and the polled sensor with its state
  across rounds (\<^verbatim>\<open>sensor.go\<close>). The metrics source and the clock are arguments of a poll.
\<close>

record overlay =
  O_WarnEta :: "string option"
  O_CritEta :: "string option"
  O_SoftRatio :: "f64 option"
  O_CritRatio :: "f64 option"

record capdef =
  C_ID :: string
  C_Desc :: string
  C_Value :: string
  C_Ceiling :: string
  C_Horizons :: "duration list"
  C_Thresholds :: "overlay option"
  C_Service :: string
  C_Scope :: string
  C_Cluster :: string

definition PromDuration_Unmarshal :: "arch \<Rightarrow> string \<Rightarrow> duration res" where
  "PromDuration_Unmarshal a value =
     (let d = Parse a value in
      if d \<le> 0 \<and> value \<noteq> [] \<and> value \<noteq> ''0'' then Inl (Err value) else Inr d)"

definition HorizonDurations :: "capdef \<Rightarrow> duration list" where
  "HorizonDurations d = (if C_Horizons d = [] then DefaultHorizons else C_Horizons d)"

definition parsed_or :: "arch \<Rightarrow> string option \<Rightarrow> duration \<Rightarrow> duration" where
  "parsed_or a v dflt = (case v of None \<Rightarrow> dflt | Some s \<Rightarrow> (let d = Parse a s in if d > 0 then d else dflt))"

definition Resolve :: "arch \<Rightarrow> overlay option \<Rightarrow> thresholds" where
  "Resolve a ov =
     (let th = DefaultThresholds in
      case ov of None \<Rightarrow> th
      | Some x \<Rightarrow> th\<lparr>WarnEta := parsed_or a (O_WarnEta x) (WarnEta th), CritEta := parsed_or a (O_CritEta x) (CritEta th),
                    SoftRatio := (case O_SoftRatio x of None \<Rightarrow> SoftRatio th | Some r \<Rightarrow> r),
                    CritRatio := (case O_CritRatio x of None \<Rightarrow> CritRatio th | Some r \<Rightarrow> r)\<rparr>)"

definition check_def :: "capdef \<Rightarrow> capdef res" where
  "check_def d = (if C_ID d = [] then Inl (Err ''id'')
     else if C_Value d = [] \<or> C_Ceiling d = [] then Inl (Err (C_ID d)) else Inr d)"

definition LoadDefs :: "filesys \<Rightarrow> (string \<Rightarrow> capdef list res) \<Rightarrow> string \<Rightarrow> capdef list res" where
  "LoadDefs fs unmarshal path = load_defs fs unmarshal check_def path"

subsection \<open>The sensor\<close>

record sensor =
  S_def :: capdef
  S_step :: duration
  S_prevCeiling :: f64
  S_prevState :: state
  S_streak :: int
  S_started :: bool

definition New :: "capdef \<Rightarrow> sensor res" where
  "New d = (if C_Value d = [] \<or> C_Ceiling d = [] then Inl (Err (C_ID d))
     else Inr \<lparr>S_def = d, S_step = minute, S_prevCeiling = Fin 0, S_prevState = Healthy, S_streak = 0, S_started = False\<rparr>)"

fun first_value :: "qresult list \<Rightarrow> f64 option" where
  "first_value [] = None"
| "first_value (r # rs) = (if r_samples r \<noteq> [] then Some (s_value (last (r_samples r))) else first_value rs)"

definition instant :: "source \<Rightarrow> string \<Rightarrow> time \<Rightarrow> f64 res" where
  "instant src q t =
     res_bind (InstantQuery src q t) (\<lambda>rs. case first_value rs of None \<Rightarrow> Inl (Err q) | Some v \<Rightarrow> Inr v)"

definition fetch_series :: "source \<Rightarrow> string \<Rightarrow> time \<Rightarrow> duration \<Rightarrow> duration list \<Rightarrow> (duration \<rightharpoonup> sample list) res" where
  "fetch_series src q now step ws =
     res_bind (res_all (\<lambda>w. res_bind (RangeQuery src q (now + wrap64 (- w)) now step) (\<lambda>rs. Inr (w, rs))) ws)
       (\<lambda>rss. Inr (foldl (\<lambda>m (w, rs). case rs of [] \<Rightarrow> m | r # _ \<Rightarrow> m(w \<mapsto> r_samples r)) Map.empty rss))"

definition sensor_input :: "arch \<Rightarrow> sensor \<Rightarrow> time \<Rightarrow> f64 \<Rightarrow> f64 \<Rightarrow> (duration \<rightharpoonup> sample list) \<Rightarrow> input" where
  "sensor_input a s now value ceil samples =
     \<lparr>Def = \<lparr>D_ID = C_ID (S_def s), D_ValueQuery = [], D_CeilingQuery = [], Horizons = HorizonDurations (S_def s)\<rparr>,
      Now = now, Value = value, Ceiling = ceil, PrevCeiling = S_prevCeiling s, Samples = samples,
      Interval = S_step s, PrevState = S_prevState s, PrevExitStreak = S_streak s,
      Th = Resolve a (C_Thresholds (S_def s)), UseOLS = False\<rparr>"

definition poll_input :: "arch \<Rightarrow> source \<Rightarrow> time \<Rightarrow> sensor \<Rightarrow> input res" where
  "poll_input a src now s =
     res_bind (instant src (C_Value (S_def s)) now) (\<lambda>value.
     res_bind (instant src (C_Ceiling (S_def s)) now) (\<lambda>ceil.
     res_bind (fetch_series src (C_Value (S_def s)) now (S_step s) (HorizonDurations (S_def s))) (\<lambda>samples.
       Inr (sensor_input a s now value ceil samples))))"

definition Poll :: "arch \<Rightarrow> source \<Rightarrow> time \<Rightarrow> sensor \<Rightarrow> forecast res \<times> sensor" where
  "Poll a src now s =
     (case res_bind (poll_input a src now s) (\<lambda>inp. res_bind (Evaluate a inp) (\<lambda>f. Inr (inp, f))) of
        Inl e \<Rightarrow> (Inl e, s)
      | Inr (inp, f) \<Rightarrow>
          (Inr f, s\<lparr>S_started := True, S_prevCeiling := Ceiling inp, S_prevState := F_State f, S_streak := ExitStreak f\<rparr>))"

subsection \<open>Runs of polls\<close>

text \<open>The levels of the successful rounds, the newest first.\<close>

fun poll_run :: "arch \<Rightarrow> (source \<times> time) list \<Rightarrow> sensor \<times> level list \<Rightarrow> sensor \<times> level list" where
  "poll_run a [] (s, ls) = (s, ls)"
| "poll_run a ((src, now) # ps) (s, ls) =
     poll_run a ps (case (poll_input a src now s, Poll a src now s) of
        (Inr inp, (Inr f, s')) \<Rightarrow> (s', level_of a f inp # ls)
      | (_, (_, s')) \<Rightarrow> (s', ls))"

lemma Poll_Inr: "Poll a src now s = (Inr f, s') \<longleftrightarrow>
    (\<exists>inp. poll_input a src now s = Inr inp \<and> Evaluate a inp = Inr f
       \<and> s' = s\<lparr>S_started := True, S_prevCeiling := Ceiling inp, S_prevState := F_State f, S_streak := ExitStreak f\<rparr>)"
  by (auto simp: Poll_def res_bind_Inr split: sum.splits)

lemma Poll_Inl: "Poll a src now s = (Inl e, s') \<Longrightarrow> s' = s"
  by (auto simp: Poll_def split: sum.splits)

lemma poll_input_prev: "poll_input a src now s = Inr inp \<Longrightarrow>
    PrevState inp = S_prevState s \<and> PrevExitStreak inp = S_streak s \<and> PrevCeiling inp = S_prevCeiling s"
  by (auto simp: poll_input_def res_bind_Inr sensor_input_def)

lemma poll_hyst:
  assumes "hyst_ok ls (S_prevState s, S_streak s)" "poll_run a ps (s, ls) = (s', ls')"
  shows "hyst_ok ls' (S_prevState s', S_streak s')"
  using assms
proof (induction a ps "(s, ls)" arbitrary: s ls rule: poll_run.induct)
  case (2 a src now ps s ls)
  show ?case
  proof (cases "Poll a src now s")
    case (Pair r t)
    show ?thesis
    proof (cases r)
      case (Inl e)
      then have "t = s" using Pair Poll_Inl by blast
      then have "poll_run a ps (s, ls) = (s', ls')" using 2(3) Pair Inl by (auto split: sum.splits)
      then show ?thesis using 2 Pair Inl \<open>t = s\<close> by (auto split: sum.splits)
    next
      case (Inr f)
      then obtain inp where inp: "poll_input a src now s = Inr inp" "Evaluate a inp = Inr f"
        "t = s\<lparr>S_started := True, S_prevCeiling := Ceiling inp, S_prevState := F_State f, S_streak := ExitStreak f\<rparr>"
        using Pair Poll_Inr by blast
      have "(F_State f, ExitStreak f) = step_state (level_of a f inp) (S_prevState s, S_streak s)"
        using Evaluate_sel(7) [OF inp(2)] poll_input_prev [OF inp(1)] by (simp add: decide_level)
      then have "hyst_ok (level_of a f inp # ls) (S_prevState t, S_streak t)"
        using hyst_step [OF 2(2)] inp(3) by simp
      then show ?thesis using 2(1) 2(3) Pair Inr inp(1) by simp
    qed
  qed
qed simp

subsection \<open>Properties\<close>

text \<open>
  Claim C2. Exit hysteresis over whole runs: after any sequence of polls of a new sensor, failed polls included, the state it
  keeps is the one read off the levels of its successful rounds: the level of the last round if that raised an
  alarm, the alarm before it if only the last round was quiet, and healthy after two quiet rounds (or none at all).
\<close>

theorem Sensor_hysteresis:
  assumes "New d = Inr s" "poll_run a ps (s, []) = (s', ls)"
  shows "S_prevState s' = shown ls"
proof -
  have "hyst_ok [] (S_prevState s, S_streak s)"
    using assms(1) by (auto simp: New_def hyst_ok_def split: if_splits)
  from poll_hyst [OF this assms(2)] show ?thesis by (simp add: hyst_ok_def)
qed

lemma CeilingJumped_same [simp]: "\<not> CeilingJumped c c"
  by (cases c) (auto simp: CeilingJumped_def fsub_def fadd_def fneg_def fdiv_def rnd_cent finf_def fabs_def)

text \<open>
  The suppression after a ceiling jump lasts one round: a poll that finds the ceiling of the previous successful poll
  never flags a jump, so slopes over samples from before the jump count again from the second round on.
\<close>

lemma Poll_jump_one_round:
  assumes "Poll a src now s = (Inr f, s')" "Poll a src' now' s' = (Inr f', s'')" "F_Ceiling f' = F_Ceiling f"
  shows "\<not> F_CeilingJumped f'"
proof -
  obtain inp where i: "Evaluate a inp = Inr f" "S_prevCeiling s' = Ceiling inp" using assms(1) unfolding Poll_Inr by auto
  obtain inp' where i': "poll_input a src' now' s' = Inr inp'" "Evaluate a inp' = Inr f'" using assms(2) unfolding Poll_Inr by auto
  have c: "F_Ceiling f = Ceiling inp" "F_Ceiling f' = Ceiling inp'"
    using i(1) i'(2) unfolding Evaluate_Inr by (auto simp: build_forecast_def Let_def split_beta)
  have "PrevCeiling inp' = Ceiling inp'" using poll_input_prev [OF i'(1)] i(2) c assms(3) by simp
  then show ?thesis using Evaluate_sel(6) [OF i'(2)] by (simp add: jumped_def)
qed

text \<open>A source that answers two instant queries and has no series, for the concrete polls below.\<close>

definition src0 :: "rat \<Rightarrow> rat \<Rightarrow> source" where
  "src0 v c = \<lparr>InstantQuery = (\<lambda>q t. Inr [\<lparr>r_labels = Map.empty, r_samples = [pt 0 (if q = ''v'' then v else c)]\<rparr>]),
     RangeQuery = (\<lambda>q s e d. Inr [])\<rparr>"

definition def0 :: capdef where
  "def0 = \<lparr>C_ID = ''disk'', C_Desc = [], C_Value = ''v'', C_Ceiling = ''c'', C_Horizons = [], C_Thresholds = None,
     C_Service = [], C_Scope = [], C_Cluster = []\<rparr>"

definition sen0 :: "f64 \<Rightarrow> sensor" where
  "sen0 c = \<lparr>S_def = def0, S_step = minute, S_prevCeiling = c, S_prevState = Healthy, S_streak = 0, S_started = False\<rparr>"

lemma Poll_src0: "0 < c \<Longrightarrow> S_def s = def0 \<Longrightarrow> \<exists>f s'. Poll a (src0 v c) now s = (Inr f, s') \<and> F_Ceiling f = Fin c \<and> F_Value f = Fin v \<and> S_def s' = def0"
proof -
  assume c: "0 < c" "S_def s = def0"
  define inp where "inp = sensor_input a s now (Fin v) (Fin c) Map.empty"
  have "poll_input a (src0 v c) now s = Inr inp"
    using c by (simp add: poll_input_def instant_def src0_def def0_def fetch_series_def HorizonDurations_def DefaultHorizons_def
      inp_def pt_def)
  moreover have "short_series inp" by (simp add: short_series_def samples_of_def inp_def sensor_input_def)
  then have "evalWindow a w inp (jumped inp) = Inr (win a inp w)" for w
    using evalWindow_ok [of inp a w "jumped inp"] by (auto simp: win_def)
  then have "Evaluate a inp = Inr (build_forecast a inp (map (win a inp) (horizons_of inp)))"
    using c unfolding Evaluate_Inr
    by (simp add: inp_def sensor_input_def def0_def Resolve_def Let_def validate_default)
  moreover have "F_Ceiling (build_forecast a inp (map (win a inp) (horizons_of inp))) = Fin c"
    "F_Value (build_forecast a inp (map (win a inp) (horizons_of inp))) = Fin v"
    by (simp_all add: build_forecast_def Let_def split_beta inp_def sensor_input_def)
  ultimately show ?thesis using c by (auto simp: Poll_Inr)
qed

theorem Sensor_hysteresis_witness:
  "\<exists>s' ls. poll_run AMD64 [(src0 99 100, 0), (src0 1 100, minute)] (sen0 (Fin 0), []) = (s', ls) \<and> S_prevState s' = shown ls"
proof -
  have "New def0 = Inr (sen0 (Fin 0))" by (simp add: New_def def0_def sen0_def)
  then show ?thesis using Sensor_hysteresis by (metis surj_pair)
qed

lemma Poll_jump_one_round_witness:
  "\<exists>f s' f' s''. Poll AMD64 (src0 1 200) 0 (sen0 (Fin 100)) = (Inr f, s')
     \<and> Poll AMD64 (src0 1 200) minute s' = (Inr f', s'') \<and> \<not> F_CeilingJumped f'"
proof -
  obtain f s' where 1: "Poll AMD64 (src0 1 200) 0 (sen0 (Fin 100)) = (Inr f, s')" "F_Ceiling f = Fin 200" "S_def s' = def0"
    using Poll_src0 [of 200 "sen0 (Fin 100)" AMD64 1 0] by (auto simp: sen0_def)
  obtain f' s'' where 2: "Poll AMD64 (src0 1 200) minute s' = (Inr f', s'')" "F_Ceiling f' = Fin 200"
    using Poll_src0 [of 200 s' AMD64 1 minute] 1 by auto
  show ?thesis using Poll_jump_one_round [OF 1(1) 2(1)] 1 2 by auto
qed

end
