(* ===== verification/GoFormat.thy ===== *)
theory GoFormat
  imports GoTime GoStrings
begin

text \<open>
  Formatting and parsing of times (\<^verbatim>\<open>2006-01-02\<close>, \<^verbatim>\<open>time.RFC3339\<close>, \<^verbatim>\<open>time.RFC3339Nano\<close>, in UTC) and of
  floats (\<^verbatim>\<open>%.nf\<close>, rounded to nearest even on the exact value as Go does).

  Main results: reading back a written time (\<open>parse_nano_fmt\<close>), and that the order of written times is the order
  of the times as soon as the seconds differ (\<open>fmt_nano_less\<close>).
\<close>

subsection \<open>Padded numbers\<close>

definition pad :: "nat \<Rightarrow> nat \<Rightarrow> string" where
  "pad w n = replicate (w - length (dec n)) (CHR ''0'') @ dec n"

lemma digits_val_zeros: "digits_val (replicate k (CHR ''0'') @ ds) 0 = digits_val ds 0"
  by (induction k) (auto simp: digit_val_def)

lemma digits_val_pad [simp]: "digits_val (pad w n) 0 = n"
  by (simp add: pad_def digits_val_zeros dec_spec)

lemma is_digit_0: "is_digit (CHR ''0'')"
  by (simp add: is_digit_def less_eq_char_def)

lemma pad_digits: "list_all is_digit (pad w n)"
  unfolding pad_def list_all_append using dec_spec(2) [of n] is_digit_0 by (simp add: list_all_iff)

lemma dec_acc_length: "n < 10 ^ w \<Longrightarrow> 0 < w \<Longrightarrow> length (dec_acc n acc) \<le> w + length acc"
proof (induction n acc arbitrary: w rule: dec_acc.induct)
  case (1 n acc)
  show ?case
  proof (cases "n < 10")
    case True
    then show ?thesis using 1 by (simp add: dec_acc.simps [of n])
  next
    case False
    obtain v where v: "w = Suc v" "0 < v" using 1(2,3) False by (cases w; cases "w - 1") auto
    have "n div 10 < 10 ^ v" using 1(2) v by (simp add: less_mult_imp_div_less mult.commute)
    then show ?thesis using 1(1) [OF False, of v] v False by (simp add: dec_acc.simps [of n])
  qed
qed

lemma length_pad: "n < 10 ^ w \<Longrightarrow> 0 < w \<Longrightarrow> length (pad w n) = w"
  using dec_acc_length [of n w "[]"] by (simp add: pad_def dec_def)

text \<open>Among digit strings of one length, the text order is the numeric one.\<close>

lemma digits_val_acc: "digits_val ds a = a * 10 ^ length ds + digits_val ds 0"
proof (induction ds arbitrary: a)
  case (Cons c cs)
  show ?case using Cons [of "10 * a + digit_val c"] Cons [of "digit_val c"] by (simp add: algebra_simps)
qed simp

lemma digits_val_bound: "list_all is_digit ds \<Longrightarrow> digits_val ds 0 < 10 ^ length ds"
proof (induction ds)
  case (Cons c cs)
  have "digit_val c \<le> 9" using Cons.prems by (auto simp: is_digit_def digit_val_def less_eq_char_def)
  then have "digit_val c * 10 ^ length cs \<le> 9 * 10 ^ length cs" by simp
  moreover have "digits_val cs 0 < 10 ^ length cs" using Cons by simp
  ultimately have "digit_val c * 10 ^ length cs + digits_val cs 0 < 10 * 10 ^ length cs" by linarith
  then show ?case using digits_val_acc [of cs "digit_val c"] by simp
qed simp

lemma digits_less:
  "length xs = length ys \<Longrightarrow> list_all is_digit xs \<Longrightarrow> list_all is_digit ys \<Longrightarrow> digits_val xs 0 < digits_val ys 0 \<Longrightarrow> xs < ys"
proof (induction xs ys rule: list_induct2)
  case (Cons x xs y ys)
  have d: "is_digit x" "is_digit y" using Cons.prems by auto
  have b: "digits_val xs 0 < 10 ^ length xs" "digits_val ys 0 < 10 ^ length xs"
    using digits_val_bound [of xs] digits_val_bound [of ys] Cons by auto
  have v: "digit_val x * 10 ^ length xs + digits_val xs 0 < digit_val y * 10 ^ length xs + digits_val ys 0"
    using Cons.prems(3) digits_val_acc [of xs "digit_val x"] digits_val_acc [of ys "digit_val y"] Cons.hyps by simp
  have le: "digit_val x \<le> digit_val y"
  proof (rule ccontr)
    assume "\<not> ?thesis"
    then have "Suc (digit_val y) * 10 ^ length xs \<le> digit_val x * 10 ^ length xs" by (intro mult_right_mono) auto
    then show False using v b by simp
  qed
  show ?case
  proof (cases "digit_val x = digit_val y")
    case True
    then have "x = y" using d by (auto simp: digit_val_def is_digit_def less_eq_char_def)
      (metis eq_diff_iff of_char_eq_iff)
    then show ?thesis using Cons v True by simp
  next
    case False
    then have "x < y" using le by (simp add: digit_val_def less_char_def)
    then show ?thesis by simp
  qed
qed simp

lemma pad_less: "m < n \<Longrightarrow> n < 10 ^ w \<Longrightarrow> 0 < w \<Longrightarrow> pad w m < pad w n"
  by (intro digits_less) (auto simp: length_pad pad_digits)


subsection \<open>Times\<close>

definition fmt_date :: "time \<Rightarrow> string" where
  "fmt_date t = pad 4 (nat (Year t)) @ CHR ''-'' # pad 2 (nat (Month t)) @ CHR ''-'' # pad 2 (nat (Day t))"

definition sec_of_day :: "time \<Rightarrow> nat" where
  "sec_of_day t = nat ((t mod day24) div second)"

definition fmt_clock :: "nat \<Rightarrow> string" where
  "fmt_clock s = pad 2 (s div 3600) @ CHR '':'' # pad 2 (s div 60 mod 60) @ CHR '':'' # pad 2 (s mod 60)"

definition fmt_secs :: "time \<Rightarrow> string" where
  "fmt_secs t = fmt_date t @ CHR ''T'' # fmt_clock (sec_of_day t)"

definition strip_zeros :: "string \<Rightarrow> string" where
  "strip_zeros ds = rev (dropWhile (\<lambda>c. c = CHR ''0'') (rev ds))"

definition fmt_frac :: "nat \<Rightarrow> string" where
  "fmt_frac n = (if n = 0 then [] else CHR ''.'' # strip_zeros (pad 9 n))"

definition fmt_rfc3339 :: "time \<Rightarrow> string" where
  "fmt_rfc3339 t = fmt_secs t @ ''Z''"

definition fmt_nano :: "time \<Rightarrow> string" where
  "fmt_nano t = fmt_secs t @ fmt_frac (nat (t mod second)) @ ''Z''"

text \<open>\<^verbatim>\<open>time.Parse\<close> of such a text.\<close>

definition parse_frac :: "string \<Rightarrow> nat option" where
  "parse_frac r =
     (if r = ''Z'' then Some 0
      else if r \<noteq> [] \<and> hd r = CHR ''.'' then
        (let fp = takeWhile is_digit (tl r) in
         if fp \<noteq> [] \<and> length fp \<le> 9 \<and> drop (length fp) (tl r) = ''Z''
         then Some (digits_val fp 0 * 10 ^ (9 - length fp)) else None)
      else None)"

definition field :: "string \<Rightarrow> nat \<Rightarrow> nat \<Rightarrow> int" where
  "field s i w = int (digits_val (take w (drop i s)) 0)"

definition well_shaped :: "string \<Rightarrow> bool" where
  "well_shaped s \<longleftrightarrow> 20 \<le> length s \<and> list_all is_digit (take 4 s) \<and> s ! 4 = CHR ''-'' \<and> list_all is_digit (take 2 (drop 5 s))
     \<and> s ! 7 = CHR ''-'' \<and> list_all is_digit (take 2 (drop 8 s)) \<and> s ! 10 = CHR ''T'' \<and> list_all is_digit (take 2 (drop 11 s))
     \<and> s ! 13 = CHR '':'' \<and> list_all is_digit (take 2 (drop 14 s)) \<and> s ! 16 = CHR '':'' \<and> list_all is_digit (take 2 (drop 17 s))"

definition parse_nano :: "string \<Rightarrow> time option" where
  "parse_nano s =
     (if \<not> well_shaped s then None
      else let y = field s 0 4; m = field s 5 2; d = field s 8 2; h = field s 11 2; mi = field s 14 2; se = field s 17 2 in
        if 1 \<le> m \<and> m \<le> 12 \<and> 1 \<le> d \<and> d \<le> month_len y m \<and> h < 24 \<and> mi < 60 \<and> se < 60
        then map_option (\<lambda>f. date_time y m d + (h * 3600 + mi * 60 + se) * second + int f) (parse_frac (drop 19 s))
        else None)"

definition year4 :: "time \<Rightarrow> bool" where
  "year4 t \<longleftrightarrow> 0 \<le> Year t \<and> Year t \<le> 9999"

lemma strip_zeros_spec: "\<exists>k. ds = strip_zeros ds @ replicate k (CHR ''0'')"
proof -
  let ?P = "\<lambda>c. c = CHR ''0''"
  have "\<forall>c \<in> set (takeWhile ?P (rev ds)). c = CHR ''0''" using set_takeWhileD by fastforce
  then have tw: "takeWhile ?P (rev ds) = replicate (length (takeWhile ?P (rev ds))) (CHR ''0'')"
    by (simp add: replicate_length_same)
  have "ds = rev (takeWhile ?P (rev ds) @ dropWhile ?P (rev ds))" by (simp only: takeWhile_dropWhile_id rev_rev_ident)
  then have "ds = rev (dropWhile ?P (rev ds)) @ replicate (length (takeWhile ?P (rev ds))) (CHR ''0'')"
    by (subst (asm) tw) (simp only: rev_append rev_replicate)
  then show ?thesis unfolding strip_zeros_def by blast
qed

lemma digits_val_shift: "digits_val (ds @ replicate k (CHR ''0'')) 0 = digits_val ds 0 * 10 ^ k"
proof (induction k)
  case (Suc k)
  have "ds @ replicate (Suc k) (CHR ''0'') = (ds @ replicate k (CHR ''0'')) @ [CHR ''0'']"
    by (simp add: replicate_append_same)
  then show ?case using Suc by (simp only: digits_val_append) (simp add: digit_val_def)
qed simp

lemma parse_frac_fmt: "n < 10 ^ 9 \<Longrightarrow> parse_frac (fmt_frac n @ ''Z'') = Some n"
proof (cases "n = 0")
  case False
  assume n: "n < 10 ^ 9"
  obtain k where k: "pad 9 n = strip_zeros (pad 9 n) @ replicate k (CHR ''0'')" using strip_zeros_spec by blast
  let ?s = "strip_zeros (pad 9 n)"
  have len: "length ?s + k = 9" using arg_cong [OF k, of length] n by (simp add: length_pad)
  have val: "digits_val ?s 0 * 10 ^ k = n" using arg_cong [OF k, of "\<lambda>x. digits_val x 0"] by (simp add: digits_val_shift)
  have ne: "?s \<noteq> []" using val False by auto
  have dg: "list_all is_digit ?s" using pad_digits [of 9 n] arg_cong [OF k, of "list_all is_digit"] by simp
  have "\<not> is_digit (CHR ''Z'')" by (simp add: is_digit_def less_eq_char_def)
  then have tw: "takeWhile is_digit (?s @ ''Z'') = ?s" using dg by (simp add: takeWhile_append list_all_iff)
  have "9 - length ?s = k" using len by simp
  then show ?thesis using False ne len val by (simp add: fmt_frac_def parse_frac_def tw Let_def)
qed (simp add: fmt_frac_def parse_frac_def)

lemma fields_fmt:
  fixes y m d h mi se r :: string
  assumes "length y = 4" "length m = 2" "length d = 2" "length h = 2" "length mi = 2" "length se = 2"
  defines "s \<equiv> y @ CHR ''-'' # m @ CHR ''-'' # d @ CHR ''T'' # h @ CHR '':'' # mi @ CHR '':'' # se @ r"
  shows "take 4 s = y" "s ! 4 = CHR ''-''" "take 2 (drop 5 s) = m" "s ! 7 = CHR ''-''" "take 2 (drop 8 s) = d"
    "s ! 10 = CHR ''T''" "take 2 (drop 11 s) = h" "s ! 13 = CHR '':''" "take 2 (drop 14 s) = mi" "s ! 16 = CHR '':''"
    "take 2 (drop 17 s) = se" "drop 19 s = r"
  using assms by (auto simp: nth_append)

lemma fmt_nano_expand: "fmt_nano t = pad 4 (nat (Year t)) @ CHR ''-'' # pad 2 (nat (Month t)) @ CHR ''-'' # pad 2 (nat (Day t)) @ CHR ''T''
    # pad 2 (sec_of_day t div 3600) @ CHR '':'' # pad 2 (sec_of_day t div 60 mod 60) @ CHR '':'' # pad 2 (sec_of_day t mod 60)
    @ fmt_frac (nat (t mod second)) @ ''Z''"
  by (simp add: fmt_nano_def fmt_secs_def fmt_date_def fmt_clock_def)

lemma sec_of_day_lt: "sec_of_day t < 86400"
proof -
  have "0 \<le> t mod day24" "t mod day24 < day24" by simp_all
  then have "(t mod day24) div second < 86400" by linarith
  then show ?thesis by (simp add: sec_of_day_def)
qed

lemma parse_nano_fmt:
  assumes "year4 t"
  shows "parse_nano (fmt_nano t) = Some t"
proof -
  let ?s = "sec_of_day t"
  have v: "1 \<le> Month t" "Month t \<le> 12" "1 \<le> Day t" "Day t \<le> month_len (Year t) (Month t)" using civil_valid [of t] by auto
  then have d31: "Day t \<le> 31" using month_len_bounds(2) [of "Year t" "Month t"] by linarith
  have s: "?s < 86400" by (rule sec_of_day_lt)
  have len: "length (pad 4 (nat (Year t))) = 4" "length (pad 2 (nat (Month t))) = 2" "length (pad 2 (nat (Day t))) = 2"
    "length (pad 2 (?s div 3600)) = 2" "length (pad 2 (?s div 60 mod 60)) = 2" "length (pad 2 (?s mod 60)) = 2"
    using assms v d31 s by (auto simp: year4_def intro!: length_pad)
  note F = fields_fmt [OF len, where r = "fmt_frac (nat (t mod second)) @ ''Z''", folded fmt_nano_expand]
  have "20 \<le> length (fmt_nano t)" using len by (simp add: fmt_nano_expand)
  then have W: "well_shaped (fmt_nano t)" unfolding well_shaped_def using F by (simp add: pad_digits)
  have fl: "field (fmt_nano t) 0 4 = Year t" "field (fmt_nano t) 5 2 = Month t" "field (fmt_nano t) 8 2 = Day t"
    "field (fmt_nano t) 11 2 = int (?s div 3600)" "field (fmt_nano t) 14 2 = int (?s div 60 mod 60)" "field (fmt_nano t) 17 2 = int (?s mod 60)"
    unfolding field_def using F assms v by (simp_all add: year4_def)
  have "nat (t mod second) < 10 ^ 9" by simp
  note fr = parse_frac_fmt [OF this]
  have dt: "date_time (Year t) (Month t) (Day t) = day_number t * day24"
    by (rule civil_exists [of "day_number t"]) (simp add: date_time_def Year_def Month_def Day_def civil_def)
  have "int (?s div 3600) * 3600 + int (?s div 60 mod 60) * 60 + int (?s mod 60) = int ?s"
  proof -
    have "?s div 3600 = ?s div 60 div 60" by (simp add: div_mult2_eq)
    note d3600 = this
    have gen: "a * 3600 + b * 60 + c = (a * 60 + b) * 60 + c" for a b c :: nat by simp
    have "?s div 3600 * 3600 + ?s div 60 mod 60 * 60 + ?s mod 60 = ?s"
      unfolding d3600 gen by (simp only: div_mult_mod_eq)
    then have "int (?s div 3600 * 3600 + ?s div 60 mod 60 * 60 + ?s mod 60) = int ?s" by (rule arg_cong)
    then show ?thesis by (simp only: of_nat_add of_nat_mult of_nat_numeral)
  qed
  moreover have "int ?s = (t mod day24) div second" by (simp add: sec_of_day_def)
  moreover have "day_number t * day24 + (t mod day24) div second * second + t mod second = t"
  proof -
    have m: "t mod day24 mod second = t mod second" by (rule mod_mod_cancel) simp
    have "(t mod day24) div second * second + t mod second = t mod day24"
      unfolding m [symmetric] by (rule div_mult_mod_eq)
    moreover have "t div day24 * day24 + t mod day24 = t" by (rule div_mult_mod_eq)
    ultimately show ?thesis unfolding day_number_def by linarith
  qed
  ultimately have "date_time (Year t) (Month t) (Day t) + (int (?s div 3600) * 3600 + int (?s div 60 mod 60) * 60 + int (?s mod 60)) * second
      + int (nat (t mod second)) = t" unfolding dt by simp
  moreover have "int (?s div 3600) < 24" using s by simp
  ultimately show ?thesis using v F(12) fr by (simp add: parse_nano_def W Let_def fl)
qed


subsection \<open>The order of written times\<close>

lemma less_append: "length p = length q \<Longrightarrow> p < q \<Longrightarrow> p @ x < q @ y" for p q :: "'a :: linorder list"
  by (induction p q rule: list_induct2) auto

lemma less_append_same: "x < y \<Longrightarrow> p @ x < p @ y" for p :: "'a :: linorder list"
  by (induction p) auto

lemma days_to_year_mono: "y \<le> z \<Longrightarrow> days_to_year y \<le> days_to_year z"
proof (induction z rule: int_ge_induct)
  case (step z)
  then show ?case using days_to_year_Suc [of z] by (simp add: year_len_def)
qed simp

lemma days_before_Suc: "1 \<le> m \<Longrightarrow> m \<le> 12 \<Longrightarrow> days_before y (m + 1) = days_before y m + month_len y m"
  by (drule (1) month_cases) (elim disjE; simp add: month_len_def)

lemma days_before_mono:
  assumes "1 \<le> m" "m < m'" "m' \<le> 12"
  shows "days_before y m + month_len y m \<le> days_before y m'"
proof -
  have "m' \<le> 12 \<longrightarrow> days_before y (m + 1) \<le> days_before y m'" if "m + 1 \<le> m'"
    using that
  proof (induction m' rule: int_ge_induct)
    case (step k)
    then show ?case using days_before_Suc [of k y] month_len_bounds(1) [of y k] assms(1) by auto
  qed simp
  then show ?thesis using assms days_before_Suc [of m y] by simp
qed

lemma day_number_fields:
  "day_number t = days_to_year (Year t) + (days_before (Year t) (Month t) + Day t - 1)"
proof -
  have v: "1 \<le> Month t" "Month t \<le> 12" using civil_valid [of t] by auto
  have "days_of_civil (Year t) (Month t) (Day t) = day_number t"
    by (rule civil_exists [of "day_number t"]) (simp add: Year_def Month_def Day_def civil_def)
  moreover have "(Month t - 1) div 12 = 0" "(Month t - 1) mod 12 = Month t - 1" using v by auto
  ultimately show ?thesis by (simp add: days_of_civil_def Let_def)
qed

lemma civil_less:
  assumes "day_number t < day_number u"
  shows "Year t < Year u \<or> Year t = Year u \<and> (Month t < Month u \<or> Month t = Month u \<and> Day t < Day u)"
proof -
  have v: "1 \<le> Month x" "Month x \<le> 12" "1 \<le> Day x" "Day x \<le> month_len (Year x) (Month x)" for x
    using civil_valid [of x] by auto
  have r: "0 \<le> days_before (Year x) (Month x) + Day x - 1" "days_before (Year x) (Month x) + Day x - 1 < year_len (Year x)" for x
    using days_before_lt_year_len [OF v] by auto
  have "\<not> Year u < Year t"
  proof
    assume "Year u < Year t"
    then have "days_to_year (Year u + 1) \<le> days_to_year (Year t)" by (intro days_to_year_mono) simp
    then show False using assms r [of t] r [of u] days_to_year_Suc [of "Year u"] unfolding day_number_fields by linarith
  qed
  moreover have "\<not> Month u < Month t" if "Year t = Year u"
  proof
    assume "Month u < Month t"
    then have "days_before (Year u) (Month u) + month_len (Year u) (Month u) \<le> days_before (Year u) (Month t)"
      using v by (intro days_before_mono) auto
    then show False using assms v [of t] v [of u] that unfolding day_number_fields by simp
  qed
  moreover have "Day t < Day u" if "Year t = Year u" "Month t = Month u"
    using assms that unfolding day_number_fields by simp
  ultimately show ?thesis by linarith
qed

lemma length_fmt_date: "year4 t \<Longrightarrow> length (fmt_date t) = 10"
proof -
  assume "year4 t"
  then have "length (pad 4 (nat (Year t))) = 4" "length (pad 2 (nat (Month t))) = 2" "length (pad 2 (nat (Day t))) = 2"
    using civil_valid [of t] month_len_bounds(2) [of "Year t" "Month t"] by (auto simp: year4_def intro!: length_pad)
  then show ?thesis by (simp add: fmt_date_def)
qed

lemma fmt_date_less:
  assumes "year4 t" "year4 u" "day_number t < day_number u"
  shows "fmt_date t < fmt_date u"
proof -
  have v: "1 \<le> Month x" "Month x \<le> 12" "1 \<le> Day x" "Day x \<le> 31" for x
    using civil_valid [of x] month_len_bounds(2) [of "Year x" "Month x"] by auto
  have l: "length (pad 4 (nat (Year x))) = 4" if "year4 x" for x using that by (intro length_pad) (auto simp: year4_def)
  have l2: "length (pad 2 (nat (Month x))) = 2" "length (pad 2 (nat (Day x))) = 2" for x
    using v [of x] by (auto intro!: length_pad)
  consider "Year t < Year u" | "Year t = Year u" "Month t < Month u" | "Year t = Year u" "Month t = Month u" "Day t < Day u"
    using civil_less [OF assms(3)] by blast
  then show ?thesis
  proof cases
    case 1
    then have "pad 4 (nat (Year t)) < pad 4 (nat (Year u))" using assms by (intro pad_less) (auto simp: year4_def)
    then show ?thesis unfolding fmt_date_def using l assms by (intro less_append) auto
  next
    case 2
    then have "pad 2 (nat (Month t)) < pad 2 (nat (Month u))" using v [of t] v [of u] by (intro pad_less) auto
    then have "pad 2 (nat (Month t)) @ CHR ''-'' # pad 2 (nat (Day t)) < pad 2 (nat (Month u)) @ CHR ''-'' # pad 2 (nat (Day u))"
      using l2 by (intro less_append) auto
    then show ?thesis unfolding fmt_date_def \<open>Year t = Year u\<close> by (intro less_append_same) simp
  next
    case 3
    then have "pad 2 (nat (Day t)) < pad 2 (nat (Day u))" using v [of t] v [of u] by (intro pad_less) auto
    then have "pad 2 (nat (Month u)) @ CHR ''-'' # pad 2 (nat (Day t)) < pad 2 (nat (Month u)) @ CHR ''-'' # pad 2 (nat (Day u))"
      by (intro less_append_same) simp
    then show ?thesis unfolding fmt_date_def 3 by (intro less_append_same) simp
  qed
qed

lemma fmt_clock_less: "s < u \<Longrightarrow> u < 86400 \<Longrightarrow> fmt_clock s < fmt_clock u"
proof -
  assume a: "s < u" "u < 86400"
  have e: "x = (x div 3600 * 60 + x div 60 mod 60) * 60 + x mod 60" for x :: nat
  proof -
    have "x div 3600 = x div 60 div 60" by (simp add: div_mult2_eq)
    then show ?thesis by (metis div_mult_mod_eq)
  qed
  have b: "x div 3600 < 100" "x div 60 mod 60 < 100" "x mod 60 < 100" if "x < 86400" for x :: nat
    using that by (auto simp: less_mult_imp_div_less intro: less_trans [OF mod_less_divisor])
  have m: "x mod 60 < 60" "x div 60 mod 60 < 60" for x :: nat by auto
  have l: "length (pad 2 (x div 3600)) = 2" "length (pad 2 (x div 60 mod 60)) = 2" if "x < 86400" for x :: nat
    using b [OF that] by (auto intro!: length_pad)
  have mixed1: "(q * 60 + x) * 60 + y < (q * 60 + x') * 60 + y' \<Longrightarrow> y' < 60 \<Longrightarrow> x \<le> x'" for q x x' y y' :: nat by simp
  have mixed2: "(q * 60 + x) * 60 + y < (q * 60 + x) * 60 + y' \<Longrightarrow> y < y'" for q x y y' :: nat by simp
  consider "s div 3600 < u div 3600" | "s div 3600 = u div 3600" "s div 60 mod 60 < u div 60 mod 60"
    | "s div 3600 = u div 3600" "s div 60 mod 60 = u div 60 mod 60" "s mod 60 < u mod 60"
  proof -
    have "s div 3600 \<le> u div 3600" using a by (intro div_le_mono) simp
    moreover have "s div 60 mod 60 \<le> u div 60 mod 60" if "s div 3600 = u div 3600"
      using a(1) m(1) [of u] mixed1 [of "u div 3600"] e [of s] e [of u] unfolding that by metis
    moreover have "s mod 60 < u mod 60" if "s div 3600 = u div 3600" "s div 60 mod 60 = u div 60 mod 60"
      using a(1) mixed2 [of "u div 3600"] e [of s] e [of u] unfolding that by metis
    ultimately show thesis using that by (meson le_neq_implies_less)
  qed
  then show ?thesis
  proof cases
    case 1
    then show ?thesis unfolding fmt_clock_def using a b l by (intro less_append pad_less) auto
  next
    case 2
    then have "pad 2 (s div 60 mod 60) @ CHR '':'' # pad 2 (s mod 60) < pad 2 (u div 60 mod 60) @ CHR '':'' # pad 2 (u mod 60)"
      using a b l by (intro less_append pad_less) auto
    then show ?thesis unfolding fmt_clock_def 2 by (intro less_append_same) simp
  next
    case 3
    then have "CHR '':'' # pad 2 (s mod 60) < CHR '':'' # pad 2 (u mod 60)" using pad_less [of "s mod 60" "u mod 60" 2] b [OF a(2)] by simp
    then show ?thesis unfolding fmt_clock_def 3 by (intro less_append_same) (simp add: less_append_same)
  qed
qed

lemma length_fmt_secs: "year4 t \<Longrightarrow> length (fmt_secs t) = 19"
proof -
  assume "year4 t"
  moreover have "length (fmt_clock (sec_of_day t)) = 8"
    using sec_of_day_lt [of t] by (auto simp: fmt_clock_def length_pad less_mult_imp_div_less intro: less_trans [OF mod_less_divisor])
  ultimately show ?thesis by (simp add: fmt_secs_def length_fmt_date)
qed

lemma day_sec: "t div second = day_number t * 86400 + int (sec_of_day t)"
proof -
  have "t = second * (86400 * day_number t) + t mod day24" unfolding day_number_def by simp
  then have "t div second = (second * (86400 * day_number t) + t mod day24) div second" by simp
  also have "\<dots> = 86400 * day_number t + (t mod day24) div second" by (simp only: div_mult_self4)
  finally show ?thesis by (simp add: sec_of_day_def)
qed

lemma fmt_secs_less:
  assumes "year4 t" "year4 u" "t div second < u div second"
  shows "fmt_secs t < fmt_secs u"
proof (cases "day_number t = day_number u")
  case True
  then have "fmt_date t = fmt_date u" by (simp add: fmt_date_def Year_def Month_def Day_def civil_def)
  moreover have "sec_of_day t < sec_of_day u" using assms(3) True by (simp add: day_sec)
  then have "fmt_clock (sec_of_day t) < fmt_clock (sec_of_day u)" using sec_of_day_lt by (intro fmt_clock_less)
  ultimately show ?thesis unfolding fmt_secs_def by (simp add: less_append_same)
next
  case False
  then have "day_number t < day_number u" using assms(3) sec_of_day_lt [of t] sec_of_day_lt [of u] by (simp add: day_sec)
  then have "fmt_date t < fmt_date u" using assms by (intro fmt_date_less)
  then show ?thesis unfolding fmt_secs_def using assms by (intro less_append) (simp_all add: length_fmt_date)
qed

lemma fmt_nano_less:
  "year4 t \<Longrightarrow> year4 u \<Longrightarrow> t div second < u div second \<Longrightarrow> fmt_nano t < fmt_nano u"
  unfolding fmt_nano_def by (intro less_append fmt_secs_less) (simp_all add: length_fmt_secs)

subsection \<open>Fixed-point numbers\<close>

text \<open>\<^verbatim>\<open>%.nf\<close>: the exact value rounded to \<open>n\<close> decimals, ties to even.\<close>

definition fmt_fixed :: "nat \<Rightarrow> f64 \<Rightarrow> string" where
  "fmt_fixed n x =
     (case x of NaN \<Rightarrow> ''NaN'' | PInf \<Rightarrow> ''+Inf'' | NInf \<Rightarrow> ''-Inf''
      | Fin q \<Rightarrow>
          let k = nat (rne (\<bar>q\<bar> * 10 ^ n))
          in (if q < 0 then ''-'' else []) @ dec (k div 10 ^ n) @ (if n = 0 then [] else CHR ''.'' # pad n (k mod 10 ^ n)))"

subsection \<open>ISO weeks\<close>

text \<open>\<^verbatim>\<open>Time.ISOWeek\<close>: the year of the Thursday of the week, and its number among the weeks of that year.\<close>

definition thursday :: "int \<Rightarrow> int" where
  "thursday d = d - (d + 3) mod 7 + 3"

definition ISOWeek :: "time \<Rightarrow> int \<times> int" where
  "ISOWeek t = (let (y, k) = year_day (thursday (day_number t)) in (y, k div 7 + 1))"

lemma year_day_exists: obtains y k where "year_day d = (y, k)" "0 \<le> k" "k < year_len y" "d = days_to_year y + k"
proof -
  obtain y k where yk: "0 \<le> k" "k < year_len y" "d = days_to_year y + k" using year_exists by blast
  then have "year_day d = (y, k)" using year_day_days_to_year by simp
  then show ?thesis using that yk by blast
qed

lemma thursday_eq: "thursday d = 7 * ((d + 3) div 7)"
  by (simp add: thursday_def minus_mod_eq_mult_div [symmetric])

lemma ISOWeek_eq: "ISOWeek t = ISOWeek u \<longleftrightarrow> (day_number t + 3) div 7 = (day_number u + 3) div 7"
proof
  assume "(day_number t + 3) div 7 = (day_number u + 3) div 7"
  then show "ISOWeek t = ISOWeek u" by (simp add: ISOWeek_def thursday_eq)
next
  assume e: "ISOWeek t = ISOWeek u"
  obtain y k where 1: "year_day (thursday (day_number t)) = (y, k)" "thursday (day_number t) = days_to_year y + k"
    by (rule year_day_exists [of "thursday (day_number t)"])
  obtain z l where 2: "year_day (thursday (day_number u)) = (z, l)" "thursday (day_number u) = days_to_year z + l"
    by (rule year_day_exists [of "thursday (day_number u)"])
  have eq: "y = z" "k div 7 = l div 7" using e 1(1) 2(1) by (simp_all add: ISOWeek_def)
  define p q where "p = (day_number t + 3) div 7" and "q = (day_number u + 3) div 7"
  have "7 * p - 7 * q = k - l" using 1(2) 2(2) eq(1) by (simp add: thursday_eq p_def q_def)
  then have "p = q" using eq(2) by presburger
  then show "(day_number t + 3) div 7 = (day_number u + 3) div 7" by (simp add: p_def q_def)
qed

end
