(* ===== verification/Notify.thy ===== *)
theory Notify
  imports Alert Capacity GoFormat
begin

text \<open>
  How the daemon tells about one forecast (\<^verbatim>\<open>cmd/sentinel/daemon.go\<close>: the notification part of \<^verbatim>\<open>runOnePoll\<close>,
  \<^verbatim>\<open>allowNotify\<close>, \<^verbatim>\<open>markNotifyResult\<close>, the card; \<^verbatim>\<open>triage.go\<close>; \<^verbatim>\<open>am_publish.go\<close>). What AlertManager, the triage gate and the
  notifier answer in a round, the environment variables and the number format \<^verbatim>\<open>%.4g\<close> are parameters.

  Main results: while a message is pending, sending is tried in at least one of any five rounds (\<open>notify_liveness\<close>), and the
  registered state of a sensor changes only when something was delivered (\<open>notify_commits\<close>).
\<close>

subsection \<open>The card\<close>

definition state_string :: "state \<Rightarrow> string" where
  "state_string s = (case s of Unset \<Rightarrow> [] | Healthy \<Rightarrow> ''healthy'' | Warning \<Rightarrow> ''warning'' | Critical \<Rightarrow> ''critical'')"

definition humanDur :: "f64 \<Rightarrow> string" where
  "humanDur seconds =
     (if flt seconds (Fin 3600) then fmt_fixed 0 (fdiv seconds (Fin 60)) @ utf8 [32, 229, 136, 134, 233, 144, 152]
      else if flt seconds (Fin 172800) then fmt_fixed 1 (fdiv seconds (Fin 3600)) @ utf8 [32, 229, 176, 143, 230, 153, 130]
      else fmt_fixed 1 (fdiv seconds (Fin 86400)) @ utf8 [32, 229, 164, 169])"

definition formatForecastCard :: "(f64 \<Rightarrow> string) \<Rightarrow> forecast \<Rightarrow> string" where
  "formatForecastCard g4 f =
     icon (state_string (F_State f)) @ '' '' @ F_ID f @ [CHR 0x0A] @ utf8 [228, 189, 191, 231, 148, 168, 231, 142, 135, 32] @ fmt_fixed 1 (fmul (Utilization f) (Fin 100)) @ ''%''
     @ utf8 [239, 189, 156, 233, 164, 152, 233, 135, 143, 32] @ g4 (Headroom f) @ [CHR 0x0A]
     @ (case EtaAggressive f of Some e \<Rightarrow> utf8 [232, 139, 165, 230, 140, 129, 231, 186, 140, 231, 136, 134, 233, 135, 143, 239, 188, 154, 231, 180, 132, 32] @ humanDur e @ utf8 [32, 229, 190, 140, 232, 167, 184, 233, 160, 130] | None \<Rightarrow> utf8 [230, 191, 128, 233, 128, 178, 232, 166, 150, 233, 135, 142, 239, 188, 154, 231, 132, 161, 232, 167, 184, 233, 160, 130, 233, 162, 168, 233, 154, 170]) @ [CHR 0x0A]
     @ (case EtaConservative f of Some e \<Rightarrow> utf8 [229, 155, 158, 229, 136, 176, 229, 184, 184, 230, 133, 139, 239, 188, 154, 229, 176, 154, 233, 164, 152, 32] @ humanDur e @ [CHR 0x0A] | None \<Rightarrow> [])"

subsection \<open>The triage gate\<close>

record am_out =
  AO_Status :: string
  AO_Labels :: "string \<rightharpoonup> string"
  AO_Annotations :: "string \<rightharpoonup> string"
  AO_StartsAt :: string

record publisher =
  PubURL :: string
  PubToken :: string

definition Publish :: "publisher \<Rightarrow> (am_out list \<Rightarrow> http) \<Rightarrow> am_out list \<Rightarrow> unit res" where
  "Publish p gate alerts =
     (if PubURL p = [] \<or> alerts = [] then Inl (Err ''publisher'')
      else case gate alerts of
          BadRequest e \<Rightarrow> Inl (Err e)
        | NetErr e \<Rightarrow> Inl (Err e)
        | Resp st _ \<Rightarrow> if st < 200 \<or> st \<ge> 300 then Inl (Err ''gate'') else Inr ())"

record sensor_meta =
  Scope :: string
  Service :: string
  Cluster :: string

datatype runner_kind = KCapacity | KBudget

record runner_info =
  RI_kind :: runner_kind
  RI_filter :: string

text \<open>What lies outside, as it answers in one round.\<close>

record notify_env =
  NE_firing :: "string \<Rightarrow> bool res"
  NE_publisher :: "publisher option"
  NE_gate :: "am_out list \<Rightarrow> http"
  NE_send :: "string \<Rightarrow> unit res"
  NE_cluster :: string
  NE_runbook :: string
  NE_now :: time
  NE_g4 :: "f64 \<Rightarrow> string"

record retry_state =
  Fails :: int
  SinceFail :: int

record notify_state =
  NS_dedupe :: dedupe
  NS_retry :: "string \<rightharpoonup> retry_state"
  NS_published :: "string \<rightharpoonup> bool"
  NS_meta :: "string \<rightharpoonup> sensor_meta"

text \<open>What went out, and whether it was accepted.\<close>

datatype action = ToGate am_out bool | ToUser string bool

definition meta_of :: "notify_state \<Rightarrow> string \<Rightarrow> sensor_meta" where
  "meta_of ns i = (case NS_meta ns i of None \<Rightarrow> \<lparr>Scope = [], Service = [], Cluster = []\<rparr> | Some m \<Rightarrow> m)"

definition triage_labels :: "notify_env \<Rightarrow> sensor_meta \<Rightarrow> runner_info \<Rightarrow> forecast \<Rightarrow> string \<Rightarrow> string \<rightharpoonup> string" where
  "triage_labels env m ri f severity =
     (let l = [''alertname'' \<mapsto> ''CapacityEtaWarning'', ''sensor_id'' \<mapsto> F_ID f, ''severity'' \<mapsto> severity];
          l = (if Scope m \<noteq> [] then l(''scope'' \<mapsto> Scope m) else l);
          l = (if Service m \<noteq> [] then l(''service'' \<mapsto> Service m)
               else if RI_filter ri \<noteq> [] \<and> RI_filter ri \<noteq> F_ID f then l(''service'' \<mapsto> RI_filter ri) else l);
          c = (if Cluster m \<noteq> [] then Cluster m else NE_cluster env);
          l = (if c \<noteq> [] then l(''cluster'' \<mapsto> c) else l);
          l = (case EtaAggressive f of None \<Rightarrow> l | Some e \<Rightarrow> l(''eta_aggressive'' \<mapsto> fmt_fixed 0 e))
      in (case EtaConservative f of None \<Rightarrow> l | Some e \<Rightarrow> l(''eta_conservative'' \<mapsto> fmt_fixed 0 e)))"

definition triage_alert :: "notify_env \<Rightarrow> sensor_meta \<Rightarrow> runner_info \<Rightarrow> forecast \<Rightarrow> am_out" where
  "triage_alert env m ri f =
     (let healthy = (F_State f = Healthy) in
      \<lparr>AO_Status = (if healthy then ''resolved'' else ''firing''),
       AO_Labels = triage_labels env m ri f (if healthy then ''info'' else state_string (F_State f)),
       AO_Annotations = (if NE_runbook env \<noteq> [] then [''summary'' \<mapsto> formatForecastCard (NE_g4 env) f, ''runbook_url'' \<mapsto> NE_runbook env]
                         else [''summary'' \<mapsto> formatForecastCard (NE_g4 env) f]),
       AO_StartsAt = fmt_rfc3339 (NE_now env)\<rparr>)"

definition short_note :: "notify_env \<Rightarrow> forecast \<Rightarrow> string" where
  "short_note env f =
     utf8 [240, 159, 147, 168, 32] @ F_ID f @ '' '' @ state_string (F_State f) @ utf8 [32, 226, 128, 148, 32, 229, 183, 178, 232, 189, 137, 228, 186, 164, 32, 97, 105, 45, 111, 110, 99, 97, 108, 108, 32, 229, 136, 134, 232, 168, 186]
     @ (if NE_runbook env \<noteq> [] then CHR 0x0A # NE_runbook env else [])"

definition triageHandled :: "notify_env \<Rightarrow> runner_info \<Rightarrow> forecast \<Rightarrow> notify_state \<Rightarrow> bool \<times> action list \<times> notify_state" where
  "triageHandled env ri f ns =
     (case NE_publisher env of None \<Rightarrow> (False, [], ns)
      | Some p \<Rightarrow>
          if RI_kind ri \<noteq> KCapacity then (False, [], ns)
          else if F_State f = Healthy \<and> NS_published ns (F_ID f) \<noteq> Some True then (False, [], ns)
          else let al = triage_alert env (meta_of ns (F_ID f)) ri f in
            (case Publish p (NE_gate env) [al] of
               Inl e \<Rightarrow> (False, [ToGate al False], ns)
             | Inr _ \<Rightarrow>
                 (True, [ToGate al True, ToUser (short_note env f) (\<not> isl (NE_send env (short_note env f)))],
                  ns\<lparr>NS_published := (NS_published ns)(F_ID f := (if F_State f = Healthy then None else Some True))\<rparr>)))"

subsection \<open>Sending with backoff\<close>

definition allowNotify :: "string \<Rightarrow> notify_state \<Rightarrow> bool \<times> notify_state" where
  "allowNotify i ns =
     (case NS_retry ns i of None \<Rightarrow> (True, ns)
      | Some rt \<Rightarrow>
          if Fails rt < 3 then (True, ns)
          else let n = SinceFail rt + 1
               in (n \<ge> 5, ns\<lparr>NS_retry := (NS_retry ns)(i \<mapsto> rt\<lparr>SinceFail := (if n \<ge> 5 then 0 else n)\<rparr>)\<rparr>))"

definition markNotifyResult :: "string \<Rightarrow> unit res \<Rightarrow> notify_state \<Rightarrow> notify_state" where
  "markNotifyResult i r ns =
     (case r of Inr _ \<Rightarrow> ns\<lparr>NS_retry := (NS_retry ns)(i := None)\<rparr>
      | Inl _ \<Rightarrow> (let rt = (case NS_retry ns i of None \<Rightarrow> \<lparr>Fails = 0, SinceFail = 0\<rparr> | Some rt \<Rightarrow> rt)
                 in ns\<lparr>NS_retry := (NS_retry ns)(i \<mapsto> rt\<lparr>Fails := Fails rt + 1\<rparr>)\<rparr>))"

definition commit :: "forecast \<Rightarrow> notify_state \<Rightarrow> notify_state" where
  "commit f ns = ns\<lparr>NS_dedupe := Commit (NS_dedupe ns) (F_ID f) (state_string (F_State f))\<rparr>"

definition is_firing :: "notify_env \<Rightarrow> runner_info \<Rightarrow> bool" where
  "is_firing env ri = (RI_filter ri \<noteq> [] \<and> NE_firing env (RI_filter ri) = Inr True)"

definition notify_send :: "notify_env \<Rightarrow> runner_info \<Rightarrow> forecast \<Rightarrow> notify_state \<Rightarrow> action list \<times> notify_state" where
  "notify_send env ri f ns =
     (case triageHandled env ri f ns of
        (True, acts, ns') \<Rightarrow> (acts, commit f ns')
      | (False, acts, ns') \<Rightarrow>
          (let card = formatForecastCard (NE_g4 env) f; r = NE_send env card; ns'' = markNotifyResult (F_ID f) r ns'
           in (acts @ [ToUser card (\<not> isl r)], if isl r then ns'' else commit f ns'')))"

definition notify_forecast :: "notify_env \<Rightarrow> runner_info \<Rightarrow> forecast \<Rightarrow> notify_state \<Rightarrow> action list \<times> notify_state" where
  "notify_forecast env ri f ns =
     (if is_firing env ri \<or> \<not> Peek (NS_dedupe ns) (F_ID f) (state_string (F_State f)) then ([], ns)
      else let (ok, ns') = allowNotify (F_ID f) ns in if ok then notify_send env ri f ns' else ([], ns'))"

subsection \<open>Delivery and registration\<close>

fun accepted :: "action \<Rightarrow> bool" where
  "accepted (ToGate al ok) = ok"
| "accepted (ToUser msg ok) = ok"

lemma triage_dedupe: "triageHandled env ri f ns = (h, acts, ns') \<Longrightarrow> NS_dedupe ns' = NS_dedupe ns \<and> NS_retry ns' = NS_retry ns \<and> (h \<longleftrightarrow> list_ex accepted acts)"
  by (auto simp: triageHandled_def Let_def split: option.splits if_splits sum.splits)

lemma allow_dedupe: "allowNotify i ns = (ok, ns') \<Longrightarrow> NS_dedupe ns' = NS_dedupe ns"
  by (auto simp: allowNotify_def Let_def split: option.splits if_splits)

lemma mark_dedupe [simp]: "NS_dedupe (markNotifyResult i r ns) = NS_dedupe ns"
  by (auto simp: markNotifyResult_def Let_def split: sum.splits)

lemma notify_send_dedupe:
  "NS_dedupe (snd (notify_send env ri f ns)) =
     (if list_ex accepted (fst (notify_send env ri f ns)) then Commit (NS_dedupe ns) (F_ID f) (state_string (F_State f)) else NS_dedupe ns)"
proof -
  obtain h acts ns' where t: "triageHandled env ri f ns = (h, acts, ns')" by (metis prod_cases3)
  show ?thesis using triage_dedupe [OF t] by (cases h) (auto simp: notify_send_def t Let_def commit_def)
qed

text \<open>
  Claim C20. Nothing is registered that was not delivered, and nothing delivered is forgotten: after a sensor's round its registered state
  is the new one exactly if the triage gate or the user's channel accepted a message, and unchanged otherwise, so a message that
  could not be delivered is still due in the next round.
\<close>

theorem notify_commits:
  "NS_dedupe (snd (notify_forecast env ri f ns)) =
     (if list_ex accepted (fst (notify_forecast env ri f ns)) then Commit (NS_dedupe ns) (F_ID f) (state_string (F_State f)) else NS_dedupe ns)"
proof -
  obtain ok ns' where a: "allowNotify (F_ID f) ns = (ok, ns')" by force
  show ?thesis using allow_dedupe [OF a] notify_send_dedupe [of env ri f ns'] by (simp add: notify_forecast_def a)
qed

subsection \<open>Liveness of the backoff\<close>

definition retry_ok :: "notify_state \<Rightarrow> bool" where
  "retry_ok ns \<longleftrightarrow> (\<forall>i rt. NS_retry ns i = Some rt \<longrightarrow> 0 \<le> SinceFail rt \<and> SinceFail rt < 5)"

lemma retry_ok_upd: "retry_ok ns \<Longrightarrow> 0 \<le> SinceFail rt \<Longrightarrow> SinceFail rt < 5 \<Longrightarrow> retry_ok (ns\<lparr>NS_retry := (NS_retry ns)(i \<mapsto> rt)\<rparr>)"
  by (auto simp: retry_ok_def)

lemma retry_okD: "retry_ok ns \<Longrightarrow> NS_retry ns i = Some rt \<Longrightarrow> 0 \<le> SinceFail rt \<and> SinceFail rt < 5"
  by (simp add: retry_ok_def)

lemma allow_ok: "retry_ok ns \<Longrightarrow> allowNotify i ns = (ok, ns') \<Longrightarrow> retry_ok ns'"
  by (auto simp: allowNotify_def Let_def intro!: retry_ok_upd dest: retry_okD split: option.splits if_splits)

lemma mark_ok: "retry_ok ns \<Longrightarrow> retry_ok (markNotifyResult i r ns)"
  by (auto simp: markNotifyResult_def Let_def intro!: retry_ok_upd dest: retry_okD split: sum.splits option.splits)
     (auto simp: retry_ok_def split: if_splits)

lemma retry_ok_cong: "NS_retry ns' = NS_retry ns \<Longrightarrow> retry_ok ns' \<longleftrightarrow> retry_ok ns"
  by (simp add: retry_ok_def)

lemma notify_send_ok: "retry_ok ns \<Longrightarrow> retry_ok (snd (notify_send env ri f ns))"
proof -
  assume r: "retry_ok ns"
  obtain h acts ns' where t: "triageHandled env ri f ns = (h, acts, ns')" by (metis prod_cases3)
  then have "retry_ok ns'" using r triage_dedupe [OF t] retry_ok_cong by metis
  moreover have "retry_ok (commit f m) \<longleftrightarrow> retry_ok m" for m by (simp add: commit_def retry_ok_def)
  ultimately show ?thesis using mark_ok by (cases h) (auto simp: notify_send_def t Let_def)
qed

lemma notify_forecast_ok: "retry_ok ns \<Longrightarrow> retry_ok (snd (notify_forecast env ri f ns))"
  by (auto simp: notify_forecast_def notify_send_ok allow_ok split: prod.splits)

lemma notify_send_delivers:
  "\<not> isl (NE_send env (formatForecastCard (NE_g4 env) f)) \<Longrightarrow> list_ex accepted (fst (notify_send env ri f ns))"
proof -
  assume s: "\<not> isl (NE_send env (formatForecastCard (NE_g4 env) f))"
  obtain h acts ns' where t: "triageHandled env ri f ns = (h, acts, ns')" by (metis prod_cases3)
  show ?thesis using s triage_dedupe [OF t] by (cases h) (auto simp: notify_send_def t Let_def)
qed

text \<open>A round that asks for a due message: it is delivered, or refused by the backoff, which counts the round.\<close>

lemma notify_round:
  assumes "\<not> is_firing env ri" "Peek (NS_dedupe ns) i st" "F_ID f = i" "state_string (F_State f) = st"
    "\<not> isl (NE_send env (formatForecastCard (NE_g4 env) f))" "retry_ok ns" "notify_forecast env ri f ns = (acts, ns')"
  shows "NS_dedupe ns' = Commit (NS_dedupe ns) i st \<or>
    NS_dedupe ns' = NS_dedupe ns \<and> (\<exists>rt rt'. NS_retry ns i = Some rt \<and> NS_retry ns' i = Some rt' \<and> SinceFail rt' = SinceFail rt + 1)"
proof -
  obtain ok ns1 where a: "allowNotify i ns = (ok, ns1)" by force
  show ?thesis
  proof (cases ok)
    case True
    then have "(acts, ns') = notify_send env ri f ns1" using assms a by (simp add: notify_forecast_def)
    then have "NS_dedupe ns' = Commit (NS_dedupe ns1) i st"
      using notify_send_dedupe [of env ri f ns1] notify_send_delivers [OF assms(5), of ri ns1] assms(3,4)
      by (metis fst_conv snd_conv)
    then show ?thesis using allow_dedupe [OF a] by simp
  next
    case False
    then have "ns' = ns1" using assms a by (simp add: notify_forecast_def)
    then show ?thesis using a False allow_dedupe [OF a]
      by (auto simp: allowNotify_def Let_def split: option.splits if_splits)
  qed
qed

fun notify_rounds :: "(notify_env \<times> runner_info \<times> forecast) list \<Rightarrow> notify_state \<Rightarrow> notify_state" where
  "notify_rounds [] ns = ns"
| "notify_rounds ((env, ri, f) # rs) ns = notify_rounds rs (snd (notify_forecast env ri f ns))"

definition asks :: "string \<Rightarrow> string \<Rightarrow> notify_env \<times> runner_info \<times> forecast \<Rightarrow> bool" where
  "asks i st = (\<lambda>(env, ri, f). F_ID f = i \<and> F_State f \<noteq> Unset \<and> state_string (F_State f) = st \<and> \<not> is_firing env ri
     \<and> \<not> isl (NE_send env (formatForecastCard (NE_g4 env) f)))"

lemma notify_idle: "F_State f \<noteq> Unset \<Longrightarrow> map_get (NS_dedupe ns) (F_ID f) = state_string (F_State f) \<Longrightarrow> notify_forecast env ri f ns = ([], ns)"
proof -
  assume "F_State f \<noteq> Unset" "map_get (NS_dedupe ns) (F_ID f) = state_string (F_State f)"
  moreover from this(1) have "state_string (F_State f) \<noteq> []" by (simp add: state_string_def split: state.splits)
  ultimately have "\<not> Peek (NS_dedupe ns) (F_ID f) (state_string (F_State f))" by (simp add: Peek_def registered_def)
  then show ?thesis by (simp add: notify_forecast_def)
qed

lemma notify_rounds_idle: "list_all (asks i st) rs \<Longrightarrow> map_get (NS_dedupe ns) i = st \<Longrightarrow> notify_rounds rs ns = ns"
  by (induction rs arbitrary: ns) (auto simp: asks_def notify_idle)

lemma notify_rounds_progress:
  "list_all (asks i st) rs \<Longrightarrow> retry_ok ns \<Longrightarrow> Peek (NS_dedupe ns) i st \<Longrightarrow>
   map_get (NS_dedupe (notify_rounds rs ns)) i = st \<or>
   rs = [] \<or> (\<exists>rt rt'. NS_retry ns i = Some rt \<and> NS_retry (notify_rounds rs ns) i = Some rt' \<and>
        SinceFail rt' = SinceFail rt + int (length rs))"
proof (induction rs arbitrary: ns)
  case (Cons r rs)
  obtain env ri f where r: "r = (env, ri, f)" by (metis prod_cases3)
  obtain acts ns' where n: "notify_forecast env ri f ns = (acts, ns')" by force
  have ok': "retry_ok ns'" using notify_forecast_ok [OF Cons.prems(2), of env ri f] n by simp
  have "F_ID f = i" "state_string (F_State f) = st" "\<not> is_firing env ri" "\<not> isl (NE_send env (formatForecastCard (NE_g4 env) f))"
    using Cons.prems(1) by (auto simp: r asks_def)
  from notify_round [OF this(3) Cons.prems(3) this(1,2,4) Cons.prems(2) n]
  consider "NS_dedupe ns' = Commit (NS_dedupe ns) i st"
    | rt rt' where "NS_dedupe ns' = NS_dedupe ns" "NS_retry ns i = Some rt" "NS_retry ns' i = Some rt'" "SinceFail rt' = SinceFail rt + 1"
    by blast
  then show ?case
  proof cases
    case 1
    then have "map_get (NS_dedupe ns') i = st" by (simp add: Commit_def map_get_def)
    then show ?thesis using notify_rounds_idle [of i st rs ns'] Cons.prems(1) n by (simp add: r)
  next
    case 2
    have "list_all (asks i st) rs" "Peek (NS_dedupe ns') i st" using Cons.prems 2(1) by simp_all
    from Cons.IH [OF this(1) ok' this(2)] show ?thesis using 2 n by (cases rs) (auto simp: r)
  qed
qed simp

lemma notify_rounds_ok: "retry_ok ns \<Longrightarrow> retry_ok (notify_rounds rs ns)"
  by (induction rs arbitrary: ns) (auto simp: notify_forecast_ok split: prod.splits)

text \<open>
  Claim C18. A message that is due does not stay undelivered: if for five rounds in a row a sensor reports the same state, no alert of it is
  firing and the notifier would accept the card, then after those rounds the state is registered, whatever failures came before.
\<close>

theorem notify_liveness:
  assumes "retry_ok ns" "Peek (NS_dedupe ns) i st" "list_all (asks i st) rs" "length rs = 5"
  shows "map_get (NS_dedupe (notify_rounds rs ns)) i = st"
proof (rule ccontr)
  assume "map_get (NS_dedupe (notify_rounds rs ns)) i \<noteq> st"
  then obtain rt rt' where *: "NS_retry ns i = Some rt" "NS_retry (notify_rounds rs ns) i = Some rt'" "SinceFail rt' = SinceFail rt + 5"
    using notify_rounds_progress [OF assms(3,1,2)] assms(4) by force
  show False using retry_okD [OF assms(1) *(1)] retry_okD [OF notify_rounds_ok [OF assms(1)] *(2)] *(3) by linarith
qed

definition ok_env :: notify_env where
  "ok_env = \<lparr>NE_firing = \<lambda>_. Inr False, NE_publisher = None, NE_gate = \<lambda>_. NetErr [], NE_send = \<lambda>_. Inr (), NE_cluster = [], NE_runbook = [],
     NE_now = 0, NE_g4 = \<lambda>_. []\<rparr>"

definition crit_forecast :: forecast where
  "crit_forecast = \<lparr>F_ID = ''disk'', F_Now = 0, F_Value = Fin 9, F_Ceiling = Fin 10, Headroom = Fin 1, Utilization = Fin (9 / 10),
     EtaAggressive = None, EtaConservative = None, PerWindow = Map.empty, F_State = Critical, ExitStreak = 0,
     F_CeilingJumped = False\<rparr>"

definition failed_state :: notify_state where
  "failed_state = \<lparr>NS_dedupe = Map.empty, NS_retry = [''disk'' \<mapsto> \<lparr>Fails = 3, SinceFail = 0\<rparr>], NS_published = Map.empty, NS_meta = Map.empty\<rparr>"

theorem notify_liveness_witness:
  "map_get (NS_dedupe (notify_rounds (replicate 5 (ok_env, \<lparr>RI_kind = KCapacity, RI_filter = ''disk''\<rparr>, crit_forecast)) failed_state)) ''disk'' = ''critical''"
  by (rule notify_liveness)
     (auto simp: retry_ok_def failed_state_def Peek_def registered_def map_get_def rank_def asks_def ok_env_def crit_forecast_def state_string_def is_firing_def eval_nat_numeral)

end
