(* ===== verification/Spec.thy ===== *)
theory Spec
  imports Capacity
begin

text \<open>
  \<^verbatim>\<open>internal/spec/spec.go\<close>: user-defined service level objectives and their validation at start-up. The package has its
  own copy of the threshold overlay of \<^verbatim>\<open>internal/capacity\<close>; \<open>slo_Resolve\<close> is that copy.
\<close>

record slo =
  L_ID :: string
  L_Service :: string
  L_Description :: string
  L_SLIQuery :: string
  L_Objective :: f64
  L_WindowDays :: int
  L_BudgetUSD :: f64
  L_Thresholds :: "overlay option"

definition slo_Resolve :: "arch \<Rightarrow> overlay option \<Rightarrow> thresholds" where
  "slo_Resolve a ov =
     (let th = DefaultThresholds in
      case ov of None \<Rightarrow> th
      | Some x \<Rightarrow>
        let th = (case O_WarnEta x of None \<Rightarrow> th | Some s \<Rightarrow> if Parse a s > 0 then th\<lparr>WarnEta := Parse a s\<rparr> else th);
            th = (case O_CritEta x of None \<Rightarrow> th | Some s \<Rightarrow> if Parse a s > 0 then th\<lparr>CritEta := Parse a s\<rparr> else th);
            th = (case O_SoftRatio x of None \<Rightarrow> th | Some r \<Rightarrow> th\<lparr>SoftRatio := r\<rparr>)
        in (case O_CritRatio x of None \<Rightarrow> th | Some r \<Rightarrow> th\<lparr>CritRatio := r\<rparr>))"

definition slo_Validate :: "arch \<Rightarrow> slo \<Rightarrow> unit res" where
  "slo_Validate a s =
     (if L_ID s = [] then Inl (Err ''id'')
      else if L_SLIQuery s = [] then Inl (Err ''sli_query'')
      else if fle (L_Objective s) (Fin 0) \<or> fle (Fin 100) (L_Objective s) then Inl (Err ''objective'')
      else if L_WindowDays s < 0 then Inl (Err ''window_days'')
      else if L_Thresholds s \<noteq> None then validate (slo_Resolve a (L_Thresholds s))
      else Inr ())"

definition check_slo :: "arch \<Rightarrow> slo \<Rightarrow> slo res" where
  "check_slo a s =
     res_bind (slo_Validate a s) (\<lambda>_. Inr (if L_WindowDays s = 0 then s\<lparr>L_WindowDays := 28\<rparr> else s))"

definition Load :: "arch \<Rightarrow> filesys \<Rightarrow> (string \<Rightarrow> slo list res) \<Rightarrow> string \<Rightarrow> slo list res" where
  "Load a fs unmarshal path = load_defs fs unmarshal (check_slo a) path"

lemma slo_Resolve_eq: "slo_Resolve a ov = Resolve a ov"
  by (auto simp: slo_Resolve_def Resolve_def parsed_or_def Let_def split: option.splits)

definition slo_ok :: "arch \<Rightarrow> slo \<Rightarrow> bool" where
  "slo_ok a s \<longleftrightarrow> L_ID s \<noteq> [] \<and> L_SLIQuery s \<noteq> [] \<and> \<not> fle (L_Objective s) (Fin 0) \<and> \<not> fle (Fin 100) (L_Objective s)
     \<and> 0 < L_WindowDays s \<and> validate (slo_Resolve a (L_Thresholds s)) = Inr ()"

lemma check_slo_ok: "check_slo a s = Inr t \<Longrightarrow> slo_ok a t"
  by (auto simp: check_slo_def slo_Validate_def slo_ok_def res_bind_Inr slo_Resolve_eq Resolve_def Let_def validate_default
      split: if_splits)

text \<open>
  Claim C9. Whatever the files hold, every objective that the loader returns is well formed: it has an id, a query, an
  objective that is not outside (0, 100), a positive window, and thresholds that the forecast engine accepts, so that
  no evaluation of it fails on its thresholds. (The capacity loader gives no such guarantee.)
\<close>

theorem Load_valid:
  assumes "Load a fs unmarshal path = Inr slos"
  shows "list_all (slo_ok a) slos"
  using load_defs_checked [OF assms [unfolded Load_def]] check_slo_ok by (auto simp: list_all_iff)

definition fs0 :: filesys where
  "fs0 = \<lparr>Stat = (\<lambda>_. IsDir), ReadDir = (\<lambda>_. Inr [''a.yaml'', ''notes.txt'']), ReadFile = (\<lambda>p. Inr p)\<rparr>"

definition slo0 :: slo where
  "slo0 = \<lparr>L_ID = ''api'', L_Service = [], L_Description = [], L_SLIQuery = ''q'', L_Objective = Fin (999 / 10), L_WindowDays = 0,
     L_BudgetUSD = Fin 0, L_Thresholds = None\<rparr>"

theorem Load_valid_witness:
  "\<exists>slos. Load AMD64 fs0 (\<lambda>_. Inr [slo0]) ''slo'' = Inr slos \<and> slos \<noteq> [] \<and> list_all (slo_ok AMD64) slos"
proof -
  have "Load AMD64 fs0 (\<lambda>_. Inr [slo0]) ''slo'' = Inr [slo0\<lparr>L_WindowDays := 28\<rparr>]"
    by (simp add: Load_def load_defs_def def_paths_def fs0_def check_slo_def slo_Validate_def slo0_def is_yaml_def Ext_def Let_def)
  then show ?thesis using Load_valid by blast
qed

text \<open>A partial overlay of a capacity sensor can contradict the default of the other bound; then every evaluation fails.\<close>

lemma capacity_overlay_invalid:
  "validate (Resolve a (Some \<lparr>O_WarnEta = None, O_CritEta = None, O_SoftRatio = Some (Fin (99 / 100)), O_CritRatio = None\<rparr>)) = Inl (Err ''soft_ratio'')"
  by (simp add: Resolve_def validate_def DefaultThresholds_def rnd_19_20)

end
