(* ===== verification/Store.thy ===== *)
theory Store
  imports GoFormat "HOL-Library.AList" "HOL-Library.Product_Lexorder"
begin

text \<open>
  \<^verbatim>\<open>internal/store\<close>: sensor states, predictions and waste entries in SQLite. A table is an association list keyed by its
  primary key (the predictions, which have a running id, a list of rows); times are stored as texts and compared
  as texts, a REAL column holds NULL for NaN (as SQLite does), and \<^verbatim>\<open>ORDER BY\<close> is a stable sort. The statements
  themselves do not fail here; what fails is what the code or the schema refuses.
\<close>

subsection \<open>Rows\<close>

record sensor_state =
  SS_ID :: string
  SS_State :: string
  SS_Value :: f64
  SS_Util :: f64
  SS_NotifyAt :: time
  SS_UpdatedAt :: time

record state_cols =
  c_state :: string
  c_value :: "f64 option"
  c_util :: "f64 option"
  c_notify :: "string option"
  c_updated :: string

record prediction =
  P_ID :: int
  P_Sensor :: string
  P_At :: time
  P_EtaAggressive :: "f64 option"
  P_EtaConservative :: "f64 option"
  P_Actual :: f64
  P_Catalog :: string
  P_Ceiling :: "f64 option"
  P_Util :: "f64 option"

record pred_row =
  r_id :: int
  r_sensor :: string
  r_at :: string
  r_etaA :: "f64 option"
  r_etaC :: "f64 option"
  r_actual :: "f64 option"
  r_catalog :: string
  r_ceiling :: "f64 option"
  r_util :: "f64 option"

record waste_entry =
  W_Sensor :: string
  W_Resource :: string
  W_Reason :: string
  W_State :: string
  W_FirstSeen :: time
  W_LastNotified :: time
  W_Renotify :: duration
  W_USDPerDay :: f64
  W_TotalUSD :: f64
  W_DismissReason :: string
  W_DismissUntil :: time

record waste_cols =
  w_reason :: string
  w_state :: string
  w_first :: string
  w_last :: string
  w_renotify :: "f64 option"
  w_perday :: "f64 option"
  w_total :: "f64 option"
  w_dreason :: string
  w_duntil :: string

record store =
  T_states :: "(string \<times> state_cols) list"
  T_preds :: "pred_row list"
  T_next :: int
  T_waste :: "((string \<times> string) \<times> waste_cols) list"

definition empty_store :: store where
  "empty_store = \<lparr>T_states = [], T_preds = [], T_next = 1, T_waste = []\<rparr>"

definition sql_real :: "f64 \<Rightarrow> f64 option" where
  "sql_real x = (if x = NaN then None else Some x)"

definition coalesce0 :: "f64 option \<Rightarrow> f64" where
  "coalesce0 x = (case x of None \<Rightarrow> Fin 0 | Some v \<Rightarrow> v)"

definition read_time :: "string \<Rightarrow> time" where
  "read_time s = (case parse_nano s of None \<Rightarrow> time_zero | Some t \<Rightarrow> t)"

subsection \<open>Sensor states\<close>

definition SetState :: "time \<Rightarrow> sensor_state \<Rightarrow> store \<Rightarrow> store res" where
  "SetState now st s =
     (if SS_ID st = [] then Inl (Err ''sensor_id'')
      else let updated = (if IsZero (SS_UpdatedAt st) then now else SS_UpdatedAt st);
               lastNotify = (if IsZero (SS_NotifyAt st) then None else Some (fmt_nano (SS_NotifyAt st)))
           in Inr (s\<lparr>T_states := AList.update (SS_ID st)
                \<lparr>c_state = SS_State st, c_value = sql_real (SS_Value st), c_util = sql_real (SS_Util st),
                 c_notify = lastNotify, c_updated = fmt_nano updated\<rparr> (T_states s)\<rparr>))"

definition GetState :: "string \<Rightarrow> store \<Rightarrow> sensor_state option" where
  "GetState i s = map_option (\<lambda>c.
     \<lparr>SS_ID = i, SS_State = c_state c, SS_Value = coalesce0 (c_value c), SS_Util = coalesce0 (c_util c),
      SS_NotifyAt = (case c_notify c of None \<Rightarrow> time_zero | Some t \<Rightarrow> if t = [] then time_zero else read_time t),
      SS_UpdatedAt = read_time (c_updated c)\<rparr>) (map_of (T_states s) i)"

definition AllStates :: "store \<Rightarrow> (string \<times> string \<times> f64 \<times> time) list" where
  "AllStates s = map (\<lambda>(i, c). (i, c_state c, coalesce0 (c_value c), read_time (c_updated c))) (sort_key fst (T_states s))"

subsection \<open>Predictions\<close>

definition AppendPrediction :: "time \<Rightarrow> prediction \<Rightarrow> store \<Rightarrow> store res" where
  "AppendPrediction now p s =
     (if P_Sensor p = [] then Inl (Err ''sensor_id'')
      else let t = (if IsZero (P_At p) then now else P_At p) in
        Inr (s\<lparr>T_preds := T_preds s @ [\<lparr>r_id = T_next s, r_sensor = P_Sensor p, r_at = fmt_nano t,
                 r_etaA = Option.bind (P_EtaAggressive p) sql_real, r_etaC = Option.bind (P_EtaConservative p) sql_real,
                 r_actual = sql_real (P_Actual p), r_catalog = P_Catalog p,
                 r_ceiling = Option.bind (P_Ceiling p) sql_real, r_util = Option.bind (P_Util p) sql_real\<rparr>],
              T_next := T_next s + 1\<rparr>))"

definition scan_pred :: "pred_row \<Rightarrow> prediction res" where
  "scan_pred r = (case r_actual r of None \<Rightarrow> Inl (Err ''scan'')
     | Some v \<Rightarrow> Inr \<lparr>P_ID = r_id r, P_Sensor = r_sensor r, P_At = read_time (r_at r), P_EtaAggressive = r_etaA r,
         P_EtaConservative = r_etaC r, P_Actual = v, P_Catalog = r_catalog r, P_Ceiling = r_ceiling r, P_Util = r_util r\<rparr>)"

definition ListPredictions :: "string \<Rightarrow> time \<Rightarrow> store \<Rightarrow> prediction list res" where
  "ListPredictions i since s =
     res_all scan_pred (sort_key r_at (filter (\<lambda>r. r_sensor r = i \<and> fmt_nano since \<le> r_at r) (T_preds s)))"

definition PrunePredictions :: "time \<Rightarrow> store \<Rightarrow> nat \<times> store" where
  "PrunePredictions cutoff s =
     (let old = (\<lambda>r. r_at r < fmt_nano cutoff)
      in (length (filter old (T_preds s)), s\<lparr>T_preds := filter (\<lambda>r. \<not> old r) (T_preds s)\<rparr>))"

definition CountPredictions :: "store \<Rightarrow> nat" where
  "CountPredictions s = length (T_preds s)"

subsection \<open>Waste entries\<close>

text \<open>The column \<^verbatim>\<open>renotify_sec\<close> is \<^verbatim>\<open>NOT NULL\<close>; an entry without a renotify period is written as NULL.\<close>

definition SetWasteEntry :: "time \<Rightarrow> waste_entry \<Rightarrow> store \<Rightarrow> store res" where
  "SetWasteEntry now e s =
     (if W_Sensor e = [] \<or> W_Resource e = [] then Inl (Err ''sensor_id, resource_id'')
      else let firstSeen = (if IsZero (W_FirstSeen e) then now else W_FirstSeen e);
               renotify = (if W_Renotify e > 0 then sql_real (dur_Seconds (W_Renotify e)) else None);
               dismissUntil = (if IsZero (W_DismissUntil e) then [] else fmt_nano (W_DismissUntil e))
           in if renotify = None then Inl (Err ''NOT NULL constraint failed: waste_entries.renotify_sec'')
              else if sql_real (W_USDPerDay e) = None then Inl (Err ''NOT NULL constraint failed: waste_entries.waste_usd_per_day'')
              else if sql_real (W_TotalUSD e) = None then Inl (Err ''NOT NULL constraint failed: waste_entries.total_waste_usd'')
              else Inr (s\<lparr>T_waste := AList.update (W_Sensor e, W_Resource e)
                \<lparr>w_reason = W_Reason e, w_state = W_State e, w_first = fmt_nano firstSeen, w_last = fmt_nano (W_LastNotified e),
                 w_renotify = renotify, w_perday = sql_real (W_USDPerDay e), w_total = sql_real (W_TotalUSD e),
                 w_dreason = W_DismissReason e, w_duntil = dismissUntil\<rparr> (T_waste s)\<rparr>))"

definition scan_waste :: "arch \<Rightarrow> (string \<times> string) \<times> waste_cols \<Rightarrow> waste_entry" where
  "scan_waste a = (\<lambda>((sid, rid), c).
     \<lparr>W_Sensor = sid, W_Resource = rid, W_Reason = w_reason c, W_State = w_state c, W_FirstSeen = read_time (w_first c),
      W_LastNotified = read_time (w_last c), W_Renotify = wrap64 (to_i64 a (coalesce0 (w_renotify c)) * second),
      W_USDPerDay = coalesce0 (w_perday c), W_TotalUSD = coalesce0 (w_total c), W_DismissReason = w_dreason c,
      W_DismissUntil = (if w_duntil c = [] then time_zero else read_time (w_duntil c))\<rparr>)"

definition AllWasteEntries :: "arch \<Rightarrow> store \<Rightarrow> waste_entry list" where
  "AllWasteEntries a s = map (scan_waste a) (sort_key fst (T_waste s))"

text \<open>How the database adds up the column (its order and its rounding) is the parameter \<open>total_of\<close>.\<close>

definition ResolvedWasteSaving :: "(f64 list \<Rightarrow> f64) \<Rightarrow> store \<Rightarrow> f64" where
  "ResolvedWasteSaving total_of s =
     (let rows = filter (\<lambda>(k, c). w_state c = ''resolved'') (T_waste s)
      in if rows = [] then Fin 0 else total_of (map (\<lambda>(k, c). coalesce0 (w_total c)) rows))"

subsection \<open>Migrations\<close>

text \<open>
  \<open>exec i\<close> says whether the \<open>i\<close>th statement succeeds and \<open>record i\<close> whether its version can be recorded. The run
  answers with its result, the versions recorded and the statements executed.
\<close>

fun migrate_from :: "(nat \<Rightarrow> bool) \<Rightarrow> (nat \<Rightarrow> bool) \<Rightarrow> nat list \<Rightarrow> nat set \<Rightarrow> unit res \<times> nat set \<times> nat list" where
  "migrate_from exec record [] applied = (Inr (), applied, [])"
| "migrate_from exec record (i # is) applied =
     (if i \<in> applied then migrate_from exec record is applied
      else if \<not> exec i then (Inl (Err ''migration''), applied, [i])
      else if \<not> record i then (Inl (Err ''schema_migrations''), applied, [i])
      else let (r, ap, ex) = migrate_from exec record is (insert i applied) in (r, ap, i # ex))"

definition migrate :: "(nat \<Rightarrow> bool) \<Rightarrow> (nat \<Rightarrow> bool) \<Rightarrow> nat \<Rightarrow> nat set \<Rightarrow> unit res \<times> nat set \<times> nat list" where
  "migrate exec record nmig applied = migrate_from exec record [1..<nmig] applied"

lemma migrate_from_spec:
  "migrate_from exec record is applied = (r, ap, ex) \<Longrightarrow>
   applied \<subseteq> ap \<and> set ex \<inter> applied = {} \<and> (r = Inr () \<longrightarrow> set is \<subseteq> ap \<and> ap = applied \<union> set ex)"
proof (induction "is" arbitrary: applied r ap ex)
  case (Cons i "is")
  obtain r' ap' ex' where t: "migrate_from exec record is (insert i applied) = (r', ap', ex')" by (cases "migrate_from exec record is (insert i applied)")
  show ?case using Cons.prems Cons.IH [of applied r ap ex] Cons.IH [OF t] t by (auto split: if_splits)
qed auto

lemma migrate_from_done: "set is \<subseteq> applied \<Longrightarrow> migrate_from exec record is applied = (Inr (), applied, [])"
  by (induction "is") auto

subsection \<open>The states as a keyed store\<close>

text \<open>
  The interface the daemon's periodic jobs rely on: a text per id. A job that must run once per period keeps the key of
  its last successful period there (\<open>run_once\<close>).
\<close>

locale keyed_state =
  fixes getst :: "'s \<Rightarrow> string \<Rightarrow> string option" and setst :: "string \<Rightarrow> string \<Rightarrow> 's \<Rightarrow> 's"
  assumes get_set_same: "i \<noteq> [] \<Longrightarrow> getst (setst i v s) i = Some v"
    and get_set_other: "i \<noteq> j \<Longrightarrow> getst (setst i v s) j = getst s j"
begin

definition run_once :: "string \<Rightarrow> string \<Rightarrow> ('s \<Rightarrow> 's option) \<Rightarrow> 's \<Rightarrow> 's \<times> bool" where
  "run_once i key act s =
     (if getst s i = Some key then (s, False)
      else case act s of None \<Rightarrow> (s, False) | Some s' \<Rightarrow> (setst i key s', True))"

lemma once_done: "getst s i = Some key \<Longrightarrow> run_once i key act s = (s, False)"
  by (simp add: run_once_def)

lemma once_marks: "i \<noteq> [] \<Longrightarrow> run_once i key act s = (s', True) \<Longrightarrow> getst s' i = Some key"
  by (auto simp: run_once_def get_set_same split: if_splits option.splits)

lemma once_failed: "act s = None \<Longrightarrow> run_once i key act s = (s, False)"
  by (simp add: run_once_def)

lemma sets_frame: "\<forall>(j, v) \<in> set ws. j \<noteq> i \<Longrightarrow> getst (foldl (\<lambda>s (j, v). setst j v s) s ws) i = getst s i"
  by (induction ws arbitrary: s) (auto simp: get_set_other)

text \<open>Between two runs in one period other ids may be written: the second run still does nothing.\<close>

lemma once_per_key:
  assumes "i \<noteq> []" "run_once i key act s = (s', True)" "\<forall>(j, v) \<in> set ws. j \<noteq> i"
  shows "run_once i key act' (foldl (\<lambda>s (j, v). setst j v s) s' ws) = (foldl (\<lambda>s (j, v). setst j v s) s' ws, False)"
  using once_marks [OF assms(1,2)] sets_frame [OF assms(3)] by (intro once_done) simp

end

definition state_of :: "store \<Rightarrow> string \<Rightarrow> string option" where
  "state_of s i = map_option SS_State (GetState i s)"

definition mark :: "time \<Rightarrow> time \<Rightarrow> string \<Rightarrow> string \<Rightarrow> store \<Rightarrow> store" where
  "mark now notified i key s =
     (case SetState now \<lparr>SS_ID = i, SS_State = key, SS_Value = Fin 0, SS_Util = Fin 0, SS_NotifyAt = notified,
        SS_UpdatedAt = time_zero\<rparr> s of Inl _ \<Rightarrow> s | Inr s' \<Rightarrow> s')"

interpretation kv: keyed_state state_of "mark now notified" for now notified
  by unfold_locales (auto simp: state_of_def mark_def SetState_def GetState_def Let_def update_conv')

lemma SetState_frame [frame_simps]:
  "SetState now st s = Inr s' \<Longrightarrow> T_preds s' = T_preds s \<and> T_next s' = T_next s \<and> T_waste s' = T_waste s"
  by (auto simp: SetState_def Let_def split: if_splits)

subsection \<open>Properties\<close>

text \<open>
  Migrating is idempotent: once a run has succeeded, every version is recorded and a later run executes no statement, whatever
  the database would answer; and no run ever repeats a recorded statement.
\<close>

lemma migrate_idempotent:
  assumes "migrate exec record nmig applied = (Inr (), ap, ex)"
  shows "migrate exec' record' nmig ap = (Inr (), ap, []) \<and> {1..<nmig} \<subseteq> ap \<and> set ex \<inter> applied = {}"
  using migrate_from_spec [OF assms [unfolded migrate_def]] migrate_from_done [of "[1..<nmig]" ap]
  by (auto simp: migrate_def)

lemma migrate_idempotent_witness: "migrate (\<lambda>_. False) (\<lambda>_. False) 9 {1, 2, 3, 4, 5, 6, 7, 8} = (Inr (), {1, 2, 3, 4, 5, 6, 7, 8}, [])"
proof -
  have "migrate (\<lambda>_. True) (\<lambda>_. True) 9 {1, 2, 3, 4, 5} = (Inr (), {1, 2, 3, 4, 5, 6, 7, 8}, [6, 7, 8])"
    by (simp add: migrate_def upt_rec) auto
  from migrate_idempotent [OF this] show ?thesis by simp
qed

subsection \<open>What the store promises\<close>

text \<open>
  The store as its callers see it: the last state of each sensor, the predictions in the order in which they were recorded, and the
  last entry of each wasted resource. No row, text or column occurs in it.
\<close>

record store_view =
  V_states :: "string \<rightharpoonup> sensor_state"
  V_preds :: "prediction list"
  V_next :: int
  V_waste :: "string \<times> string \<rightharpoonup> waste_entry"

definition empty_view :: store_view where
  "empty_view = \<lparr>V_states = Map.empty, V_preds = [], V_next = 1, V_waste = Map.empty\<rparr>"

text \<open>What a caller can do to the store; an operation that fails leaves it as it is.\<close>

datatype store_op = OpState time sensor_state | OpPred time prediction | OpPrune time | OpWaste time waste_entry

fun apply_op :: "store_op \<Rightarrow> store \<Rightarrow> store res" where
  "apply_op (OpState now st) s = SetState now st s"
| "apply_op (OpPred now p) s = AppendPrediction now p s"
| "apply_op (OpPrune t) s = Inr (snd (PrunePredictions t s))"
| "apply_op (OpWaste now e) s = SetWasteEntry now e s"

fun run_ops :: "store_op list \<Rightarrow> store \<Rightarrow> bool list \<times> store" where
  "run_ops [] s = ([], s)"
| "run_ops (op # ops) s =
     (let (ok, s) = (case apply_op op s of Inl _ \<Rightarrow> (False, s) | Inr s' \<Rightarrow> (True, s')); (oks, s) = run_ops ops s in (ok # oks, s))"

text \<open>A number that is missing counts as zero in a state and as absent in a prediction.\<close>

definition nan0 :: "f64 \<Rightarrow> f64" where
  "nan0 x = (if x = NaN then Fin 0 else x)"

definition nan_none :: "f64 option \<Rightarrow> f64 option" where
  "nan_none x = (if x = Some NaN then None else x)"

definition wanted_entry :: "waste_entry \<Rightarrow> bool" where
  "wanted_entry e \<longleftrightarrow> W_Sensor e \<noteq> [] \<and> W_Resource e \<noteq> [] \<and> 0 < W_Renotify e \<and> W_USDPerDay e \<noteq> NaN \<and> W_TotalUSD e \<noteq> NaN"

text \<open>
  The operations on the view, with their success. Pruning must remove what is older than the second of the cutoff and keep what is younger; within
  that second either is allowed.
\<close>

inductive view_step :: "store_op \<Rightarrow> store_view \<Rightarrow> bool \<Rightarrow> store_view \<Rightarrow> bool" where
  put_state: "SS_ID st \<noteq> [] \<Longrightarrow> view_step (OpState now st) v True
    (v\<lparr>V_states := (V_states v)(SS_ID st \<mapsto> st\<lparr>SS_Value := nan0 (SS_Value st), SS_Util := nan0 (SS_Util st),
      SS_UpdatedAt := (if SS_UpdatedAt st = time_zero then now else SS_UpdatedAt st)\<rparr>)\<rparr>)"
| no_id: "SS_ID st = [] \<Longrightarrow> view_step (OpState now st) v False v"
| put_pred: "P_Sensor p \<noteq> [] \<Longrightarrow> view_step (OpPred now p) v True
    (v\<lparr>V_preds := V_preds v @ [p\<lparr>P_ID := V_next v, P_At := (if P_At p = time_zero then now else P_At p),
      P_EtaAggressive := nan_none (P_EtaAggressive p), P_EtaConservative := nan_none (P_EtaConservative p),
      P_Ceiling := nan_none (P_Ceiling p), P_Util := nan_none (P_Util p)\<rparr>], V_next := V_next v + 1\<rparr>)"
| no_sensor: "P_Sensor p = [] \<Longrightarrow> view_step (OpPred now p) v False v"
| prune: "\<forall>p \<in> set (V_preds v). (P_At p div second < c div second \<longrightarrow> \<not> keep p) \<and> (c div second < P_At p div second \<longrightarrow> keep p) \<Longrightarrow>
    view_step (OpPrune c) v True (v\<lparr>V_preds := filter keep (V_preds v)\<rparr>)"
| put_waste: "wanted_entry e \<Longrightarrow> view_step (OpWaste now e) v True
    (v\<lparr>V_waste := (V_waste v)((W_Sensor e, W_Resource e) \<mapsto> e\<lparr>W_FirstSeen := (if W_FirstSeen e = time_zero then now else W_FirstSeen e)\<rparr>)\<rparr>)"
| refused: "\<not> wanted_entry e \<Longrightarrow> view_step (OpWaste now e) v False v"

inductive view_run :: "store_op list \<Rightarrow> store_view \<Rightarrow> bool list \<Rightarrow> store_view \<Rightarrow> bool" where
  halt: "view_run [] v [] v"
| step: "view_step op v ok v' \<Longrightarrow> view_run ops v' oks v'' \<Longrightarrow> view_run (op # ops) v (ok # oks) v''"

text \<open>Times have four-digit years, and renotification periods are whole seconds.\<close>

fun op_ok :: "store_op \<Rightarrow> bool" where
  "op_ok (OpState now st) \<longleftrightarrow> year4 now \<and> year4 (SS_UpdatedAt st) \<and> year4 (SS_NotifyAt st)"
| "op_ok (OpPred now p) \<longleftrightarrow> year4 now \<and> year4 (P_At p)"
| "op_ok (OpPrune t) \<longleftrightarrow> year4 t"
| "op_ok (OpWaste now e) \<longleftrightarrow> year4 now \<and> year4 (W_FirstSeen e) \<and> year4 (W_LastNotified e) \<and> year4 (W_DismissUntil e)
     \<and> W_Renotify e mod second = 0 \<and> W_Renotify e < 2 ^ 63"

lemma read_fmt: "year4 t \<Longrightarrow> read_time (fmt_nano t) = t"
  by (simp add: read_time_def parse_nano_fmt)

lemma fmt_nano_Cons: "fmt_nano t \<noteq> []"
  by (simp add: fmt_nano_def fmt_secs_def fmt_date_def)

subsection \<open>The rows behind the view\<close>

definition row_of :: "prediction \<Rightarrow> pred_row" where
  "row_of p = \<lparr>r_id = P_ID p, r_sensor = P_Sensor p, r_at = fmt_nano (P_At p), r_etaA = P_EtaAggressive p, r_etaC = P_EtaConservative p,
     r_actual = sql_real (P_Actual p), r_catalog = P_Catalog p, r_ceiling = P_Ceiling p, r_util = P_Util p\<rparr>"

definition viewed :: "store \<Rightarrow> store_view \<Rightarrow> bool" where
  "viewed s v \<longleftrightarrow> distinct (map fst (T_states s)) \<and> (\<forall>i. GetState i s = V_states v i)
     \<and> T_preds s = map row_of (V_preds v) \<and> T_next s = V_next v
     \<and> (\<forall>p \<in> set (V_preds v). year4 (P_At p) \<and> P_ID p < V_next v) \<and> sorted_wrt (<) (map P_ID (V_preds v))
     \<and> distinct (map fst (T_waste s)) \<and> (\<forall>a k. map_option (\<lambda>c. scan_waste a (k, c)) (map_of (T_waste s) k) = V_waste v k)"

lemma bind_sql_real: "Option.bind x sql_real = nan_none x"
  by (cases x) (auto simp: sql_real_def nan_none_def)

lemma viewed_empty: "viewed empty_store empty_view"
  by (simp add: viewed_def empty_store_def empty_view_def GetState_def)

lemma viewed_state:
  assumes "viewed s v" "op_ok (OpState now st)" "SetState now st s = Inr s'"
  shows "\<exists>v'. view_step (OpState now st) v True v' \<and> viewed s' v'"
proof -
  have i: "SS_ID st \<noteq> []" using assms(3) by (auto simp: SetState_def)
  let ?st = "st\<lparr>SS_Value := nan0 (SS_Value st), SS_Util := nan0 (SS_Util st), SS_UpdatedAt := (if SS_UpdatedAt st = time_zero then now else SS_UpdatedAt st)\<rparr>"
  have "GetState j s' = ((V_states v)(SS_ID st \<mapsto> ?st)) j" for j
    using assms by (cases "j = SS_ID st")
      (auto simp: SetState_def GetState_def viewed_def update_conv' IsZero_def read_fmt fmt_nano_Cons coalesce0_def sql_real_def nan0_def Let_def split: if_splits)
  moreover have "distinct (map fst (T_states s'))" "T_preds s' = T_preds s" "T_next s' = T_next s" "T_waste s' = T_waste s"
    using assms by (auto simp: SetState_def viewed_def distinct_update Let_def split: if_splits)
  ultimately show ?thesis using view_step.put_state [OF i, of now v] assms(1)
    by (intro exI [of _ "v\<lparr>V_states := (V_states v)(SS_ID st \<mapsto> ?st)\<rparr>"]) (simp add: viewed_def)
qed

lemma viewed_pred:
  assumes "viewed s v" "op_ok (OpPred now p)" "AppendPrediction now p s = Inr s'"
  shows "\<exists>v'. view_step (OpPred now p) v True v' \<and> viewed s' v'"
proof -
  have i: "P_Sensor p \<noteq> []" using assms(3) by (auto simp: AppendPrediction_def)
  let ?p = "p\<lparr>P_ID := V_next v, P_At := (if P_At p = time_zero then now else P_At p), P_EtaAggressive := nan_none (P_EtaAggressive p),
    P_EtaConservative := nan_none (P_EtaConservative p), P_Ceiling := nan_none (P_Ceiling p), P_Util := nan_none (P_Util p)\<rparr>"
  have s': "s' = s\<lparr>T_preds := T_preds s @ [row_of ?p], T_next := T_next s + 1\<rparr>"
    using assms(1,3) i by (auto simp: AppendPrediction_def row_of_def viewed_def bind_sql_real IsZero_def Let_def)
  have "viewed s' (v\<lparr>V_preds := V_preds v @ [?p], V_next := V_next v + 1\<rparr>)"
    using assms(1,2) unfolding s' by (auto simp: viewed_def GetState_def sorted_wrt_append)
  then show ?thesis using view_step.put_pred [OF i, of now v] by auto
qed

lemma viewed_prune:
  assumes "viewed s v" "year4 c"
  shows "\<exists>v'. view_step (OpPrune c) v True v' \<and> viewed (snd (PrunePredictions c s)) v'"
proof -
  let ?keep = "\<lambda>p. \<not> fmt_nano (P_At p) < fmt_nano c"
  have y: "year4 (P_At p)" if "p \<in> set (V_preds v)" for p using assms(1) that by (simp add: viewed_def)
  have "view_step (OpPrune c) v True (v\<lparr>V_preds := filter ?keep (V_preds v)\<rparr>)"
  proof (intro view_step.prune ballI conjI impI)
    fix p assume p: "p \<in> set (V_preds v)"
    show "P_At p div second < c div second \<Longrightarrow> \<not> ?keep p" using fmt_nano_less [OF y [OF p] assms(2)] by simp
    show "c div second < P_At p div second \<Longrightarrow> ?keep p" using fmt_nano_less [OF assms(2) y [OF p]] by (simp add: not_less_iff_gr_or_eq)
  qed
  moreover have "viewed (snd (PrunePredictions c s)) (v\<lparr>V_preds := filter ?keep (V_preds v)\<rparr>)"
    using assms(1) by (auto simp: viewed_def PrunePredictions_def GetState_def filter_map o_def row_of_def sorted_wrt_map intro: sorted_wrt_filter)
  ultimately show ?thesis by blast
qed

lemma renotify_read:
  assumes "0 < d" "d mod second = 0" "d < 2 ^ 63"
  shows "dur_Seconds d \<noteq> NaN" "wrap64 (to_i64 a (dur_Seconds d) * second) = d"
proof -
  have d: "d = d div second * second" "0 < d div second" "d div second \<le> 2 ^ 53" using assms by auto
  have s: "dur_Seconds d = Fin (of_int (d div second))" using dur_Seconds_whole [of "d div second"] d by simp
  then show "dur_Seconds d \<noteq> NaN" by simp
  show "wrap64 (to_i64 a (dur_Seconds d) * second) = d"
    using d assms to_i64_of_int [of "d div second" a] wrap64_id [of d] unfolding s by (simp add: i64_def)
qed

lemma viewed_waste:
  assumes "viewed s v" "op_ok (OpWaste now e)" "SetWasteEntry now e s = Inr s'"
  shows "\<exists>v'. view_step (OpWaste now e) v True v' \<and> viewed s' v'"
proof -
  let ?k = "(W_Sensor e, W_Resource e)"
  let ?e = "e\<lparr>W_FirstSeen := (if W_FirstSeen e = time_zero then now else W_FirstSeen e)\<rparr>"
  have w: "wanted_entry e" using assms(3) by (auto simp: SetWasteEntry_def wanted_entry_def sql_real_def Let_def split: if_splits)
  then have r: "dur_Seconds (W_Renotify e) \<noteq> NaN" "wrap64 (to_i64 a (dur_Seconds (W_Renotify e)) * second) = W_Renotify e" for a
    using renotify_read [of "W_Renotify e"] assms(2) by (simp_all add: wanted_entry_def)
  obtain c where s': "s' = s\<lparr>T_waste := AList.update ?k c (T_waste s)\<rparr>" and c: "\<And>a. scan_waste a (?k, c) = ?e"
  proof
    let ?c = "\<lparr>w_reason = W_Reason e, w_state = W_State e, w_first = fmt_nano (W_FirstSeen ?e), w_last = fmt_nano (W_LastNotified e),
      w_renotify = Some (dur_Seconds (W_Renotify e)), w_perday = Some (W_USDPerDay e), w_total = Some (W_TotalUSD e),
      w_dreason = W_DismissReason e, w_duntil = (if W_DismissUntil e = time_zero then [] else fmt_nano (W_DismissUntil e))\<rparr>"
    show "s' = s\<lparr>T_waste := AList.update ?k ?c (T_waste s)\<rparr>"
      using assms(3) w r(1) by (auto simp: SetWasteEntry_def wanted_entry_def sql_real_def IsZero_def Let_def split: if_splits)
    show "scan_waste a (?k, ?c) = ?e" for a
      using assms(2) r(2) [of a] by (cases e) (auto simp: scan_waste_def coalesce0_def read_fmt fmt_nano_Cons)
  qed
  have "viewed s' (v\<lparr>V_waste := (V_waste v)(?k \<mapsto> ?e)\<rparr>)"
    using assms(1) c unfolding s' by (auto simp: viewed_def GetState_def distinct_update update_conv')
  then show ?thesis using view_step.put_waste [OF w, of now v] by blast
qed

lemma viewed_step:
  assumes "viewed s v" "op_ok op"
  shows "\<exists>v'. view_step op v (\<not> isl (apply_op op s)) v' \<and> viewed (case apply_op op s of Inl _ \<Rightarrow> s | Inr s' \<Rightarrow> s') v'"
proof (cases "apply_op op s")
  case (Inr s')
  then show ?thesis
    using assms viewed_state [OF assms(1)] viewed_pred [OF assms(1)] viewed_prune [OF assms(1)] viewed_waste [OF assms(1)] by (cases op) auto
next
  case (Inl e)
  have "view_step op v False v"
  proof (cases op)
    case (OpState now st)
    then show ?thesis using Inl by (auto simp: SetState_def Let_def split: if_splits intro: view_step.no_id)
  next
    case (OpPred now p)
    then show ?thesis using Inl by (auto simp: AppendPrediction_def Let_def split: if_splits intro: view_step.no_sensor)
  next
    case (OpWaste now w)
    have "\<not> wanted_entry w"
    proof
      assume a: "wanted_entry w"
      then show False
        using Inl assms(2) renotify_read(1) [of "W_Renotify w"]
        by (simp add: OpWaste SetWasteEntry_def wanted_entry_def sql_real_def Let_def)
    qed
    then show ?thesis unfolding OpWaste by (rule view_step.refused)
  qed (use Inl in simp)
  then show ?thesis using assms(1) Inl by auto
qed

lemma viewed_run: "viewed s v \<Longrightarrow> list_all op_ok ops \<Longrightarrow> run_ops ops s = (oks, s') \<Longrightarrow> \<exists>v'. view_run ops v oks v' \<and> viewed s' v'"
proof (induction ops arbitrary: s v oks)
  case Nil
  then show ?case by (auto intro: view_run.halt)
next
  case (Cons op ops)
  obtain v1 where v1: "view_step op v (\<not> isl (apply_op op s)) v1" "viewed (case apply_op op s of Inl _ \<Rightarrow> s | Inr s' \<Rightarrow> s') v1"
    using viewed_step [OF Cons.prems(1)] Cons.prems(2) by auto
  obtain oks1 where r: "run_ops ops (case apply_op op s of Inl _ \<Rightarrow> s | Inr s' \<Rightarrow> s') = (oks1, s')" "oks = (\<not> isl (apply_op op s)) # oks1"
    using Cons.prems(3) by (auto split: sum.splits prod.splits)
  from Cons.IH [OF v1(2) _ r(1)] Cons.prems(2) show ?case using v1(1) r(2) view_run.step by fastforce
qed

subsection \<open>What is read\<close>

lemma insort_key_map: "insort_key f (g x) (map g xs) = map g (insort_key (\<lambda>x. f (g x)) x xs)"
  by (induction xs) auto

lemma sort_key_map: "sort_key f (map g xs) = map g (sort_key (\<lambda>x. f (g x)) xs)"
  by (induction xs) (simp_all add: sort_key_def insort_key_map)

lemma scan_row: "year4 (P_At p) \<Longrightarrow> scan_pred (row_of p) = (if P_Actual p = NaN then Inl (Err ''scan'') else Inr p)"
  by (cases p) (simp add: scan_pred_def row_of_def sql_real_def read_fmt)

lemma scan_rows: "\<forall>p \<in> set ps. year4 (P_At p) \<Longrightarrow>
  res_all scan_pred (map row_of ps) = (if \<exists>p \<in> set ps. P_Actual p = NaN then Inl (Err ''scan'') else Inr ps)"
  by (induction ps) (simp_all add: scan_row)

lemma listed:
  assumes "viewed s v" "year4 since" "\<forall>p \<in> set (V_preds v). P_At p div second \<noteq> since div second"
    and "ps = filter (\<lambda>p. P_Sensor p = i \<and> since \<le> P_At p) (V_preds v)"
  shows "if \<exists>p \<in> set ps. P_Actual p = NaN then ListPredictions i since s = Inl (Err ''scan'')
    else \<exists>qs. ListPredictions i since s = Inr qs \<and> mset qs = mset ps \<and> sorted_wrt (\<lambda>p q. P_At p div second \<le> P_At q div second) qs"
proof -
  let ?qs = "sort_key (\<lambda>p. fmt_nano (P_At p)) ps"
  have y: "\<And>p. p \<in> set (V_preds v) \<Longrightarrow> year4 (P_At p)" using assms(1) by (simp add: viewed_def)
  have le: "fmt_nano since \<le> fmt_nano (P_At p) \<longleftrightarrow> since \<le> P_At p" if p: "p \<in> set (V_preds v)" for p
  proof (cases "since div second < P_At p div second")
    case True
    then have "since \<le> P_At p" by (meson linorder_not_less zdiv_mono1 zero_less_numeral order_less_imp_le)
    then show ?thesis using fmt_nano_less [OF assms(2) y [OF p] True] by simp
  next
    case False
    then have l: "P_At p div second < since div second" using assms(3) p by force
    then have "\<not> since \<le> P_At p" by (meson linorder_not_less zdiv_mono1 zero_less_numeral)
    then show ?thesis using fmt_nano_less [OF y [OF p] assms(2) l] by simp
  qed
  have f: "filter (\<lambda>r. r_sensor r = i \<and> fmt_nano since \<le> r_at r) (T_preds s) = map row_of ps"
  proof -
    have "filter (\<lambda>p. P_Sensor p = i \<and> fmt_nano since \<le> fmt_nano (P_At p)) (V_preds v) = ps"
      unfolding assms(4) using le by (intro filter_cong) auto
    moreover have "T_preds s = map row_of (V_preds v)" using assms(1) by (simp add: viewed_def)
    ultimately show ?thesis by (simp add: filter_map o_def row_of_def)
  qed
  have L: "ListPredictions i since s = res_all scan_pred (map row_of ?qs)"
    unfolding ListPredictions_def f sort_key_map by (simp add: row_of_def)
  have yq: "\<forall>p \<in> set ?qs. year4 (P_At p)" using y by (simp add: assms(4))
  have "sorted_wrt (\<lambda>p q. fmt_nano (P_At p) \<le> fmt_nano (P_At q)) ?qs" using sorted_sort_key [of "\<lambda>p. fmt_nano (P_At p)" ps] by (simp add: sorted_map)
  then have "sorted_wrt (\<lambda>p q. P_At p div second \<le> P_At q div second) ?qs"
  proof (rule sorted_wrt_mono_rel [rotated])
    fix p q assume "p \<in> set ?qs" "q \<in> set ?qs" "fmt_nano (P_At p) \<le> fmt_nano (P_At q)"
    then show "P_At p div second \<le> P_At q div second" using fmt_nano_less [of "P_At q" "P_At p"] yq by (metis not_less)
  qed
  then show ?thesis unfolding L scan_rows [OF yq] by simp
qed

lemma entry_of_row: "(W_Sensor (scan_waste a r), W_Resource (scan_waste a r)) = fst r"
  by (cases r) (auto simp: scan_waste_def)

lemma waste_list:
  assumes "viewed s v"
  shows "set (AllWasteEntries a s) = ran (V_waste v)" "sorted (map (\<lambda>e. (W_Sensor e, W_Resource e)) (AllWasteEntries a s))"
    "distinct (map (\<lambda>e. (W_Sensor e, W_Resource e)) (AllWasteEntries a s))"
proof -
  have d: "distinct (map fst (T_waste s))" "map_option (\<lambda>c. scan_waste a (k, c)) (map_of (T_waste s) k) = V_waste v k" for k
    using assms unfolding viewed_def by blast+
  have m: "map (\<lambda>e. (W_Sensor e, W_Resource e)) (AllWasteEntries a s) = map fst (sort_key fst (T_waste s))"
    by (simp add: AllWasteEntries_def entry_of_row)
  show "sorted (map (\<lambda>e. (W_Sensor e, W_Resource e)) (AllWasteEntries a s))" unfolding m by (rule sorted_sort_key)
  show "distinct (map (\<lambda>e. (W_Sensor e, W_Resource e)) (AllWasteEntries a s))"
    unfolding m using d(1) by (simp add: distinct_map)
  have "e \<in> ran (V_waste v) \<longleftrightarrow> (\<exists>k c. map_of (T_waste s) k = Some c \<and> e = scan_waste a (k, c))" for e
    unfolding ran_def by (auto simp flip: d(2))
  then show "set (AllWasteEntries a s) = ran (V_waste v)"
    using d(1) by (auto simp: AllWasteEntries_def image_iff)
qed

lemma state_list:
  assumes "viewed s v"
  shows "set (AllStates s) = {(i, SS_State st, SS_Value st, SS_UpdatedAt st) | i st. V_states v i = Some st}"
    "sorted (map fst (AllStates s))" "distinct (map fst (AllStates s))"
proof -
  have d: "distinct (map fst (T_states s))" "\<And>i. GetState i s = V_states v i" using assms by (simp_all add: viewed_def)
  have m: "map fst (AllStates s) = map fst (sort_key fst (T_states s))" by (simp add: AllStates_def o_def split_beta)
  show "sorted (map fst (AllStates s))" unfolding m by (rule sorted_sort_key)
  show "distinct (map fst (AllStates s))" unfolding m using d(1) by (simp add: distinct_map)
  show "set (AllStates s) = {(i, SS_State st, SS_Value st, SS_UpdatedAt st) | i st. V_states v i = Some st}"
    using d(1) by (auto simp: AllStates_def image_iff GetState_def simp flip: d(2)) (force dest: map_of_SomeD)+
qed

text \<open>
  Claim C5. The store keeps its promises, whatever sequence of operations is run from an empty database: there is a run of the same operations on the
  view, with the same operations refused (those without an id, and waste entries without a period or with a missing amount), such that
  every read of the store gives what the view holds. A sensor's state is the one last written for it; the predictions since a time are those
  recorded since then and not pruned, in the order of their seconds, or an error if one of them has no value; the number of predictions is theirs,
  and their ids increase; the lists of states and of waste entries hold each key once, in order.
\<close>

theorem store_refines:
  assumes "list_all op_ok ops" "run_ops ops empty_store = (oks, s)"
  shows "\<exists>v. view_run ops empty_view oks v \<and> (\<forall>i. GetState i s = V_states v i)
    \<and> (\<forall>i since ps. year4 since \<and> (\<forall>p \<in> set (V_preds v). P_At p div second \<noteq> since div second)
          \<and> ps = filter (\<lambda>p. P_Sensor p = i \<and> since \<le> P_At p) (V_preds v) \<longrightarrow>
        (if \<exists>p \<in> set ps. P_Actual p = NaN then ListPredictions i since s = Inl (Err ''scan'')
         else \<exists>qs. ListPredictions i since s = Inr qs \<and> mset qs = mset ps \<and> sorted_wrt (\<lambda>p q. P_At p div second \<le> P_At q div second) qs))
    \<and> CountPredictions s = length (V_preds v) \<and> sorted_wrt (<) (map P_ID (V_preds v))
    \<and> set (AllStates s) = {(i, SS_State st, SS_Value st, SS_UpdatedAt st) | i st. V_states v i = Some st}
    \<and> sorted (map fst (AllStates s)) \<and> distinct (map fst (AllStates s))
    \<and> (\<forall>a. set (AllWasteEntries a s) = ran (V_waste v) \<and> sorted (map (\<lambda>e. (W_Sensor e, W_Resource e)) (AllWasteEntries a s))
         \<and> distinct (map (\<lambda>e. (W_Sensor e, W_Resource e)) (AllWasteEntries a s)))"
proof -
  obtain v where v: "view_run ops empty_view oks v" "viewed s v" using viewed_run [OF viewed_empty assms] by blast
  moreover have "\<forall>i. GetState i s = V_states v i" "CountPredictions s = length (V_preds v)" "sorted_wrt (<) (map P_ID (V_preds v))"
    using v(2) by (simp_all add: viewed_def CountPredictions_def)
  ultimately show ?thesis using listed [OF v(2)] waste_list [OF v(2)] state_list [OF v(2)] by (intro exI [of _ v]) blast
qed

definition disk_state :: sensor_state where
  "disk_state = \<lparr>SS_ID = ''disk'', SS_State = ''warning'', SS_Value = Fin 1, SS_Util = Fin 0, SS_NotifyAt = time_zero, SS_UpdatedAt = 0\<rparr>"

definition disk_pred :: prediction where
  "disk_pred = \<lparr>P_ID = 0, P_Sensor = ''disk'', P_At = 0, P_EtaAggressive = None, P_EtaConservative = Some (Fin 7), P_Actual = Fin 1, P_Catalog = [],
     P_Ceiling = None, P_Util = None\<rparr>"

definition idle_entry :: waste_entry where
  "idle_entry = \<lparr>W_Sensor = ''elb'', W_Resource = ''Idle'', W_Reason = [], W_State = ''notified'', W_FirstSeen = 0, W_LastNotified = 0, W_Renotify = 7 * day24,
     W_USDPerDay = Fin 5, W_TotalUSD = Fin 0, W_DismissReason = [], W_DismissUntil = time_zero\<rparr>"

lemma Year_0: "Year 0 = 1970"
proof -
  have "date_time 1970 1 1 = 0" by (simp add: date_time_def days_of_civil_def days_to_year_def)
  then show ?thesis using civil_date_time(1) [of 1 1 1970] by (simp add: month_len_def)
qed

lemma year4_0: "year4 0"
  by (simp add: year4_def Year_0)

lemma year4_zero: "year4 time_zero"
proof -
  have "civil_of_days (- 719162) = (1, 1, 1)" by code_simp
  then show ?thesis by (simp add: year4_def Year_def civil_def day_number_def time_zero_def)
qed

theorem store_refines_witness:
  "\<exists>s v. run_ops [OpState 0 disk_state, OpPred 0 disk_pred, OpPred 0 (disk_pred\<lparr>P_Sensor := []\<rparr>), OpPrune 0, OpWaste 0 idle_entry,
       OpWaste 0 (idle_entry\<lparr>W_Renotify := 0\<rparr>)] empty_store = ([True, True, False, True, True, False], s)
     \<and> view_run [OpState 0 disk_state, OpPred 0 disk_pred, OpPred 0 (disk_pred\<lparr>P_Sensor := []\<rparr>), OpPrune 0, OpWaste 0 idle_entry,
       OpWaste 0 (idle_entry\<lparr>W_Renotify := 0\<rparr>)] empty_view [True, True, False, True, True, False] v
     \<and> GetState ''disk'' s = V_states v ''disk'' \<and> CountPredictions s = length (V_preds v)"
proof -
  let ?ops = "[OpState 0 disk_state, OpPred 0 disk_pred, OpPred 0 (disk_pred\<lparr>P_Sensor := []\<rparr>), OpPrune 0, OpWaste 0 idle_entry,
     OpWaste 0 (idle_entry\<lparr>W_Renotify := 0\<rparr>)]"
  have ok: "list_all op_ok ?ops" using year4_0 year4_zero by (simp add: disk_state_def disk_pred_def idle_entry_def)
  have "dur_Seconds (7 * day24) \<noteq> NaN" using renotify_read(1) [of "7 * day24"] by simp
  then obtain s where s: "run_ops ?ops empty_store = ([True, True, False, True, True, False], s)"
    by (simp add: SetState_def AppendPrediction_def SetWasteEntry_def disk_state_def disk_pred_def idle_entry_def sql_real_def Let_def)
  then show ?thesis using store_refines [OF ok s] by blast
qed

text \<open>
  Reading a sensor's state gives what was last written for it (times of the years 0 to 9999 exactly, a missing number for NaN), and a write for
  one sensor changes nothing that is read for another.
\<close>

lemma state_roundtrip:
  assumes "SetState now st s = Inr s'" "year4 (SS_UpdatedAt st)" "year4 (SS_NotifyAt st)" "\<not> IsZero (SS_UpdatedAt st)" "j \<noteq> SS_ID st"
  shows "GetState (SS_ID st) s' = Some (st\<lparr>SS_Value := coalesce0 (sql_real (SS_Value st)), SS_Util := coalesce0 (sql_real (SS_Util st))\<rparr>)
       \<and> GetState j s' = GetState j s"
proof -
  show ?thesis using assms
    by (auto simp: fmt_nano_Cons SetState_def GetState_def Let_def update_conv' read_time_def parse_nano_fmt IsZero_def split: if_splits)
qed

lemma state_roundtrip_witness:
  "\<exists>s'. SetState 0 \<lparr>SS_ID = ''disk'', SS_State = ''warning'', SS_Value = Fin 1, SS_Util = NaN, SS_NotifyAt = 0, SS_UpdatedAt = 0\<rparr> empty_store = Inr s'
     \<and> GetState ''disk'' s' = Some \<lparr>SS_ID = ''disk'', SS_State = ''warning'', SS_Value = Fin 1, SS_Util = Fin 0, SS_NotifyAt = 0, SS_UpdatedAt = 0\<rparr>"
proof -
  let ?st = "\<lparr>SS_ID = ''disk'', SS_State = ''warning'', SS_Value = Fin 1, SS_Util = NaN, SS_NotifyAt = 0, SS_UpdatedAt = 0\<rparr>"
  obtain s' where s': "SetState 0 ?st empty_store = Inr s'" by (simp add: SetState_def IsZero_def time_zero_def Let_def)
  from state_roundtrip [OF this, of "''x''"] show ?thesis using s' year4_0
    by (simp add: IsZero_def time_zero_def sql_real_def coalesce0_def)
qed

text \<open>
  Pruning is exact to the second although times are compared as texts: in a store that a view describes no prediction from a second before the
  cutoff's survives, none from a later second is lost, the order of the rest is kept, and the number reported is the number removed.
\<close>

lemma PrunePredictions_spec:
  assumes "viewed s v" "year4 cutoff" "PrunePredictions cutoff s = (n, s')"
  shows "(\<forall>r \<in> set (T_preds s'). cutoff div second \<le> read_time (r_at r) div second)
       \<and> filter (\<lambda>r. cutoff div second < read_time (r_at r) div second) (T_preds s')
         = filter (\<lambda>r. cutoff div second < read_time (r_at r) div second) (T_preds s)
       \<and> n + length (T_preds s') = length (T_preds s) \<and> T_states s' = T_states s"
proof -
  have w: "\<exists>t. year4 t \<and> r_at r = fmt_nano t \<and> read_time (r_at r) = t" if "r \<in> set (T_preds s)" for r
    using assms(1) that by (auto simp: viewed_def row_of_def read_fmt)
  have old: "r_at r < fmt_nano cutoff" if "r \<in> set (T_preds s)" "read_time (r_at r) div second < cutoff div second" for r
    using w [OF that(1)] that(2) fmt_nano_less assms(2) by metis
  have new: "\<not> r_at r < fmt_nano cutoff" if "r \<in> set (T_preds s)" "cutoff div second < read_time (r_at r) div second" for r
    using w [OF that(1)] that(2) fmt_nano_less assms(2) by (metis less_asym)
  have s': "T_preds s' = filter (\<lambda>r. \<not> r_at r < fmt_nano cutoff) (T_preds s)" "T_states s' = T_states s"
    "n = length (filter (\<lambda>r. r_at r < fmt_nano cutoff) (T_preds s))"
    using assms(3) by (auto simp: PrunePredictions_def Let_def)
  have "filter (\<lambda>r. cutoff div second < read_time (r_at r) div second) (T_preds s')
         = filter (\<lambda>r. cutoff div second < read_time (r_at r) div second) (T_preds s)"
    unfolding s' filter_filter using new by (intro filter_cong) auto
  moreover have "n + length (T_preds s') = length (T_preds s)" unfolding s' by (rule sum_length_filter_compl)
  moreover have "\<forall>r \<in> set (T_preds s'). cutoff div second \<le> read_time (r_at r) div second"
    using old unfolding s' by (simp only: set_filter) (blast intro: leI)
  ultimately show ?thesis using s'(2) by blast
qed

lemma PrunePredictions_spec_witness:
  "\<exists>n s'. PrunePredictions 0 empty_store = (n, s') \<and> n + length (T_preds s') = 0"
proof -
  obtain n s' where "PrunePredictions 0 empty_store = (n, s')" by (cases "PrunePredictions 0 empty_store")
  then show ?thesis using PrunePredictions_spec [OF viewed_empty year4_0, of n s'] by (auto simp: empty_store_def)
qed

text \<open>Within one second the text order is not the order of the times.\<close>

lemma text_order_example: "fmt_nano 500000000 < fmt_nano 0"
proof -
  have "day_number 500000000 = day_number 0" "sec_of_day 500000000 = sec_of_day 0" by (simp_all add: day_number_def sec_of_day_def)
  then have "fmt_secs 500000000 = fmt_secs 0" by (simp add: fmt_secs_def fmt_date_def Year_def Month_def Day_def civil_def)
  moreover have "fmt_frac 500000000 @ ''Z'' < ''Z''" by (simp add: fmt_frac_def less_char_def)
  ultimately show ?thesis by (simp add: fmt_nano_def less_append_same fmt_frac_def)
qed

text \<open>
  An entry without a renotify period, which is how a rule without \<^verbatim>\<open>renotify\<close> is tracked, is never stored:
  the explicit NULL violates the schema, so its dismissal is lost on a restart; an entry with a period and finite amounts is.
\<close>

lemma SetWasteEntry_stored_iff:
  "is_ok (SetWasteEntry now e s) = (W_Sensor e \<noteq> [] \<and> W_Resource e \<noteq> [] \<and> 0 < W_Renotify e \<and> dur_Seconds (W_Renotify e) \<noteq> NaN
     \<and> W_USDPerDay e \<noteq> NaN \<and> W_TotalUSD e \<noteq> NaN)"
  by (simp add: SetWasteEntry_def Let_def sql_real_def)

text \<open>
  One prediction recorded with a NaN value (a query that divides zero by zero) makes every later listing fail that covers
  it, since the column is read back as NULL into a number.
\<close>

lemma NaN_poisons_listing:
  assumes "AppendPrediction now p s = Inr s1" "P_Actual p = NaN" "\<not> IsZero (P_At p)" "year4 (P_At p)" "year4 since"
    and "since div second < P_At p div second"
  shows "ListPredictions (P_Sensor p) since s1 = Inl (Err ''scan'')"
proof -
  let ?rows = "sort_key r_at (filter (\<lambda>r. r_sensor r = P_Sensor p \<and> fmt_nano since \<le> r_at r) (T_preds s1))"
  have fail: "res_all scan_pred rs = Inl (Err ''scan'')" if "\<exists>r \<in> set rs. r_actual r = None" for rs
    using that
  proof (induction rs)
    case (Cons r rs)
    show ?case
    proof (cases "r_actual r")
      case (Some v)
      then have "\<exists>r \<in> set rs. r_actual r = None" using Cons.prems by auto
      then show ?thesis using Cons.IH Some by (simp add: scan_pred_def)
    qed (simp add: scan_pred_def)
  qed simp
  obtain row where row: "row \<in> set (T_preds s1)" "r_sensor row = P_Sensor p" "r_at row = fmt_nano (P_At p)" "r_actual row = None"
    using assms(1-3) by (fastforce simp: AppendPrediction_def sql_real_def Let_def split: if_splits)
  have "fmt_nano since \<le> r_at row" using fmt_nano_less [OF assms(5,4,6)] row(3) by simp
  then have "\<exists>r \<in> set ?rows. r_actual r = None" using row by auto
  then show ?thesis unfolding ListPredictions_def by (rule fail)
qed

lemma year4_minute: "year4 minute"
proof -
  have "Year minute = Year 0" by (simp add: Year_def civil_def day_number_def)
  then show ?thesis by (simp add: year4_def Year_0)
qed

lemma NaN_poisons_listing_witness:
  "\<exists>s1. AppendPrediction 0 \<lparr>P_ID = 0, P_Sensor = ''disk'', P_At = minute, P_EtaAggressive = None, P_EtaConservative = None, P_Actual = NaN,
     P_Catalog = [], P_Ceiling = None, P_Util = None\<rparr> empty_store = Inr s1 \<and> ListPredictions ''disk'' 0 s1 = Inl (Err ''scan'')"
proof -
  let ?p = "\<lparr>P_ID = 0, P_Sensor = ''disk'', P_At = minute, P_EtaAggressive = None, P_EtaConservative = None, P_Actual = NaN,
     P_Catalog = [], P_Ceiling = None, P_Util = None\<rparr>"
  obtain s1 where s1: "AppendPrediction 0 ?p empty_store = Inr s1" by (simp add: AppendPrediction_def Let_def)
  from NaN_poisons_listing [OF this, of 0] show ?thesis using s1 year4_0 year4_minute by (simp add: IsZero_def time_zero_def)
qed

end
