(* ===== verification/Pricing.thy ===== *)
theory Pricing
  imports Retry Files Store
begin

text \<open>
  \<^verbatim>\<open>internal/pricing\<close>: price queries (\<^verbatim>\<open>types.go\<close>), the file cache (\<^verbatim>\<open>cache.go\<close>), the paged AWS query client
  (\<^verbatim>\<open>aws_query.go\<close>), rates (\<^verbatim>\<open>aws_bulk.go\<close>) and the facade \<^verbatim>\<open>Catalog.Quote\<close> (\<^verbatim>\<open>catalog.go\<close>). HTTP answers, the JSON
  codecs, the general number parser and the hash are parameters. A decoded JSON map is the list of its members in the
  order in which the run iterates over it.
\<close>

subsection \<open>Types\<close>

type_synonym attrs = "string \<rightharpoonup> string"

record quote =
  UnitPrice :: f64
  Currency :: string
  Unit :: string
  QSource :: string
  Stale :: bool

definition attrs_get :: "attrs \<Rightarrow> string \<Rightarrow> string \<Rightarrow> string" where
  "attrs_get a key dflt = (if map_get a key \<noteq> [] then map_get a key else dflt)"

text \<open>The insertion sort of the package, on strings.\<close>

definition sortStrings :: "string list \<Rightarrow> string list" where
  "sortStrings s = swap_sort (\<lambda>a b. a < b) s"

interpretation sort_strings: sorter sortStrings "\<lambda>_. True"
proof
  show "mset (sortStrings xs) = mset xs" for xs by (simp add: sortStrings_def mset_swap_sort)
  show "sorted (sortStrings xs)" if "\<forall>x \<in> set xs. True" for xs by (simp add: sortStrings_def swap_sort_eq_sort)
qed

subsection \<open>Rates\<close>

record rate =
  R_SKU :: string
  R_Unit :: string
  R_Currency :: string
  R_Price :: f64

record dim =
  D_Unit :: string
  D_PricePerUnit :: "(string \<times> string) list"

type_synonym od_term = "(string \<times> dim) list"

fun first_some :: "('a \<Rightarrow> 'b option) \<Rightarrow> 'a list \<Rightarrow> 'b option" where
  "first_some f [] = None"
| "first_some f (x # xs) = (case f x of Some y \<Rightarrow> Some y | None \<Rightarrow> first_some f xs)"

definition parsePrice :: "(string \<Rightarrow> f64 option) \<Rightarrow> string \<Rightarrow> f64 option" where
  "parsePrice pf s = pf (TrimSpace s)"

definition dim_rate :: "(string \<Rightarrow> f64 option) \<Rightarrow> string \<Rightarrow> dim \<Rightarrow> rate option" where
  "dim_rate pf sku d =
     first_some (\<lambda>(cur, priceStr). case parsePrice pf priceStr of None \<Rightarrow> None
       | Some v \<Rightarrow> if fle v (Fin 0) then None else Some \<lparr>R_SKU = sku, R_Unit = D_Unit d, R_Currency = cur, R_Price = v\<rparr>)
     (D_PricePerUnit d)"

definition firstRate :: "(string \<Rightarrow> f64 option) \<Rightarrow> string \<Rightarrow> od_term \<Rightarrow> rate option" where
  "firstRate pf sku t =
     first_some (\<lambda>k. case map_of t k of None \<Rightarrow> None | Some d \<Rightarrow> dim_rate pf sku d) (sortStrings (map fst t))"

record product =
  P_SKU :: string
  P_Family :: string
  P_Attributes :: "string \<rightharpoonup> string"
  P_OnDemand :: "(string \<times> od_term) list"

definition rateOf :: "(string \<Rightarrow> f64 option) \<Rightarrow> product \<Rightarrow> rate option" where
  "rateOf pf p = (case P_OnDemand p of [] \<Rightarrow> None | (_, t) # _ \<Rightarrow> firstRate pf (P_SKU p) t)"

subsection \<open>The paged query\<close>

type_synonym filters = "(string \<times> string) list"

text \<open>What lies outside: the answer to the request for a page, and the decoders.\<close>

record price_api =
  Post :: "nat \<Rightarrow> string \<Rightarrow> filters \<Rightarrow> string \<Rightarrow> http"
  DecodePage :: "string \<Rightarrow> (string list \<times> string) option"
  DecodeProduct :: "string \<Rightarrow> product option"
  ParsePrice :: "string \<Rightarrow> f64 option"

definition fetch_page :: "price_api \<Rightarrow> string \<Rightarrow> filters \<Rightarrow> nat \<Rightarrow> string \<Rightarrow> (product list \<times> string) res" where
  "fetch_page api svc fs page next =
     (case Post api page svc fs next of
        BadRequest e \<Rightarrow> Inl (Err e)
      | NetErr e \<Rightarrow> Inl (Err e)
      | Resp st data \<Rightarrow>
          if st \<noteq> 200 then Inl (Err (take 300 data))
          else res_bind (opt_res ''page'' (DecodePage api data)) (\<lambda>(elems, tok).
            res_bind (res_all (\<lambda>e. opt_res e (DecodeProduct api e)) elems) (\<lambda>ps. Inr (ps, tok))))"

function get_pages :: "price_api \<Rightarrow> string \<Rightarrow> filters \<Rightarrow> nat \<Rightarrow> string \<Rightarrow> product list \<Rightarrow> product list res" where
  "get_pages api svc fs page next out =
     (case fetch_page api svc fs page next of Inl e \<Rightarrow> Inl e
      | Inr (ps, tok) \<Rightarrow> if tok = [] \<or> page > 100 then Inr (out @ ps) else get_pages api svc fs (page + 1) tok (out @ ps))"
  by pat_completeness auto
termination by (relation "measure (\<lambda>(api, svc, fs, page, next, out). 102 - page)") auto

declare get_pages.simps [simp del]

definition GetProducts :: "price_api \<Rightarrow> string \<Rightarrow> filters \<Rightarrow> product list res" where
  "GetProducts api svc fs = get_pages api svc fs 0 [] []"

text \<open>Reading the pages one after the other: \<open>tok\<close> is the token the page before handed on.\<close>

fun page_chain :: "price_api \<Rightarrow> string \<Rightarrow> filters \<Rightarrow> nat \<Rightarrow> string \<Rightarrow> product list list \<Rightarrow> bool" where
  "page_chain api svc fs page tok [] = False"
| "page_chain api svc fs page tok (ps # pss) =
     (case fetch_page api svc fs page tok of Inl _ \<Rightarrow> False
      | Inr (qs, tok') \<Rightarrow> qs = ps \<and> (if pss = [] then tok' = [] \<or> page = 101 else tok' \<noteq> [] \<and> page_chain api svc fs (Suc page) tok' pss))"

lemma get_pages_chain:
  "page \<le> 101 \<Longrightarrow> get_pages api svc fs page tok out = Inr ps \<Longrightarrow>
   \<exists>pss. page_chain api svc fs page tok pss \<and> ps = out @ concat pss \<and> page + length pss \<le> 102"
proof (induction api svc fs page tok out arbitrary: ps rule: get_pages.induct)
  case (1 api svc fs page tok out)
  obtain qs t where f: "fetch_page api svc fs page tok = Inr (qs, t)"
    using "1.prems"(2) by (subst (asm) get_pages.simps) (auto split: sum.splits)
  show ?case
  proof (cases "t = [] \<or> page > 100")
    case True
    then have "ps = out @ qs" using "1.prems"(2) f by (subst (asm) get_pages.simps) auto
    then show ?thesis using f True "1.prems"(1) by (intro exI [of _ "[qs]"]) auto
  next
    case False
    have "get_pages api svc fs (page + 1) t (out @ qs) = Inr ps"
      using "1.prems"(2) f False by (subst (asm) get_pages.simps) auto
    then obtain pss where p: "page_chain api svc fs (page + 1) t pss" "ps = (out @ qs) @ concat pss" "page + 1 + length pss \<le> 102"
      using "1.IH" [OF f refl False] False by auto
    then have "pss \<noteq> []" by auto
    then show ?thesis using p f False by (intro exI [of _ "qs # pss"]) auto
  qed
qed

text \<open>
  Claim C16. The paged price query ends: it reads at most 102 pages, whatever the server answers, each with the token of the page before,
  and its result is the products of these pages in order, up to the first page without a token (or the limit).
\<close>

theorem GetProducts_pages:
  assumes "GetProducts api svc fs = Inr ps"
  shows "\<exists>pss. page_chain api svc fs 0 [] pss \<and> ps = concat pss \<and> length pss \<le> 102"
  using get_pages_chain [OF _ assms [unfolded GetProducts_def]] by auto

definition api0 :: price_api where
  "api0 = \<lparr>Post = (\<lambda>page svc fs next. if next = [] then Resp 200 ''a'' else Resp 200 ''b''),
     DecodePage = (\<lambda>d. if d = ''a'' then Some ([''x''], ''t'') else Some ([''y'', ''z''], [])),
     DecodeProduct = (\<lambda>e. Some \<lparr>P_SKU = e, P_Family = [], P_Attributes = Map.empty, P_OnDemand = []\<rparr>), ParsePrice = (\<lambda>_. None)\<rparr>"

theorem GetProducts_pages_witness:
  "\<exists>ps. GetProducts api0 ''AmazonEC2'' [] = Inr ps \<and> length ps = 3 \<and> (\<exists>pss. page_chain api0 ''AmazonEC2'' [] 0 [] pss \<and> ps = concat pss \<and> length pss \<le> 102)"
proof -
  have "\<exists>ps. GetProducts api0 ''AmazonEC2'' [] = Inr ps \<and> length ps = 3"
    by (simp add: GetProducts_def get_pages.simps fetch_page_def api0_def)
  then show ?thesis using GetProducts_pages by blast
qed

subsection \<open>Offer files\<close>

text \<open>
  The offer file is read section by section. A section of the file lists its members in order, with what the
  decoder makes of each; \<open>eof_ok\<close> tells that the stream did not end inside it. The members of an unclosed section are
  those before the end of the stream.
\<close>

record offer =
  I_Regions :: "string \<rightharpoonup> string"
  I_Current :: string

definition LocateOfferURL :: "(string \<rightharpoonup> offer) option \<Rightarrow> string \<Rightarrow> string \<Rightarrow> string res" where
  "LocateOfferURL idx svc region =
     res_bind (opt_res ''index'' idx) (\<lambda>offers. case offers svc of None \<Rightarrow> Inl (Err ''not found'')
       | Some off \<Rightarrow>
           if map_get (I_Regions off) region \<noteq> [] then Inr (map_get (I_Regions off) region)
           else if I_Current off \<noteq> [] then Inr (I_Current off)
           else Inl (Err region))"

record entry =
  E_SKU :: string
  E_Family :: string
  E_Attributes :: "string \<rightharpoonup> string"

text \<open>A member of \<^verbatim>\<open>OnDemand\<close>: its key, whether its value is an object, and the value as a map of terms.\<close>

type_synonym od_member = "string \<times> bool \<times> (string \<times> od_term) list option"

datatype kind_section = Kind_section (ks_kind: string) (ks_members: "od_member list") (ks_closed: bool)

datatype offer_part =
    Products "(string \<times> entry option) list" bool
  | Terms "kind_section list"
  | Other
  | Broken string

type_synonym matcher = "string \<Rightarrow> string \<Rightarrow> (string \<rightharpoonup> string) \<Rightarrow> bool"

definition member_sku :: "string \<Rightarrow> entry \<Rightarrow> string" where
  "member_sku key p = (if E_SKU p = [] then key else E_SKU p)"

fun scanProducts :: "matcher \<Rightarrow> nat \<Rightarrow> (string \<times> entry option) list \<Rightarrow> bool \<Rightarrow> string list \<Rightarrow> string list res" where
  "scanProducts mt mx [] eof_ok matched = (if eof_ok then Inr matched else Inl (Err ''EOF''))"
| "scanProducts mt mx ((key, v) # ms) eof_ok matched =
     (case v of None \<Rightarrow> Inl (Err key)
      | Some p \<Rightarrow>
          let sku = member_sku key p
          in scanProducts mt mx ms eof_ok
               (if length matched < mx \<and> mt sku (E_Family p) (E_Attributes p) then List.insert sku matched else matched))"

fun scan_ondemand :: "(string \<Rightarrow> f64 option) \<Rightarrow> string list \<Rightarrow> nat \<Rightarrow> od_member list \<Rightarrow> rate list \<Rightarrow> rate list res" where
  "scan_ondemand pf matched mx [] rates = Inr rates"
| "scan_ondemand pf matched mx ((sku, isobj, v) # ms) rates =
     (if sku \<notin> set matched \<or> rates \<noteq> [] \<and> mx \<le> length rates then
        (if isobj then scan_ondemand pf matched mx ms rates else Inl (Err sku))
      else case v of None \<Rightarrow> Inl (Err sku)
        | Some terms \<Rightarrow> scan_ondemand pf matched mx ms
            (case first_some (\<lambda>(_, t). firstRate pf sku t) terms of None \<Rightarrow> rates | Some r \<Rightarrow> rates @ [r]))"

text \<open>
  After the opening brace of a section of another kind the decoder stands before a key (or the closing brace), where
  \<^verbatim>\<open>Decode\<close> answers "not at beginning of value".
\<close>

fun scanTerms :: "(string \<Rightarrow> f64 option) \<Rightarrow> string list \<Rightarrow> nat \<Rightarrow> kind_section list \<Rightarrow> rate list \<Rightarrow> rate list res" where
  "scanTerms pf matched mx [] rates = Inr rates"
| "scanTerms pf matched mx (Kind_section kind ms eof_ok # ks) rates =
     (if kind \<noteq> ''OnDemand'' then Inl (Err ''not at beginning of value'')
      else res_bind (scan_ondemand pf matched mx ms rates) (\<lambda>rates'.
        if eof_ok then scanTerms pf matched mx ks rates' else Inl (Err ''EOF'')))"

fun scan_sections :: "(string \<Rightarrow> f64 option) \<Rightarrow> matcher \<Rightarrow> nat \<Rightarrow> offer_part list \<Rightarrow> string list \<Rightarrow> rate list \<Rightarrow> rate list res" where
  "scan_sections pf mt mx [] matched rates = (if rates = [] then Inl (Err ''not found'') else Inr rates)"
| "scan_sections pf mt mx (Products ms eof_ok # ss) matched rates =
     res_bind (scanProducts mt mx ms eof_ok matched) (\<lambda>matched'. scan_sections pf mt mx ss matched' rates)"
| "scan_sections pf mt mx (Terms ks # ss) matched rates =
     res_bind (scanTerms pf matched mx ks []) (\<lambda>rates'. scan_sections pf mt mx ss matched rates')"
| "scan_sections pf mt mx (Other # ss) matched rates = scan_sections pf mt mx ss matched rates"
| "scan_sections pf mt mx (Broken e # ss) matched rates = Inl (Err e)"

definition FindOnDemandRates :: "(string \<Rightarrow> f64 option) \<Rightarrow> offer_part list option \<Rightarrow> matcher \<Rightarrow> int \<Rightarrow> rate list res" where
  "FindOnDemandRates pf file mt maxResults =
     res_bind (opt_res ''offer file'' file) (\<lambda>ss. scan_sections pf mt (if maxResults \<le> 0 then 1 else nat maxResults) ss [] [])"

lemma first_some_Some: "first_some f xs = Some y \<Longrightarrow> \<exists>x \<in> set xs. f x = Some y"
  by (induction xs) (auto split: option.splits)

definition rate_ok :: "string list \<Rightarrow> rate \<Rightarrow> bool" where
  "rate_ok skus r \<longleftrightarrow> R_SKU r \<in> set skus \<and> \<not> fle (R_Price r) (Fin 0)"

lemma firstRate_ok: "firstRate pf sku t = Some r \<Longrightarrow> R_SKU r = sku \<and> \<not> fle (R_Price r) (Fin 0)"
  by (auto simp: firstRate_def dim_rate_def dest!: first_some_Some split: option.splits if_splits)

lemma first_rate_ok: "first_some (\<lambda>(_, t). firstRate pf sku t) ts = Some r \<Longrightarrow> sku \<in> set skus \<Longrightarrow> rate_ok skus r"
  by (auto simp: rate_ok_def dest!: first_some_Some firstRate_ok)

lemma scan_ondemand_ok:
  "scan_ondemand pf matched mx ms rates = Inr rs \<Longrightarrow> 0 < mx \<Longrightarrow> length rates \<le> mx \<Longrightarrow> list_all (rate_ok matched) rates \<Longrightarrow>
   length rs \<le> mx \<and> list_all (rate_ok matched) rs"
proof (induction pf matched mx ms rates rule: scan_ondemand.induct)
  case (2 pf matched mx sku isobj v ms rates)
  show ?case
  proof (cases "sku \<notin> set matched \<or> rates \<noteq> [] \<and> mx \<le> length rates")
    case True
    then show ?thesis using 2 by (auto split: if_splits)
  next
    case False
    then obtain ts where v: "v = Some ts" using "2.prems"(1) by (cases v) auto
    have "length rates < mx" using False "2.prems"(2) by (cases rates) auto
    then show ?thesis
      using 2 False v first_rate_ok [of pf sku ts _ matched] by (cases "first_some (\<lambda>(_, t). firstRate pf sku t) ts") auto
  qed
qed simp

lemma scanTerms_ok:
  "scanTerms pf matched mx ks rates = Inr rs \<Longrightarrow> 0 < mx \<Longrightarrow> length rates \<le> mx \<Longrightarrow> list_all (rate_ok matched) rates \<Longrightarrow>
   length rs \<le> mx \<and> list_all (rate_ok matched) rs"
proof (induction pf matched mx ks rates rule: scanTerms.induct)
  case (2 pf matched mx kind ms eof_ok ks rates)
  then obtain rs' where r: "kind = ''OnDemand''" "scan_ondemand pf matched mx ms rates = Inr rs'" "eof_ok"
    "scanTerms pf matched mx ks rs' = Inr rs"
    by (auto simp: res_bind_Inr split: if_splits)
  show ?case using scan_ondemand_ok [OF r(2) "2.prems"(2-4)] "2.IH" r "2.prems"(2) by auto
qed simp

fun member_ok :: "matcher \<Rightarrow> string \<Rightarrow> string \<times> entry option \<Rightarrow> bool" where
  "member_ok mt sku (key, None) = False"
| "member_ok mt sku (key, Some p) = (sku = member_sku key p \<and> mt sku (E_Family p) (E_Attributes p))"

definition offered :: "matcher \<Rightarrow> offer_part list \<Rightarrow> string \<Rightarrow> bool" where
  "offered mt ss sku \<longleftrightarrow> list_ex (\<lambda>s. case s of Products ms _ \<Rightarrow> list_ex (member_ok mt sku) ms | _ \<Rightarrow> False) ss"

lemma scanProducts_ok:
  "scanProducts mt mx ms eof_ok matched = Inr ks \<Longrightarrow> set matched \<subseteq> set ks \<and> (sku \<in> set ks \<longrightarrow> sku \<in> set matched \<or> list_ex (member_ok mt sku) ms)"
proof (induction mt mx ms eof_ok matched rule: scanProducts.induct)
  case (2 mt mx key v ms eof_ok matched)
  then obtain p where v: "v = Some p" by (cases v) auto
  let ?m = "if length matched < mx \<and> mt (member_sku key p) (E_Family p) (E_Attributes p) then List.insert (member_sku key p) matched else matched"
  have "scanProducts mt mx ms eof_ok ?m = Inr ks" using "2.prems" by (simp add: v Let_def)
  then have "set ?m \<subseteq> set ks \<and> (sku \<in> set ks \<longrightarrow> sku \<in> set ?m \<or> list_ex (member_ok mt sku) ms)"
    using "2.IH" [OF v refl] by simp
  then show ?case by (auto simp: v split: if_splits)
qed (simp split: if_splits)

lemma offered_Cons: "offered mt (s # ss) sku \<longleftrightarrow> offered mt [s] sku \<or> offered mt ss sku"
  by (simp add: offered_def)

lemma scan_sections_ok:
  "scan_sections pf mt mx ss matched rates = Inr rs \<Longrightarrow> 0 < mx \<Longrightarrow> length rates \<le> mx \<Longrightarrow> list_all (rate_ok matched) rates \<Longrightarrow>
   rs \<noteq> [] \<and> length rs \<le> mx \<and> list_all (\<lambda>r. (R_SKU r \<in> set matched \<or> offered mt ss (R_SKU r)) \<and> \<not> fle (R_Price r) (Fin 0)) rs"
proof (induction pf mt mx ss matched rates rule: scan_sections.induct)
  case (1 pf mt mx matched rates)
  then show ?case by (auto simp: list_all_iff rate_ok_def split: if_splits)
next
  case (2 pf mt mx ms eof_ok ss matched rates)
  then obtain m' where m: "scanProducts mt mx ms eof_ok matched = Inr m'" "scan_sections pf mt mx ss m' rates = Inr rs"
    by (auto simp: res_bind_Inr)
  have k: "set matched \<subseteq> set m'" "sku \<in> set m' \<Longrightarrow> sku \<in> set matched \<or> offered mt [Products ms eof_ok] sku" for sku
    using scanProducts_ok [OF m(1), of sku] by (auto simp: offered_def)
  have "list_all (rate_ok m') rates" using "2.prems"(4) k by (auto simp: list_all_iff rate_ok_def)
  then have "rs \<noteq> [] \<and> length rs \<le> mx \<and> list_all (\<lambda>r. (R_SKU r \<in> set m' \<or> offered mt ss (R_SKU r)) \<and> \<not> fle (R_Price r) (Fin 0)) rs"
    using "2.IH" [OF m(2)] "2.prems" by simp
  then show ?case using k by (subst offered_Cons) (auto simp: list_all_iff)
next
  case (3 pf mt mx ks ss matched rates)
  then obtain rs' where r: "scanTerms pf matched mx ks [] = Inr rs'" "scan_sections pf mt mx ss matched rs' = Inr rs"
    by (auto simp: res_bind_Inr)
  then show ?case using "3.IH" [OF r(2)] scanTerms_ok [OF r(1)] "3.prems"(2) by (subst offered_Cons) (auto simp: list_all_iff)
next
  case (4 pf mt mx ss matched rates)
  then show ?case by (subst offered_Cons) (auto simp: list_all_iff)
qed simp

text \<open>
  What the bulk search returns can be indexed: on success there is at least one rate and at most the requested number (one, if
  none is requested), each has a price that is not zero or negative and belongs to a SKU of the file that satisfies the
  matcher.
\<close>

lemma FindOnDemandRates_spec:
  assumes "FindOnDemandRates pf (Some ss) mt mx = Inr rs"
  shows "rs \<noteq> [] \<and> int (length rs) \<le> max 1 mx \<and> list_all (\<lambda>r. offered mt ss (R_SKU r) \<and> \<not> fle (R_Price r) (Fin 0)) rs"
  using scan_sections_ok [OF assms [unfolded FindOnDemandRates_def opt_res_simps res_bind_simps]] by (cases "mx \<le> 0") auto

definition parts0 :: "offer_part list" where
  "parts0 = [Other, Products [(''S1'', Some \<lparr>E_SKU = [], E_Family = ''Compute Instance'', E_Attributes = Map.empty\<rparr>)] True,
     Terms [Kind_section ''OnDemand'' [(''S1'', True, Some [(''t'', [(''d'', \<lparr>D_Unit = ''Hrs'', D_PricePerUnit = [(''USD'', '' 2 '')]\<rparr>)])])] True]]"

lemma FindOnDemandRates_spec_witness:
  "\<exists>rs. FindOnDemandRates (\<lambda>s. if s = ''2'' then Some (Fin 2) else None) (Some parts0) (\<lambda>sku f a. f = ''Compute Instance'') 5 = Inr rs
     \<and> length rs = 1 \<and> list_all (\<lambda>r. offered (\<lambda>sku f a. f = ''Compute Instance'') parts0 (R_SKU r)) rs"
proof -
  have "\<exists>rs. FindOnDemandRates (\<lambda>s. if s = ''2'' then Some (Fin 2) else None) (Some parts0) (\<lambda>sku f a. f = ''Compute Instance'') 5 = Inr rs \<and> length rs = 1"
    by (simp add: FindOnDemandRates_def parts0_def firstRate_def sortStrings_def swap_sort_def dim_rate_def parsePrice_def TrimSpace_def is_space_def member_sku_def)
  then obtain rs where "FindOnDemandRates (\<lambda>s. if s = ''2'' then Some (Fin 2) else None) (Some parts0) (\<lambda>sku f a. f = ''Compute Instance'') 5 = Inr rs" "length rs = 1"
    by blast
  then show ?thesis using FindOnDemandRates_spec [of _ parts0 _ 5 rs] by (auto simp: list_all_iff)
qed

lemma scanTerms_other: "kind \<noteq> ''OnDemand'' \<Longrightarrow> isl (scanTerms pf matched mx (ks @ Kind_section kind ms b # ks') rates)"
proof (induction ks arbitrary: rates)
  case (Cons k ks)
  then show ?case
    by (cases k, cases "scan_ondemand pf matched mx (ks_members k) rates") (auto simp: res_bind_def)
qed simp

lemma scan_sections_other:
  "kind \<noteq> ''OnDemand'' \<Longrightarrow> isl (scan_sections pf mt mx (ss @ Terms (ks @ Kind_section kind ms b # ks') # ss') matched rates)"
proof (induction ss arbitrary: matched rates)
  case Nil
  then show ?case using scanTerms_other [of kind pf matched mx ks ms b ks' "[]"]
    by (cases "scanTerms pf matched mx (ks @ Kind_section kind ms b # ks') []") auto
next
  case (Cons s ss)
  then show ?case by (cases s) (auto simp: res_bind_def split: sum.splits)
qed

text \<open>
  The bulk search cannot read a real price list: whatever the products and the prices, if the terms hold a section of any
  other kind than \<^verbatim>\<open>OnDemand\<close> (all published files have a \<^verbatim>\<open>Reserved\<close> one), the search fails.
\<close>

lemma FindOnDemandRates_reserved:
  "isl (FindOnDemandRates pf (Some (ss @ Terms (ks @ Kind_section ''Reserved'' ms b # ks') # ss')) mt mx)"
  by (simp add: FindOnDemandRates_def scan_sections_other)

end
