(* ===== verification/Alicloud.thy ===== *)
theory Alicloud
  imports GoFormat Retry
begin

text \<open>
  \<^verbatim>\<open>internal/pricing/alicloud_sku.go\<close>: the signed query for Alibaba SKU prices. The keyed hash with its base64
  text (\<open>mac\<close>), the HTTP answer and the JSON decoder are parameters; the percent encodings are written out.
\<close>

definition unreserved :: "char \<Rightarrow> bool" where
  "unreserved c \<longleftrightarrow> is_letter c \<or> is_digit c \<or> c = CHR ''-'' \<or> c = CHR ''_'' \<or> c = CHR ''.'' \<or> c = CHR 0x7E"

definition hexdig :: "nat \<Rightarrow> char" where
  "hexdig n = char_of (if n < 10 then 48 + n else 55 + n)"

definition percent :: "char \<Rightarrow> string" where
  "percent c = [CHR 0x25, hexdig (of_char c div 16), hexdig (of_char c mod 16)]"

definition popEncode :: "string \<Rightarrow> string" where
  "popEncode s = concat (map (\<lambda>c. if unreserved c then [c] else percent c) s)"

text \<open>\<^verbatim>\<open>url.QueryEscape\<close> and its inverse, which a server applies.\<close>

definition QueryEscape :: "string \<Rightarrow> string" where
  "QueryEscape s = concat (map (\<lambda>c. if unreserved c then [c] else if c = CHR '' '' then ''+'' else percent c) s)"

definition hexval :: "char \<Rightarrow> nat" where
  "hexval c = (let n = of_char c in if n < 58 then n - 48 else if n < 97 then n - 55 else n - 87)"

fun unescape :: "bool \<Rightarrow> string \<Rightarrow> string" where
  "unescape sp [] = []"
| "unescape sp (c # cs) =
     (if c = CHR 0x25 then (case cs of a # b # r \<Rightarrow> char_of (16 * hexval a + hexval b) # unescape sp r | _ \<Rightarrow> [])
      else (if sp \<and> c = CHR ''+'' then CHR '' '' else c) # unescape sp cs)"

lemma hexval_hexdig: "n < 16 \<Longrightarrow> hexval (hexdig n) = n"
  by (simp add: hexval_def hexdig_def Let_def)

lemma unescape_percent: "unescape sp (percent c @ r) = c # unescape sp r"
proof -
  define n where "n = (of_char c :: nat)"
  have n: "n < 256" "char_of n = c" by (simp_all add: n_def)
  then have "n div 16 < 16" by (simp add: div_less_iff_less_mult)
  then have "hexval (hexdig (n div 16)) = n div 16" "hexval (hexdig (n mod 16)) = n mod 16" by (simp_all add: hexval_hexdig)
  then have "char_of (16 * hexval (hexdig (n div 16)) + hexval (hexdig (n mod 16))) = c"
    by (simp add: n(2))
  then show ?thesis by (simp add: percent_def n_def)
qed

lemma unreserved_special: "\<not> unreserved (CHR 0x25)" "\<not> unreserved (CHR ''+'')" "\<not> unreserved (CHR '' '')"
  by (simp_all add: unreserved_def is_letter_def char_range_def is_digit_def less_eq_char_def)

lemma unescape_popEncode: "unescape False (popEncode s @ r) = s @ unescape False r"
  by (induction s) (auto simp: popEncode_def unescape_percent unreserved_special)

lemma unescape_QueryEscape: "unescape True (QueryEscape s @ r) = s @ unescape True r"
  by (induction s) (auto simp: QueryEscape_def unescape_percent unreserved_special)

lemma length_popEncode: "length s \<le> length (popEncode s) \<and> (length (popEncode s) = length s \<longrightarrow> list_all unreserved s)"
  by (induction s) (auto simp: popEncode_def percent_def)

lemma popEncode_same: "popEncode s = s \<longleftrightarrow> list_all unreserved s"
proof
  show "popEncode s = s \<Longrightarrow> list_all unreserved s" using length_popEncode [of s] by simp
  show "list_all unreserved s \<Longrightarrow> popEncode s = s" by (induction s) (auto simp: popEncode_def)
qed

text \<open>
  The signing encoding loses nothing: decoding the percent escapes gives the text back, so different parameters never sign
  alike; it leaves a text alone just when it has only unreserved bytes.
\<close>

lemma popEncode_roundtrip:
  "unescape False (popEncode s) = s \<and> (popEncode s = popEncode t \<longleftrightarrow> s = t) \<and> (popEncode s = s \<longleftrightarrow> list_all unreserved s)"
proof -
  have d: "unescape False (popEncode s) = s" for s using unescape_popEncode [of s "[]"] by simp
  then have "popEncode s = popEncode t \<longleftrightarrow> s = t" by (metis d)
  then show ?thesis using d popEncode_same by simp
qed

subsection \<open>The signed request\<close>

text \<open>\<^verbatim>\<open>strings.Join\<close>, and \<^verbatim>\<open>strings.SplitN (p, "=", 2)\<close> of a text with a first \<^verbatim>\<open>=\<close>.\<close>

fun join :: "string \<Rightarrow> string list \<Rightarrow> string" where
  "join sep [] = []"
| "join sep [x] = x"
| "join sep (x # xs) = x @ sep @ join sep xs"

definition split_eq :: "string \<Rightarrow> string \<times> string" where
  "split_eq p = (takeWhile (\<lambda>c. c \<noteq> CHR ''='') p, drop (Suc (length (takeWhile (\<lambda>c. c \<noteq> CHR ''='') p))) p)"

text \<open>Parameters are an association list; \<open>mac key msg\<close> is the base64 text of the keyed hash.\<close>

definition canonical_query :: "(string \<times> string) list \<Rightarrow> string" where
  "canonical_query params =
     join ''&'' (map (\<lambda>k. popEncode k @ ''='' @ popEncode (map_get (map_of params) k)) (sort (map fst params)))"

definition signature :: "(string \<Rightarrow> string \<Rightarrow> string) \<Rightarrow> (string \<times> string) list \<Rightarrow> string \<Rightarrow> string" where
  "signature mac params secret = mac (secret @ ''&'') (''GET&%2F&'' @ popEncode (canonical_query params))"

definition rpcSign :: "(string \<Rightarrow> string \<Rightarrow> string) \<Rightarrow> (string \<times> string) list \<Rightarrow> string \<Rightarrow> string \<rightharpoonup> string" where
  "rpcSign mac params secret =
     (let pairs = map (\<lambda>k. k @ ''='' @ popEncode (map_get (map_of params) k)) (sort (map fst params))
                  @ [''Signature='' @ popEncode (signature mac params secret)]
      in foldl (\<lambda>out p. out(fst (split_eq p) \<mapsto> snd (split_eq p))) Map.empty pairs)"

record ali_client =
  AccessKeyID :: string
  AccessKeySecret :: string
  Endpoint :: string

definition ali_params :: "ali_client \<Rightarrow> string \<Rightarrow> time \<Rightarrow> string \<Rightarrow> string \<Rightarrow> string \<Rightarrow> (string \<times> string) list" where
  "ali_params ac nonce now moduleCode subscriptionType regionID =
     [(''Action'', ''QuerySkuPriceList''), (''AccessKeyId'', AccessKeyID ac), (''Format'', ''JSON''), (''Version'', ''2017-12-14''),
      (''SignatureMethod'', ''HMAC-SHA1''), (''SignatureVersion'', ''1.0''), (''SignatureNonce'', nonce),
      (''Timestamp'', fmt_secs now @ ''Z'')]
     @ (if moduleCode \<noteq> [] then [(''ModuleCode'', moduleCode)] else [])
     @ (if subscriptionType \<noteq> [] then [(''SubscriptionType'', subscriptionType)] else [])
     @ (if regionID \<noteq> [] then [(''RegionId'', regionID)] else [])"

text \<open>\<^verbatim>\<open>url.Values.Encode\<close>: the pairs sorted by key; \<open>keys\<close> are the keys of the map.\<close>

definition url_encode :: "(string \<rightharpoonup> string) \<Rightarrow> string list \<Rightarrow> string" where
  "url_encode m keys = join ''&'' (map (\<lambda>k. QueryEscape k @ ''='' @ QueryEscape (map_get m k)) (sort keys))"

record sku_price =
  S_Code :: string
  S_Module :: string
  S_Price :: f64
  S_Currency :: string
  S_PricingUnit :: string

text \<open>The decoded answer: per SKU its code and the modules (code, price, currency, unit).\<close>

definition parseQuerySkuPriceList :: "(string \<times> (string \<times> f64 \<times> string \<times> string) list) list option \<Rightarrow> sku_price list res" where
  "parseQuerySkuPriceList resp =
     res_bind (opt_res ''skus'' resp) (\<lambda>skus.
       let out = concat (map (\<lambda>(code, ms). map (\<lambda>(m, p, c, u). \<lparr>S_Code = code, S_Module = m, S_Price = p, S_Currency = c, S_PricingUnit = u\<rparr>) ms) skus)
       in if out = [] then Inl (Err ''not found'') else Inr out)"

record ali_net =
  Mac :: "string \<Rightarrow> string \<Rightarrow> string"
  Nonce :: string
  Now :: time
  AliGet :: "string \<Rightarrow> http"
  DecodeSkus :: "string \<Rightarrow> (string \<times> (string \<times> f64 \<times> string \<times> string) list) list option"

definition ali_url :: "ali_net \<Rightarrow> ali_client \<Rightarrow> (string \<times> string) list \<Rightarrow> string" where
  "ali_url net ac params =
     (let signed = rpcSign (Mac net) params (AccessKeySecret ac)
      in (if Endpoint ac = [] then ''https://business.aliyuncs.com'' else Endpoint ac) @ ''/?''
         @ url_encode signed (map fst params @ [''Signature'']))"

definition QuerySkuPriceList :: "ali_net \<Rightarrow> ali_client \<Rightarrow> string \<Rightarrow> string \<Rightarrow> string \<Rightarrow> sku_price list res" where
  "QuerySkuPriceList net ac moduleCode subscriptionType regionID =
     (if AccessKeyID ac = [] \<or> AccessKeySecret ac = [] then Inl (Err ''no credentials'')
      else case AliGet net (ali_url net ac (ali_params ac (Nonce net) (Now net) moduleCode subscriptionType regionID)) of
          BadRequest e \<Rightarrow> Inl (Err e)
        | NetErr e \<Rightarrow> Inl (Err e)
        | Resp st raw \<Rightarrow> if st \<noteq> 200 then Inl (Err (take 300 raw)) else parseQuerySkuPriceList (DecodeSkus net raw))"

lemma QuerySkuPriceList_nonempty: "QuerySkuPriceList net ac m s r = Inr ps \<Longrightarrow> ps \<noteq> []"
  by (auto simp: QuerySkuPriceList_def parseQuerySkuPriceList_def res_bind_Inr Let_def split: if_splits http.splits)

subsection \<open>What the server receives\<close>

lemma split_eq_pair: "CHR ''='' \<notin> set k \<Longrightarrow> split_eq (k @ ''='' @ v) = (k, v)"
proof -
  assume "CHR ''='' \<notin> set k"
  then have "takeWhile (\<lambda>c. c \<noteq> CHR ''='') (k @ ''='' @ v) = k" by (induction k) auto
  then show ?thesis by (simp add: split_eq_def)
qed

lemma foldl_pairs:
  "\<forall>k \<in> set ks. CHR ''='' \<notin> set k \<Longrightarrow>
   foldl (\<lambda>out p. out(fst (split_eq p) \<mapsto> snd (split_eq p))) m (map (\<lambda>k. k @ ''='' @ f k) ks) q
     = (if q \<in> set ks then Some (f q) else m q)"
  by (induction ks arbitrary: m) (auto simp: split_eq_pair simp del: append.simps append_Cons)

text \<open>The value of parameter \<open>k\<close> after the server has decoded the query string.\<close>

definition server_value :: "(string \<rightharpoonup> string) \<Rightarrow> string \<Rightarrow> string" where
  "server_value sent k = unescape True (QueryEscape (map_get sent k))"

lemma ali_keys: "list_all (\<lambda>k. CHR ''='' \<notin> set k \<and> k \<noteq> ''Signature'') (map fst (ali_params ac nonce now m s r))"
  by (simp add: ali_params_def)

lemma rpcSign_value:
  assumes "list_all (\<lambda>k. CHR ''='' \<notin> set k \<and> k \<noteq> ''Signature'') (map fst params)" "k \<in> set (map fst params)"
  shows "rpcSign mac params secret k = Some (popEncode (map_get (map_of params) k))"
proof -
  have "split_eq (''Signature='' @ v) = (''Signature'', v)" for v using split_eq_pair [of "''Signature''" v] by simp
  then show ?thesis
    using assms foldl_pairs [where ks = "sort (map fst params)" and f = "\<lambda>k. popEncode (map_get (map_of params) k)" and m = Map.empty and q = k]
    by (auto simp: rpcSign_def Let_def list_all_iff simp del: append_Cons)
qed

lemma colon_in_timestamp: "CHR '':'' \<in> set (fmt_secs now @ ''Z'')"
  by (simp add: fmt_secs_def fmt_clock_def)

text \<open>
  The signed query is encoded twice: \<^verbatim>\<open>rpcSign\<close> returns values that are percent-encoded already, and building the URL encodes
  them again. After decoding, the server reads the encoded text of every parameter where the signature is over the plain
  one; for the time stamp, which holds colons, the two always differ.
\<close>

lemma rpcSign_double_encoding:
  "list_all (\<lambda>k. server_value (rpcSign mac (ali_params ac nonce now m s r) secret) k = popEncode (map_get (map_of (ali_params ac nonce now m s r)) k))
     (map fst (ali_params ac nonce now m s r))
   \<and> server_value (rpcSign mac (ali_params ac nonce now m s r) secret) ''Timestamp'' \<noteq> fmt_secs now @ ''Z''"
proof -
  let ?P = "ali_params ac nonce now m s r"
  have v: "server_value (rpcSign mac ?P secret) k = popEncode (map_get (map_of ?P) k)" if "k \<in> set (map fst ?P)" for k
    using rpcSign_value [OF ali_keys that] unescape_QueryEscape [of _ "[]"] by (simp add: server_value_def map_get_def)
  have "map_get (map_of ?P) ''Timestamp'' = fmt_secs now @ ''Z''" "''Timestamp'' \<in> set (map fst ?P)"
    by (simp_all add: ali_params_def map_get_def)
  moreover have "\<not> list_all unreserved (fmt_secs now @ ''Z'')"
  proof -
    have "\<not> unreserved (CHR '':'')" by (simp add: unreserved_def is_letter_def char_range_def is_digit_def less_eq_char_def)
    then show ?thesis using colon_in_timestamp [of now] unfolding list_all_iff by blast
  qed
  ultimately have "server_value (rpcSign mac ?P secret) ''Timestamp'' \<noteq> fmt_secs now @ ''Z''" using v popEncode_same by metis
  then show ?thesis using v by (simp add: list_all_iff)
qed

end
