(* ===== verification/PriceCatalog.thy ===== *)
theory PriceCatalog
  imports Pricing Alicloud
begin

text \<open>
  \<^verbatim>\<open>Catalog.Quote\<close> (\<^verbatim>\<open>catalog.go\<close>) and the file cache (\<^verbatim>\<open>cache.go\<close>): a fresh cache entry is answered at once, otherwise
  the source is asked and its answer stored, and when the source fails an old entry is answered, marked as stale.
\<close>

subsection \<open>Resolving at the source\<close>

record price_net =
  Api :: price_api
  GetURL :: "string \<Rightarrow> http"
  DecodeIndex :: "string \<Rightarrow> (string \<rightharpoonup> offer) option"
  DecodeOffer :: "string \<Rightarrow> offer_part list option"
  AliNet :: ali_net

definition aws_quote :: "string \<Rightarrow> rate \<Rightarrow> quote" where
  "aws_quote src r = \<lparr>UnitPrice = R_Price r, Currency = R_Currency r, Unit = R_Unit r, QSource = src, Stale = False\<rparr>"

definition ec2_match :: "string \<Rightarrow> string \<Rightarrow> matcher" where
  "ec2_match instanceType osName sku family a \<longleftrightarrow>
     family = ''Compute Instance'' \<and> map_get a ''instanceType'' = instanceType \<and> map_get a ''operatingSystem'' = osName
     \<and> map_get a ''capacitystatus'' = ''Used'' \<and> map_get a ''preInstalledSw'' = ''NA''"

definition http_body :: "http \<Rightarrow> string res" where
  "http_body h = (case h of BadRequest e \<Rightarrow> Inl (Err e) | NetErr e \<Rightarrow> Inl (Err e) | Resp _ b \<Rightarrow> Inr b)"

definition ec2Bulk :: "price_net \<Rightarrow> string \<Rightarrow> string \<Rightarrow> string \<Rightarrow> quote res" where
  "ec2Bulk net region instanceType osName =
     res_bind (http_body (GetURL net ''https://pricing.us-east-1.amazonaws.com/offers/v1.0/aws/index.json'')) (\<lambda>raw.
     res_bind (LocateOfferURL (DecodeIndex net raw) ''AmazonEC2'' region) (\<lambda>url.
     res_bind (http_body (GetURL net url)) (\<lambda>body.
     res_bind (FindOnDemandRates (ParsePrice (Api net)) (DecodeOffer net body) (ec2_match instanceType osName) 5) (\<lambda>rates.
       case rates of [] \<Rightarrow> Inl Panic | r # _ \<Rightarrow> Inr (aws_quote ''aws-bulk'' r)))))"

definition ec2_product :: "(string \<Rightarrow> f64 option) \<Rightarrow> product \<Rightarrow> rate option" where
  "ec2_product pf p = (if P_Family p \<noteq> ''Compute Instance'' then None else rateOf pf p)"

definition ec2Quote :: "price_net \<Rightarrow> string \<Rightarrow> attrs \<Rightarrow> quote res" where
  "ec2Quote net region a =
     (let instanceType = map_get a ''instance_type''; osName = attrs_get a ''os'' ''Linux'';
          failed = (if map_get a ''source'' \<noteq> ''bulk'' then Inl (Err instanceType) else ec2Bulk net region instanceType osName) in
      if instanceType = [] then Inl (Err ''instance_type'')
      else case GetProducts (Api net) ''AmazonEC2'' [(''regionCode'', region), (''instanceType'', instanceType),
             (''operatingSystem'', osName), (''capacitystatus'', ''Used''), (''preInstalledSw'', ''NA'')] of
          Inl _ \<Rightarrow> failed
        | Inr products \<Rightarrow>
            (case first_some (ec2_product (ParsePrice (Api net))) products of
               Some r \<Rightarrow> Inr (aws_quote ''aws-query'' r)
             | None \<Rightarrow> if products \<noteq> [] then Inl (Err ''not found'') else failed))"

definition storageQuote :: "price_net \<Rightarrow> string \<Rightarrow> string \<Rightarrow> filters \<Rightarrow> quote res" where
  "storageQuote net svc region extra =
     res_bind (GetProducts (Api net) svc ((''regionCode'', region) # extra)) (\<lambda>products.
       case first_some (rateOf (ParsePrice (Api net))) products of
         Some r \<Rightarrow> Inr (aws_quote ''aws-query'' r) | None \<Rightarrow> Inl (Err ''not found''))"

definition resolveAWS :: "price_net \<Rightarrow> string \<Rightarrow> attrs \<Rightarrow> quote res" where
  "resolveAWS net f a =
     (let region = attrs_get a ''region'' ''us-east-1'' in
      if f = ''ec2'' then ec2Quote net region a
      else if f = ''ebs'' then storageQuote net ''AmazonEC2'' region
        [(''volumeType'', attrs_get a ''volume_type'' ''gp3''), (''productFamily'', ''Storage'')]
      else if f = ''rds'' then storageQuote net ''AmazonRDS'' region
        ([(''productFamily'', ''Database Storage'')]
         @ (if map_get a ''engine'' \<noteq> [] then [(''databaseEngine'', map_get a ''engine'')] else [])
         @ (if map_get a ''volume_type'' \<noteq> [] then [(''volumeType'', map_get a ''volume_type'')] else []))
      else Inl (Err f))"

definition resolveAli :: "price_net \<Rightarrow> ali_client option \<Rightarrow> string \<Rightarrow> attrs \<Rightarrow> quote res" where
  "resolveAli net ali f a =
     (case ali of None \<Rightarrow> Inl (Err ''no credentials'')
      | Some ac \<Rightarrow>
          res_bind (QuerySkuPriceList (AliNet net) ac f (attrs_get a ''subscription_type'' ''PayAsYouGo'') (map_get a ''region'')) (\<lambda>prices.
            case prices of [] \<Rightarrow> Inl Panic
            | p # _ \<Rightarrow> Inr \<lparr>UnitPrice = S_Price p, Currency = S_Currency p, Unit = S_PricingUnit p, QSource = ''alicloud-sku'', Stale = False\<rparr>))"

definition resolve :: "price_net \<Rightarrow> ali_client option \<Rightarrow> string \<Rightarrow> attrs \<Rightarrow> quote res" where
  "resolve net ali f a = (if attrs_get a ''cloud'' ''aws'' = ''alicloud'' then resolveAli net ali f a else resolveAWS net f a)"

lemma fetch_page_no_panic: "no_panic (fetch_page api svc fs page tok)"
  by (auto simp: fetch_page_def intro!: no_panic_bind no_panic_all split: http.splits)

lemma get_pages_no_panic: "no_panic (get_pages api svc fs page tok out)"
proof (induction api svc fs page tok out rule: get_pages.induct)
  case (1 api svc fs page tok out)
  show ?case
  proof (cases "fetch_page api svc fs page tok")
    case (Inl e)
    then show ?thesis using fetch_page_no_panic [of api svc fs page tok] by (subst get_pages.simps) (simp add: no_panic_def)
  next
    case (Inr x)
    then show ?thesis using 1 by (subst get_pages.simps) (cases x, auto)
  qed
qed

lemma GetProducts_no_panic: "no_panic (GetProducts api svc fs)"
  by (simp add: GetProducts_def get_pages_no_panic)

lemma ec2Bulk_no_panic: "no_panic (ec2Bulk net region it os)"
proof -
  have l: "no_panic (LocateOfferURL idx svc region)" for idx svc region
    by (auto simp: LocateOfferURL_def intro!: no_panic_bind split: option.splits)
  have h: "no_panic (http_body h)" for h by (simp add: http_body_def split: http.splits)
  have s: "no_panic (scan_ondemand pf matched mx ms rates)" for pf matched mx ms rates
    by (induction pf matched mx ms rates rule: scan_ondemand.induct) (auto split: option.splits)
  have st: "no_panic (scanTerms pf matched mx ks rates)" for pf matched mx ks rates
    by (induction pf matched mx ks rates rule: scanTerms.induct) (auto intro!: no_panic_bind s)
  have sp: "no_panic (scanProducts mt mx ms b matched)" for mt mx ms b matched
    by (induction mt mx ms b matched rule: scanProducts.induct) (auto split: option.splits simp: Let_def)
  have sec: "no_panic (scan_sections pf mt mx ss matched rates)" for pf mt mx ss matched rates
    by (induction pf mt mx ss matched rates rule: scan_sections.induct) (auto intro!: no_panic_bind st sp)
  show ?thesis
    by (auto simp: ec2Bulk_def FindOnDemandRates_def res_bind_Inr intro!: no_panic_bind l h sec
        dest!: scan_sections_ok split: list.splits)
qed

lemma resolve_no_panic: "no_panic (resolve net ali f a)"
proof -
  have s: "no_panic (storageQuote net svc region extra)" for svc region extra
    by (auto simp: storageQuote_def intro!: no_panic_bind GetProducts_no_panic split: option.splits)
  have e: "no_panic (ec2Quote net region a)" for region
    by (auto simp: ec2Quote_def Let_def ec2Bulk_no_panic split: sum.splits option.splits)
  have q: "no_panic (QuerySkuPriceList n ac m st r)" for n ac m st r
    by (auto simp: QuerySkuPriceList_def parseQuerySkuPriceList_def Let_def intro!: no_panic_bind split: http.splits)
  have "no_panic (resolveAli net ali f a)"
    by (auto simp: resolveAli_def intro!: no_panic_bind q dest!: QuerySkuPriceList_nonempty split: option.splits list.splits)
  then show ?thesis by (auto simp: resolve_def resolveAWS_def Let_def e s)
qed

subsection \<open>The cache\<close>

text \<open>The JSON codec of the cache; encoding fails, for instance, on a price that is not a number.\<close>

record cache_env =
  StoredAt :: time
  Payload :: string

record cache_codec =
  EncEnv :: "cache_env \<Rightarrow> string option"
  DecEnv :: "string \<Rightarrow> cache_env option"
  EncQuote :: "quote \<Rightarrow> string option"
  DecQuote :: "string \<Rightarrow> quote option"

definition codec_ok :: "cache_codec \<Rightarrow> bool" where
  "codec_ok cd \<longleftrightarrow> (\<forall>e s. EncEnv cd e = Some s \<longrightarrow> DecEnv cd s = Some e) \<and> (\<forall>q s. EncQuote cd q = Some s \<longrightarrow> DecQuote cd s = Some q)"

text \<open>The cache directory (empty: no cache), the files by path, and whether writing works.\<close>

record file_cache =
  CDir :: string
  CFiles :: "string \<rightharpoonup> string"
  CWritable :: bool

definition cache_path :: "(string \<Rightarrow> string) \<Rightarrow> file_cache \<Rightarrow> string \<Rightarrow> string" where
  "cache_path h c k = Join (CDir c) (h k @ ''.json'')"

definition FileCache_Store :: "(string \<Rightarrow> string) \<Rightarrow> cache_codec \<Rightarrow> time \<Rightarrow> string \<Rightarrow> string \<Rightarrow> file_cache \<Rightarrow> file_cache \<times> unit res" where
  "FileCache_Store h cd now k payload c =
     (if CDir c = [] then (c, Inr ())
      else if \<not> CWritable c then (c, Inl (Err (CDir c)))
      else case EncEnv cd \<lparr>StoredAt = now, Payload = payload\<rparr> of None \<Rightarrow> (c, Inl (Err ''marshal''))
        | Some raw \<Rightarrow> (c\<lparr>CFiles := (CFiles c)(cache_path h c k \<mapsto> raw)\<rparr>, Inr ()))"

record load_result =
  Hit_Payload :: string
  Fresh :: bool
  OK :: bool

definition FileCache_Load :: "(string \<Rightarrow> string) \<Rightarrow> cache_codec \<Rightarrow> time \<Rightarrow> string \<Rightarrow> duration \<Rightarrow> file_cache \<Rightarrow> load_result" where
  "FileCache_Load h cd now k ttl c =
     (let miss = \<lparr>Hit_Payload = [], Fresh = False, OK = False\<rparr> in
      if CDir c = [] then miss
      else case CFiles c (cache_path h c k) of None \<Rightarrow> miss
        | Some raw \<Rightarrow> (case DecEnv cd raw of None \<Rightarrow> miss
            | Some env \<Rightarrow> \<lparr>Hit_Payload = Payload env, Fresh = time_Sub now (StoredAt env) < ttl, OK = True\<rparr>))"

text \<open>\<open>ks\<close> are the attribute names in the order in which the run iterates over them.\<close>

definition CacheKey :: "string \<Rightarrow> attrs \<Rightarrow> string list \<Rightarrow> string" where
  "CacheKey f a ks = f @ concat (map (\<lambda>k. ''|'' @ k @ ''='' @ map_get a k) (sort ks))"

lemma CacheKey_order: "iter_order a ks \<Longrightarrow> iter_order a ls \<Longrightarrow> CacheKey f a ks = CacheKey f a ls"
  by (simp add: CacheKey_def iter_order_sort [of a ks ls])

text \<open>Different queries can share a key: the separators are not escaped.\<close>

lemma CacheKey_collision:
  "CacheKey f [''a'' \<mapsto> ''1|b=2''] [''a''] = CacheKey f [''a'' \<mapsto> ''1'', ''b'' \<mapsto> ''2''] [''a'', ''b'']"
  by (simp add: CacheKey_def map_get_def)

subsection \<open>Quotes\<close>

record price_catalog =
  TTL :: duration
  AliClient :: "ali_client option"

definition ttl_of :: "price_catalog \<Rightarrow> duration" where
  "ttl_of pc = (if TTL pc \<le> 0 then 24 * hour else TTL pc)"

definition Catalog_Quote :: "(string \<Rightarrow> string) \<Rightarrow> cache_codec \<Rightarrow> price_net \<Rightarrow> price_catalog \<Rightarrow> time \<Rightarrow> string list \<Rightarrow> string \<Rightarrow> attrs
    \<Rightarrow> file_cache \<Rightarrow> file_cache \<times> quote res" where
  "Catalog_Quote h cd net pc now ks f a c =
     (let k = CacheKey f a ks; hit = FileCache_Load h cd now k (ttl_of pc) c in
      case (if OK hit \<and> Fresh hit then DecQuote cd (Hit_Payload hit) else None) of
        Some q \<Rightarrow> (c, Inr q)
      | None \<Rightarrow>
          (case resolve net (AliClient pc) f a of
             Inl e \<Rightarrow> (c, case (if OK hit \<and> e \<noteq> Panic then DecQuote cd (Hit_Payload hit) else None) of
                 Some q \<Rightarrow> Inr (q\<lparr>Stale := True\<rparr>) | None \<Rightarrow> Inl e)
           | Inr q \<Rightarrow> (case EncQuote cd q of None \<Rightarrow> (c, Inr q)
               | Some raw \<Rightarrow> (fst (FileCache_Store h cd now k raw c), Inr q))))"

definition Price :: "(string \<Rightarrow> string) \<Rightarrow> cache_codec \<Rightarrow> price_net \<Rightarrow> price_catalog \<Rightarrow> time \<Rightarrow> string list \<Rightarrow> string \<Rightarrow> attrs
    \<Rightarrow> file_cache \<Rightarrow> file_cache \<times> (f64 \<times> string) res" where
  "Price h cd net pc now ks f a c =
     (let (c', r) = Catalog_Quote h cd net pc now ks f a c in (c', res_bind r (\<lambda>q. Inr (UnitPrice q, Currency q))))"

text \<open>
  A price query never panics, whatever the servers answer: the two places that index the first of a list of prices
  (the bulk search and the Alibaba query) are only reached with a price in it.
\<close>

lemma Catalog_Quote_no_panic: "no_panic (snd (Catalog_Quote h cd net pc now ks f a c))"
  using resolve_no_panic [of net "AliClient pc" f a]
  by (auto simp: Catalog_Quote_def Let_def no_panic_def split: option.splits sum.splits if_splits)

lemma stored_hit:
  assumes "codec_ok cd" "CDir c \<noteq> []" "CWritable c" "EncEnv cd \<lparr>StoredAt = now, Payload = raw\<rparr> \<noteq> None"
  shows "FileCache_Load h cd now' k ttl (fst (FileCache_Store h cd now k raw c))
    = \<lparr>Hit_Payload = raw, Fresh = time_Sub now' now < ttl, OK = True\<rparr>"
  using assms by (auto simp: FileCache_Store_def FileCache_Load_def cache_path_def codec_ok_def Let_def)

text \<open>
  Claim C13. Once priced, always priced: after a query answered by the source (nothing was cached), with a cache directory that can be
  written, any later query for the same attributes, on any network and in any order of the attributes, gives a quote: while the
  entry is fresh the stored one without asking the source, and afterwards either the source's new answer or, when the source
  fails, the stored quote marked as stale.
\<close>

theorem Catalog_Quote_once_priced:
  assumes "codec_ok cd" "CDir c \<noteq> []" "CWritable c" "CFiles c (cache_path h c (CacheKey f a ks)) = None"
    and "Catalog_Quote h cd net pc now ks f a c = (c1, Inr q)" "EncQuote cd q = Some raw"
    and "EncEnv cd \<lparr>StoredAt = now, Payload = raw\<rparr> \<noteq> None" "iter_order a ks" "iter_order a ls"
  shows "snd (Catalog_Quote h cd net' pc now' ls f a c1) =
    (if time_Sub now' now < ttl_of pc then Inr q
     else case resolve net' (AliClient pc) f a of Inr q' \<Rightarrow> Inr q' | Inl e \<Rightarrow> Inr (q\<lparr>Stale := True\<rparr>))"
proof -
  have "\<not> OK (FileCache_Load h cd now (CacheKey f a ks) (ttl_of pc) c)"
    using assms(4) by (simp add: FileCache_Load_def Let_def)
  then have c1: "c1 = fst (FileCache_Store h cd now (CacheKey f a ks) raw c)"
    using assms(5,6) by (auto simp: Catalog_Quote_def Let_def split: sum.splits option.splits if_splits)
  have dq: "DecQuote cd raw = Some q" using assms(1,6) by (simp add: codec_ok_def)
  have hit: "FileCache_Load h cd now' (CacheKey f a ls) (ttl_of pc) c1 = \<lparr>Hit_Payload = raw, Fresh = time_Sub now' now < ttl_of pc, OK = True\<rparr>"
    using stored_hit [OF assms(1-3,7)] CacheKey_order [OF assms(8,9)] by (simp add: c1)
  have "resolve net' (AliClient pc) f a \<noteq> Inl Panic" using resolve_no_panic by (simp add: no_panic_def)
  then show ?thesis using hit dq
    by (cases "resolve net' (AliClient pc) f a") (auto simp: Catalog_Quote_def Let_def split: option.splits)
qed

text \<open>A network without servers, one with an Alibaba price, and a codec for just these texts.\<close>

definition no_net :: price_net where
  "no_net = \<lparr>Api = \<lparr>Post = \<lambda>_ _ _ _. NetErr ''down'', DecodePage = \<lambda>_. None, DecodeProduct = \<lambda>_. None, ParsePrice = \<lambda>_. None\<rparr>,
     GetURL = \<lambda>_. NetErr ''down'', DecodeIndex = \<lambda>_. None, DecodeOffer = \<lambda>_. None,
     AliNet = \<lparr>Mac = \<lambda>_ _. [], Nonce = ''1'', Now = 0, AliGet = \<lambda>_. NetErr ''down'', DecodeSkus = \<lambda>_. None\<rparr>\<rparr>"

definition ali_net1 :: price_net where
  "ali_net1 = no_net\<lparr>AliNet := \<lparr>Mac = \<lambda>_ _. [], Nonce = ''1'', Now = 0, AliGet = \<lambda>_. Resp 200 ''ok'',
     DecodeSkus = \<lambda>_. Some [(''c'', [(''m'', Fin 2, ''CNY'', ''Hrs'')])]\<rparr>\<rparr>"

definition ali_quote :: quote where
  "ali_quote = \<lparr>UnitPrice = Fin 2, Currency = ''CNY'', Unit = ''Hrs'', QSource = ''alicloud-sku'', Stale = False\<rparr>"

definition codec1 :: cache_codec where
  "codec1 = \<lparr>EncEnv = \<lambda>e. if e = \<lparr>StoredAt = 0, Payload = ''q''\<rparr> then Some ''e'' else None,
     DecEnv = \<lambda>s. if s = ''e'' then Some \<lparr>StoredAt = 0, Payload = ''q''\<rparr> else None,
     EncQuote = \<lambda>q. if q = ali_quote then Some ''q'' else None, DecQuote = \<lambda>s. if s = ''q'' then Some ali_quote else None\<rparr>"

definition catalog1 :: price_catalog where
  "catalog1 = \<lparr>TTL = 0, AliClient = Some \<lparr>AccessKeyID = ''k'', AccessKeySecret = ''s'', Endpoint = []\<rparr>\<rparr>"

definition cache1 :: file_cache where
  "cache1 = \<lparr>CDir = ''cache'', CFiles = Map.empty, CWritable = True\<rparr>"

lemma quote1: "\<exists>c1. Catalog_Quote (\<lambda>k. k) codec1 ali_net1 catalog1 0 [''cloud''] ''ecs'' [''cloud'' \<mapsto> ''alicloud''] cache1 = (c1, Inr ali_quote)"
  by (simp add: Catalog_Quote_def FileCache_Load_def FileCache_Store_def resolve_def resolveAli_def QuerySkuPriceList_def
      parseQuerySkuPriceList_def catalog1_def cache1_def codec1_def ali_net1_def no_net_def ali_quote_def attrs_get_def Let_def)

theorem Catalog_Quote_once_priced_witness:
  "\<exists>c1. Catalog_Quote (\<lambda>k. k) codec1 ali_net1 catalog1 0 [''cloud''] ''ecs'' [''cloud'' \<mapsto> ''alicloud''] cache1 = (c1, Inr ali_quote)
     \<and> snd (Catalog_Quote (\<lambda>k. k) codec1 no_net catalog1 (48 * hour) [''cloud''] ''ecs'' [''cloud'' \<mapsto> ''alicloud''] c1) = Inr (ali_quote\<lparr>Stale := True\<rparr>)"
proof -
  obtain c1 where c1: "Catalog_Quote (\<lambda>k. k) codec1 ali_net1 catalog1 0 [''cloud''] ''ecs'' [''cloud'' \<mapsto> ''alicloud''] cache1 = (c1, Inr ali_quote)"
    using quote1 by blast
  have "isl (resolve no_net (AliClient catalog1) ''ecs'' [''cloud'' \<mapsto> ''alicloud''])"
    by (simp add: resolve_def resolveAli_def QuerySkuPriceList_def catalog1_def no_net_def attrs_get_def)
  moreover have "snd (Catalog_Quote (\<lambda>k. k) codec1 no_net catalog1 (48 * hour) [''cloud''] ''ecs'' [''cloud'' \<mapsto> ''alicloud''] c1) =
    (if time_Sub (48 * hour) 0 < ttl_of catalog1 then Inr ali_quote
     else case resolve no_net (AliClient catalog1) ''ecs'' [''cloud'' \<mapsto> ''alicloud''] of Inr q' \<Rightarrow> Inr q' | Inl e \<Rightarrow> Inr (ali_quote\<lparr>Stale := True\<rparr>))"
    by (rule Catalog_Quote_once_priced [OF _ _ _ _ c1])
       (auto simp: codec_ok_def codec1_def cache1_def iter_order_def split: if_splits)
  ultimately show ?thesis using c1 by (auto simp: ttl_of_def catalog1_def time_Sub_def split: sum.splits)
qed

end
