(* ===== verification/Waste.thy ===== *)
theory Waste
  imports Catalog PriceCatalog
begin

text \<open>
  \<^verbatim>\<open>internal/waste\<close>: the scan for sustained idle conditions with its pricing (\<^verbatim>\<open>waste.go\<close>), the scoped scans
  (\<^verbatim>\<open>k8s.go\<close>, \<^verbatim>\<open>standalone.go\<close>) and the sizing rules (\<^verbatim>\<open>rightsizing.go\<close>). The price query is an interface of the program
  (\<^verbatim>\<open>Pricer\<close>) with a state of its own, the cache of the price catalog; the JSON decoder and the scanner of numbers are
  parameters.
\<close>

type_synonym 's pricer = "string \<Rightarrow> attrs \<Rightarrow> 's \<Rightarrow> 's \<times> quote res"

record candidate =
  SensorID :: string
  AlertName :: string
  CReason :: string
  CWindow :: duration
  IdleDays :: f64
  WastedCost :: f64
  CRenotify :: duration
  CLabels :: "string \<rightharpoonup> string"
  SavingMonthly :: f64
  CCurrency :: string
  PriceUnit :: string
  PriceStale :: bool
  PriceError :: string

definition monthlyFromQuote :: "quote \<Rightarrow> f64 \<Rightarrow> f64" where
  "monthlyFromQuote q qty =
     (if Unit q = ''Hrs'' then fmul (fmul (fmul (UnitPrice q) (Fin 24)) (Fin 30)) qty else fmul (UnitPrice q) qty)"

text \<open>\<open>sf\<close> scans a number; \<open>jd\<close> decodes the attributes.\<close>

definition quantity_of :: "(string \<Rightarrow> f64 option) \<Rightarrow> attrs \<Rightarrow> f64" where
  "quantity_of sf a =
     (let v = map_get a ''quantity'' in
      if v = [] then Fin 1 else case sf v of None \<Rightarrow> Fin 1 | Some f \<Rightarrow> if flt (Fin 0) f then f else Fin 1)"

definition priced :: "(string \<Rightarrow> f64 option) \<Rightarrow> attrs \<Rightarrow> candidate \<Rightarrow> quote \<Rightarrow> candidate" where
  "priced sf a c q =
     (let m = monthlyFromQuote q (quantity_of sf a)
      in c\<lparr>SavingMonthly := m, CCurrency := Currency q, PriceUnit := Unit q, PriceStale := Stale q, WastedCost := fdiv m (Fin 30)\<rparr>)"

definition applyPricing :: "(string \<Rightarrow> f64 option) \<Rightarrow> (string \<Rightarrow> attrs option) \<Rightarrow> 's pricer option \<Rightarrow> rule \<Rightarrow> candidate \<Rightarrow> 's
    \<Rightarrow> 's \<times> candidate res" where
  "applyPricing sf jd pricer r c s =
     (let fam = map_get (Labels r) ''sentinel_price_family''; raw = map_get (Labels r) ''sentinel_price_attrs'' in
      case pricer of None \<Rightarrow> (s, Inr c)
      | Some quote \<Rightarrow>
          if fam = [] then (s, Inr c)
          else case (if raw = [] then Some Map.empty else jd raw) of
            None \<Rightarrow> (s, Inr (c\<lparr>PriceError := ''sentinel_price_attrs JSON''\<rparr>))
          | Some a \<Rightarrow>
              (case quote fam a s of
                 (s', Inl Panic) \<Rightarrow> (s', Inl Panic)
               | (s', Inl (Err e)) \<Rightarrow> (s', Inr (c\<lparr>PriceError := e\<rparr>))
               | (s', Inr q) \<Rightarrow> (s', Inr (priced sf a c q))))"

definition scan_window :: "rule \<Rightarrow> duration" where
  "scan_window r = (if For r \<le> 0 then 14 * day24 else For r)"

definition new_candidate :: "arch \<Rightarrow> rule \<Rightarrow> candidate" where
  "new_candidate a r =
     \<lparr>SensorID = ID r, AlertName = RAlert r, CReason = map_get (Annotations r) ''summary'', CWindow = scan_window r,
      IdleDays = fdiv (dur_Hours (scan_window r)) (Fin 24), WastedCost = Fin 0, CRenotify = NotifyEvery a r, CLabels = Labels r,
      SavingMonthly = Fin 0, CCurrency = [], PriceUnit = [], PriceStale = False, PriceError = []\<rparr>"

text \<open>Only the first series counts; a sample breaks the condition if it is below one half.\<close>

definition holds_throughout :: "qresult list \<Rightarrow> bool" where
  "holds_throughout qs =
     (case qs of [] \<Rightarrow> False | q # _ \<Rightarrow> r_samples q \<noteq> [] \<and> list_all (\<lambda>s. \<not> flt (s_value s) (Fin (1 / 2))) (r_samples q))"

text \<open>One rule: no candidate, or one, or a panic of the source or the price query.\<close>

definition scan_rule :: "arch \<Rightarrow> (string \<Rightarrow> f64 option) \<Rightarrow> (string \<Rightarrow> attrs option) \<Rightarrow> source \<Rightarrow> 's pricer option \<Rightarrow> time \<Rightarrow> rule \<Rightarrow> 's
    \<Rightarrow> 's \<times> candidate list res" where
  "scan_rule a sf jd src pricer now r s =
     (if RAlert r = [] then (s, Inr [])
      else case RangeQuery src (Expr r) (now - scan_window r) now (24 * hour) of
          Inl Panic \<Rightarrow> (s, Inl Panic)
        | Inl (Err e) \<Rightarrow> (s, Inr [])
        | Inr res \<Rightarrow>
            if \<not> holds_throughout res then (s, Inr [])
            else let (s', c) = applyPricing sf jd pricer r (new_candidate a r) s in (s', res_bind c (\<lambda>c. Inr [c])))"

fun scan_rules :: "arch \<Rightarrow> (string \<Rightarrow> f64 option) \<Rightarrow> (string \<Rightarrow> attrs option) \<Rightarrow> source \<Rightarrow> 's pricer option \<Rightarrow> time \<Rightarrow> rule list \<Rightarrow> 's
    \<Rightarrow> 's \<times> candidate list res" where
  "scan_rules a sf jd src pricer now [] s = (s, Inr [])"
| "scan_rules a sf jd src pricer now (r # rs) s =
     (case scan_rule a sf jd src pricer now r s of
        (s', Inl e) \<Rightarrow> (s', Inl e)
      | (s', Inr cs) \<Rightarrow> (let (s'', cs') = scan_rules a sf jd src pricer now rs s' in (s'', res_bind cs' (\<lambda>cs'. Inr (cs @ cs')))))"

definition Scan :: "arch \<Rightarrow> (string \<Rightarrow> f64 option) \<Rightarrow> (string \<Rightarrow> attrs option) \<Rightarrow> source \<Rightarrow> 's pricer option \<Rightarrow> catalog \<Rightarrow> time \<Rightarrow> 's
    \<Rightarrow> 's \<times> candidate list res" where
  "Scan a sf jd src pricer cat now s = scan_rules a sf jd src pricer now (RulesOfKind cat KindWaste) s"

subsection \<open>Scopes\<close>

definition filterCatalog :: "catalog \<Rightarrow> string \<Rightarrow> catalog" where
  "filterCatalog cat scope =
     cat\<lparr>Groups := filter (\<lambda>g. GRules g \<noteq> []) (map (\<lambda>g. g\<lparr>GRules :=
        filter (\<lambda>r. Kind r = KindWaste \<and> (map_get (Labels r) ''scope'' = scope \<or> scope = [])) (GRules g)\<rparr>) (Groups cat))\<rparr>"

definition ScanK8s :: "arch \<Rightarrow> (string \<Rightarrow> f64 option) \<Rightarrow> (string \<Rightarrow> attrs option) \<Rightarrow> source \<Rightarrow> catalog \<Rightarrow> time \<Rightarrow> candidate list res" where
  "ScanK8s a sf jd src cat now = snd (Scan a sf jd src None (filterCatalog cat ''k8s'') now ())"

definition ScanStandalone :: "arch \<Rightarrow> (string \<Rightarrow> f64 option) \<Rightarrow> (string \<Rightarrow> attrs option) \<Rightarrow> source \<Rightarrow> catalog \<Rightarrow> time \<Rightarrow> candidate list res" where
  "ScanStandalone a sf jd src cat now = snd (Scan a sf jd src None (filterCatalog cat ''onprem'') now ())"

lemma RulesOfKind_filterCatalog:
  "RulesOfKind (filterCatalog cat scope) KindWaste =
   filter (\<lambda>r. map_get (Labels r) ''scope'' = scope \<or> scope = []) (RulesOfKind cat KindWaste)"
proof -
  have "concat (map (\<lambda>g. filter (\<lambda>r. Kind r = KindWaste) (GRules g))
          (filter (\<lambda>g. GRules g \<noteq> []) (map (\<lambda>g. g\<lparr>GRules := filter (\<lambda>r. Kind r = KindWaste \<and> P r) (GRules g)\<rparr>) gs)))
      = filter P (concat (map (\<lambda>g. filter (\<lambda>r. Kind r = KindWaste) (GRules g)) gs))" for P and gs :: "group list"
  proof (induction gs)
    case (Cons g gs)
    have "filter (\<lambda>r. Kind r = KindWaste) (filter (\<lambda>r. Kind r = KindWaste \<and> P r) xs) = filter P (filter (\<lambda>r. Kind r = KindWaste) xs)" for xs
      by (induction xs) auto
    moreover have "filter (\<lambda>r. Kind r = KindWaste \<and> P r) xs = [] \<Longrightarrow> filter P (filter (\<lambda>r. Kind r = KindWaste) xs) = []" for xs
      by (induction xs) (auto split: if_splits)
    ultimately show ?case using Cons by simp
  qed simp
  then show ?thesis by (simp add: RulesOfKind_def filterCatalog_def)
qed

subsection \<open>What a scan finds\<close>

text \<open>
  The rules that a scan must find, stated from the query's answer: the window is that of the rule or two weeks, the samples are a day apart,
  and no sample of the first series is below one half. A sample that is not a number does not count against the rule.
\<close>

definition rule_window :: "rule \<Rightarrow> duration" where
  "rule_window r = (if 0 < For r then For r else 1209600000000000)"

definition rule_holds :: "source \<Rightarrow> time \<Rightarrow> rule \<Rightarrow> bool" where
  "rule_holds src now r \<longleftrightarrow> RAlert r \<noteq> [] \<and>
     (case RangeQuery src (Expr r) (now - rule_window r) now 86400000000000 of
        Inr (q # _) \<Rightarrow> r_samples q \<noteq> [] \<and> (\<forall>x \<in> set (r_samples q). s_value x = NaN \<or> fle (Fin (1 / 2)) (s_value x))
      | _ \<Rightarrow> False)"

lemma rule_holds_code: "rule_holds src now r \<longleftrightarrow> RAlert r \<noteq> [] \<and>
    (case RangeQuery src (Expr r) (now - scan_window r) now (24 * hour) of Inl _ \<Rightarrow> False | Inr res \<Rightarrow> holds_throughout res)"
proof -
  have "\<not> flt x (Fin (1 / 2)) \<longleftrightarrow> x = NaN \<or> fle (Fin (1 / 2)) x" for x by (cases x) (auto simp: flt_def fle_def)
  moreover have "rule_window r = scan_window r" by (simp add: rule_window_def scan_window_def)
  ultimately show ?thesis
    by (simp add: rule_holds_def holds_throughout_def list_all_iff split: sum.splits list.splits)
qed

definition source_ok :: "source \<Rightarrow> bool" where
  "source_ok src \<longleftrightarrow> (\<forall>q t u d. no_panic (RangeQuery src q t u d))"

text \<open>The price facts of a candidate may change, nothing else.\<close>

definition same_finding :: "arch \<Rightarrow> rule \<Rightarrow> candidate \<Rightarrow> bool" where
  "same_finding a r c \<longleftrightarrow>
     SensorID c = ID r \<and> AlertName c = RAlert r \<and> CReason c = map_get (Annotations r) ''summary'' \<and> CWindow c = rule_window r
     \<and> IdleDays c = fdiv (dur_Hours (rule_window r)) (Fin 24) \<and> CRenotify c = NotifyEvery a r \<and> CLabels c = Labels r"

lemma new_candidate_finding: "same_finding a r (new_candidate a r)"
  by (simp add: new_candidate_def same_finding_def rule_window_def scan_window_def)

text \<open>The contract between the scanner (and the cost estimate) and the price catalog.\<close>

locale safe_pricer =
  fixes quote :: "string \<Rightarrow> attrs \<Rightarrow> 's \<Rightarrow> 's \<times> quote res"
  assumes quote_no_panic: "no_panic (snd (quote f a s))"
begin

lemma quote_cases:
  obtains s' e where "quote f a s = (s', Inl (Err e))" | s' q where "quote f a s = (s', Inr q)"
  using quote_no_panic [of f a s] by (cases "quote f a s") (metis no_panic_def gerr.exhaust snd_conv sum.exhaust)

lemma applyPricing_ok: "same_finding a r c \<Longrightarrow> \<exists>s' c'. applyPricing sf jd (Some quote) r c s = (s', Inr c') \<and> same_finding a r c'"
proof -
  assume c: "same_finding a r c"
  show ?thesis
  proof (cases "if map_get (Labels r) ''sentinel_price_attrs'' = [] then Some Map.empty else jd (map_get (Labels r) ''sentinel_price_attrs'')")
    case None
    then show ?thesis using c by (auto simp: applyPricing_def Let_def same_finding_def)
  next
    case (Some b)
    then show ?thesis using c
      by (rule_tac quote_cases [of "map_get (Labels r) ''sentinel_price_family''" b s])
         (auto simp: applyPricing_def Let_def same_finding_def priced_def)
  qed
qed

lemma scan_rule_ok:
  assumes "source_ok src"
  shows "\<exists>s' cs. scan_rule a sf jd src (Some quote) now r s = (s', Inr cs) \<and> list_all2 (same_finding a) (filter (rule_holds src now) [r]) cs"
proof -
  obtain s' c' where p: "applyPricing sf jd (Some quote) r (new_candidate a r) s = (s', Inr c')" "same_finding a r c'"
    using applyPricing_ok [of a r "new_candidate a r" sf jd s] new_candidate_finding by blast
  have "no_panic (RangeQuery src (Expr r) (now - scan_window r) now (24 * hour))" using assms by (simp add: source_ok_def)
  then show ?thesis
    using p by (auto simp: scan_rule_def rule_holds_code no_panic_def split: sum.splits gerr.splits)
qed

lemma scan_rules_ok:
  assumes "source_ok src"
  shows "\<exists>s' cs. scan_rules a sf jd src (Some quote) now rs s = (s', Inr cs) \<and> list_all2 (same_finding a) (filter (rule_holds src now) rs) cs"
proof (induction rs arbitrary: s)
  case (Cons r rs)
  obtain s1 cs1 where 1: "scan_rule a sf jd src (Some quote) now r s = (s1, Inr cs1)"
    "list_all2 (same_finding a) (filter (rule_holds src now) [r]) cs1"
    using scan_rule_ok [OF assms] by blast
  obtain s2 cs2 where 2: "scan_rules a sf jd src (Some quote) now rs s1 = (s2, Inr cs2)"
    "list_all2 (same_finding a) (filter (rule_holds src now) rs) cs2"
    using Cons by blast
  have "list_all2 (same_finding a) (filter (rule_holds src now) [r] @ filter (rule_holds src now) rs) (cs1 @ cs2)"
    using 1(2) 2(2) by (rule list_all2_appendI)
  then show ?case using 1(1) 2(1) by (auto split: if_splits)
qed simp

end

text \<open>The price catalog as a pricer; \<open>ord\<close> is the iteration order of the attributes.\<close>

definition catalog_pricer :: "(string \<Rightarrow> string) \<Rightarrow> cache_codec \<Rightarrow> price_net \<Rightarrow> price_catalog \<Rightarrow> time \<Rightarrow> (attrs \<Rightarrow> string list) \<Rightarrow> file_cache pricer" where
  "catalog_pricer h cd net pc now ord = (\<lambda>f a c. Catalog_Quote h cd net pc now (ord a) f a c)"

interpretation priced_scan: safe_pricer "catalog_pricer h cd net pc now ord"
proof
  show "no_panic (snd (catalog_pricer h cd net pc now ord f a s))" for f a s
    using resolve_no_panic [of net "AliClient pc" f a]
    by (auto simp: catalog_pricer_def Catalog_Quote_def Let_def no_panic_def split: option.splits sum.splits if_splits)
qed

text \<open>
  Claim C11. The waste scan finds exactly the alert rules of the waste kind whose query answers, for the rule's window (or two weeks) up to now in steps
  of a day, a first series with samples none of which is below one half; one candidate each, in the order of the catalog, with the
  rule's name, summary, window, idle days, renotification period and labels. Rules whose query fails drop out without stopping the others, and
  pricing over the price catalog, with its cache and whatever the price servers answer, never adds, drops or alters a finding. (A
  sample that is not a number does not count against a rule, so the condition need not have held throughout.)
\<close>

theorem Scan_spec:
  assumes "source_ok src"
  shows "\<exists>s' cs. Scan a sf jd src (Some (catalog_pricer h cd net pc now ord)) cat now s = (s', Inr cs) \<and>
    list_all2 (same_finding a) (filter (rule_holds src now) (RulesOfKind cat KindWaste)) cs"
  unfolding Scan_def by (rule priced_scan.scan_rules_ok [OF assms])

definition idle_rule :: rule where
  "idle_rule = \<lparr>Record = [], RAlert = ''Idle'', Expr = ''q'', For = 0, ForSet = False, Labels = [''sentinel_kind'' \<mapsto> ''waste''],
     Annotations = Map.empty, Kind = KindWaste, SourceFile = []\<rparr>"

definition idle_catalog :: catalog where
  "idle_catalog = \<lparr>Groups = [\<lparr>GName = ''g'', GRules = [idle_rule]\<rparr>], Version = [], LoadedAt = 0\<rparr>"

text \<open>A single sample that is not a number.\<close>

definition nan_source :: source where
  "nan_source = \<lparr>InstantQuery = \<lambda>_ _. Inr [], RangeQuery = \<lambda>_ _ t _. Inr [\<lparr>r_labels = Map.empty, r_samples = [\<lparr>s_time = t, s_value = NaN\<rparr>]\<rparr>]\<rparr>"

text \<open>Three rules: one that is idle, one with a busy day, and one whose query fails.\<close>

definition mixed_source :: source where
  "mixed_source = \<lparr>InstantQuery = \<lambda>_ _. Inr [], RangeQuery = \<lambda>q _ t _. if q = ''bad'' then Inl (Err [])
     else Inr [\<lparr>r_labels = Map.empty, r_samples = [\<lparr>s_time = 0, s_value = Fin 1\<rparr>, \<lparr>s_time = t, s_value = Fin (if q = ''busy'' then 2 / 5 else 1 / 2)\<rparr>]\<rparr>]\<rparr>"

definition mixed_catalog :: catalog where
  "mixed_catalog = \<lparr>Groups = [\<lparr>GName = ''g'', GRules = [idle_rule\<lparr>Expr := ''bad''\<rparr>, idle_rule, idle_rule\<lparr>Expr := ''busy''\<rparr>]\<rparr>], Version = [], LoadedAt = 0\<rparr>"

lemma mixed_holds: "filter (rule_holds mixed_source now) (RulesOfKind mixed_catalog KindWaste) = [idle_rule]"
  by (simp add: RulesOfKind_def mixed_catalog_def idle_rule_def rule_holds_def mixed_source_def fle_def)

theorem Scan_spec_witness:
  "\<exists>s' c. Scan AMD64 (\<lambda>_. None) (\<lambda>_. None) mixed_source (Some (catalog_pricer (\<lambda>k. k) codec1 no_net catalog1 0 (\<lambda>_. []))) mixed_catalog 0 cache1 = (s', Inr [c])
     \<and> same_finding AMD64 idle_rule c"
proof -
  have "source_ok mixed_source" by (simp add: source_ok_def mixed_source_def no_panic_def)
  from Scan_spec [OF this, of AMD64 "\<lambda>_. None" "\<lambda>_. None" "\<lambda>k. k" codec1 no_net catalog1 0 "\<lambda>_. []" mixed_catalog cache1]
  obtain s' cs where s: "Scan AMD64 (\<lambda>_. None) (\<lambda>_. None) mixed_source (Some (catalog_pricer (\<lambda>k. k) codec1 no_net catalog1 0 (\<lambda>_. []))) mixed_catalog 0 cache1 = (s', Inr cs)"
    "list_all2 (same_finding AMD64) [idle_rule] cs" by (auto simp: mixed_holds)
  then show ?thesis by (auto simp: list_all2_Cons1)
qed

subsection \<open>Scoped scans\<close>

lemma scan_rule_unpriced:
  assumes "source_ok src"
  shows "\<exists>cs. scan_rule a sf jd src None now r s = (s, Inr cs) \<and> list_all (\<lambda>c. CLabels c = Labels r) cs"
proof (cases "RangeQuery src (Expr r) (now - scan_window r) now (24 * hour)")
  case (Inl e)
  then have "e \<noteq> Panic" using assms by (metis no_panic_def source_ok_def)
  then obtain m where "e = Err m" by (cases e) auto
  then show ?thesis using Inl by (simp add: scan_rule_def)
next
  case (Inr res)
  then show ?thesis by (simp add: scan_rule_def applyPricing_def new_candidate_def)
qed

lemma scan_rules_scope:
  assumes "source_ok src"
  shows "\<exists>cs. scan_rules a sf jd src None now rs s = (s, Inr cs) \<and>
    scan_rules a sf jd src None now (filter (\<lambda>r. P (Labels r)) rs) s = (s, Inr (filter (\<lambda>c. P (CLabels c)) cs))"
proof (induction rs)
  case (Cons r rs)
  obtain cs1 where "scan_rule a sf jd src None now r s = (s, Inr cs1)" "list_all (\<lambda>c. CLabels c = Labels r) cs1"
    using scan_rule_unpriced [OF assms, of a sf jd now r s] by blast
  moreover from this have "filter (\<lambda>c. P (CLabels c)) cs1 = (if P (Labels r) then cs1 else [])"
    by (auto simp: list_all_iff filter_empty_conv intro: filter_True)
  ultimately show ?case using Cons by auto
qed simp

text \<open>
  A scoped scan is the full scan restricted: scanning the catalog filtered to the Kubernetes scope gives exactly the candidates of
  the whole scan whose rule carries that scope, in the same order.
\<close>

lemma ScanK8s_restricts:
  assumes "source_ok src"
  shows "\<exists>cs. snd (Scan a sf jd src None cat now ()) = Inr cs \<and>
    ScanK8s a sf jd src cat now = Inr (filter (\<lambda>c. map_get (CLabels c) ''scope'' = ''k8s'') cs)"
  using scan_rules_scope [OF assms, of a sf jd now "RulesOfKind cat KindWaste" "()" "\<lambda>l. map_get l ''scope'' = ''k8s''"]
  by (auto simp: Scan_def ScanK8s_def RulesOfKind_filterCatalog)

lemma ScanK8s_restricts_witness:
  "\<exists>cs. snd (Scan AMD64 (\<lambda>_. None) (\<lambda>_. None) nan_source None idle_catalog 0 ()) = Inr cs \<and>
     ScanK8s AMD64 (\<lambda>_. None) (\<lambda>_. None) nan_source idle_catalog 0 = Inr (filter (\<lambda>c. map_get (CLabels c) ''scope'' = ''k8s'') cs)"
  by (rule ScanK8s_restricts) (simp add: source_ok_def nan_source_def)

text \<open>The condition of fourteen days holds on one sample, and on one that is not a number.\<close>

lemma one_sample_suffices: "holds_throughout [\<lparr>r_labels = l, r_samples = [\<lparr>s_time = t, s_value = NaN\<rparr>]\<rparr>]"
  by (simp add: holds_throughout_def)

subsection \<open>Sizing\<close>

definition LowUtil :: "f64 \<Rightarrow> f64 \<Rightarrow> bool" where
  "LowUtil p95Ratio threshold = flt p95Ratio threshold"

definition SuggestedSaving :: "f64 \<Rightarrow> f64 \<Rightarrow> f64" where
  "SuggestedSaving cur sug = (let saving = fmul (fsub cur sug) (Fin 730) in if flt saving (Fin 0) then Fin 0 else saving)"

definition RoundUpTo :: "f64 \<Rightarrow> f64 \<Rightarrow> f64" where
  "RoundUpTo usage step = (if fle step (Fin 0) then usage else fmul (math_Ceil (fdiv usage step)) step)"

lemma SuggestedSaving_nonneg: "\<not> flt (SuggestedSaving cur sug) (Fin 0)"
  by (simp add: SuggestedSaving_def Let_def)

end
