(* ===== verification/Tracker.thy ===== *)
theory Tracker
  imports Waste
begin

text \<open>
  \<^verbatim>\<open>internal/waste/tracker.go\<close>: the life cycle of the candidates. The clock is an argument, maps are iterated in an order
  that is an argument, and the texts of the reminders are kept as data (\<open>reminder\<close>), not rendered.

  Main results: which scans of a candidate remind (\<open>tracker_reminders\<close>), that a snapshot restores the tracker
  (\<open>tracker_roundtrip\<close>), and that silent scans count the waste several times (\<open>Observe_overcounts\<close>).
\<close>

abbreviation LifecycleNotified :: string where "LifecycleNotified \<equiv> ''notified''"
abbreviation LifecycleRenoted :: string where "LifecycleRenoted \<equiv> ''renoted''"
abbreviation LifecycleDismissed :: string where "LifecycleDismissed \<equiv> ''dismissed''"
abbreviation LifecycleResolved :: string where "LifecycleResolved \<equiv> ''resolved''"

record tentry =
  Te_Sensor :: string
  Te_Resource :: string
  Te_Reason :: string
  Te_State :: string
  Te_FirstSeen :: time
  Te_LastNotified :: time
  Te_Renotify :: duration
  Te_PerDay :: f64
  Te_Total :: f64
  Te_DismissReason :: string
  Te_DismissUntil :: time

record tracker =
  entries :: "string \<rightharpoonup> tentry"
  resolvedSaving :: f64

definition NewTracker :: tracker where
  "NewTracker = \<lparr>entries = Map.empty, resolvedSaving = Fin 0\<rparr>"

definition entry_key :: "tentry \<Rightarrow> string" where
  "entry_key e = Te_Sensor e @ ''/'' @ Te_Resource e"

definition Entries :: "string list \<Rightarrow> tracker \<Rightarrow> tentry list" where
  "Entries ks t = map (\<lambda>k. the (entries t k)) (sort ks)"

definition restored_saving :: "tentry list \<Rightarrow> f64" where
  "restored_saving es = foldl (\<lambda>s e. if Te_State e = LifecycleResolved then fadd s (Te_Total e) else s) (Fin 0) es"

definition Restore :: "tentry list \<Rightarrow> tracker \<Rightarrow> tracker" where
  "Restore es t =
     t\<lparr>entries := foldl (\<lambda>m e. m(entry_key e \<mapsto> e)) (entries t) es,
       resolvedSaving := (if flt (resolvedSaving t) (restored_saving es) then restored_saving es else resolvedSaving t)\<rparr>"

datatype reminder =
    First (re_sensor: string) (re_reason: string) (re_days: f64)
  | Revived (re_key: string)
  | Again (re_key: string) (re_total: f64)
  | Silent

definition resourceKey :: "candidate \<Rightarrow> string" where
  "resourceKey c = (if map_get (CLabels c) ''resource'' \<noteq> [] then map_get (CLabels c) ''resource'' else AlertName c)"

definition cand_key :: "candidate \<Rightarrow> string" where
  "cand_key c = SensorID c @ ''/'' @ resourceKey c"

definition fresh_entry :: "candidate \<Rightarrow> time \<Rightarrow> tentry" where
  "fresh_entry c now =
     \<lparr>Te_Sensor = SensorID c, Te_Resource = resourceKey c, Te_Reason = CReason c, Te_State = LifecycleNotified,
      Te_FirstSeen = now, Te_LastNotified = now, Te_Renotify = CRenotify c, Te_PerDay = Fin 0, Te_Total = Fin 0,
      Te_DismissReason = [], Te_DismissUntil = time_zero\<rparr>"

definition accumulate :: "candidate \<Rightarrow> duration \<Rightarrow> tentry \<Rightarrow> tentry" where
  "accumulate c elapsed e =
     (if 0 < elapsed \<and> flt (Fin 0) (WastedCost c)
      then e\<lparr>Te_Total := fadd (Te_Total e) (fdiv (fmul (WastedCost c) (dur_Hours elapsed)) (Fin 24))\<rparr> else e)"

definition observe_entry :: "candidate \<Rightarrow> time \<Rightarrow> string \<Rightarrow> tentry \<Rightarrow> tentry \<times> bool \<times> reminder" where
  "observe_entry c now k e =
     (let elapsed = time_Sub now (Te_LastNotified e); e = accumulate c elapsed e in
      if Te_State e = LifecycleDismissed then
        (let e = e\<lparr>Te_LastNotified := now\<rparr> in
         if \<not> IsZero (Te_DismissUntil e) \<and> Te_DismissUntil e < now
         then (e\<lparr>Te_State := LifecycleRenoted, Te_DismissUntil := time_zero\<rparr>, True, Revived k)
         else (e, False, Silent))
      else if 0 < Te_Renotify e \<and> Te_Renotify e \<le> elapsed
      then (let e = e\<lparr>Te_State := LifecycleRenoted, Te_LastNotified := now\<rparr> in (e, True, Again k (Te_Total e)))
      else (e, False, Silent))"

definition Observe :: "candidate \<Rightarrow> time \<Rightarrow> tracker \<Rightarrow> tracker \<times> tentry \<times> bool \<times> reminder" where
  "Observe c now t =
     (let k = cand_key c;
          (e, notify, msg) = (case entries t k of
             None \<Rightarrow> (fresh_entry c now, True, First (SensorID c) (CReason c) (IdleDays c))
           | Some e \<Rightarrow> observe_entry c now k e)
      in (t\<lparr>entries := (entries t)(k \<mapsto> e)\<rparr>, e, notify, msg))"

text \<open>The first entry with the resource in the order of the iteration, whatever its sensor.\<close>

definition Dismiss :: "string list \<Rightarrow> string \<Rightarrow> string \<Rightarrow> time \<Rightarrow> tracker \<Rightarrow> tracker res" where
  "Dismiss ks resource reason until t =
     (case find (\<lambda>k. Te_Resource (the (entries t k)) = resource) ks of
        None \<Rightarrow> Inl (Err resource)
      | Some k \<Rightarrow> Inr (t\<lparr>entries := (entries t)(k \<mapsto> (the (entries t k))
          \<lparr>Te_State := LifecycleDismissed, Te_DismissReason := reason, Te_DismissUntil := until\<rparr>)\<rparr>))"

definition Tracker_Resolve :: "string list \<Rightarrow> string \<Rightarrow> tracker \<Rightarrow> tracker res" where
  "Tracker_Resolve ks resource t =
     (case find (\<lambda>k. Te_Resource (the (entries t k)) = resource \<and> Te_State (the (entries t k)) \<noteq> LifecycleResolved) ks of
        None \<Rightarrow> Inl (Err resource)
      | Some k \<Rightarrow> let e = the (entries t k) in
          Inr \<lparr>entries = (entries t)(k \<mapsto> e\<lparr>Te_State := LifecycleResolved\<rparr>), resolvedSaving = fadd (resolvedSaving t) (Te_Total e)\<rparr>)"

definition ResolvedSaving :: "tracker \<Rightarrow> f64" where
  "ResolvedSaving t = resolvedSaving t"

subsection \<open>Which scans remind\<close>

text \<open>
  The schedule of one candidate: since the last reminder at a time, or put aside (until a deadline; the zero time is none).
\<close>

datatype phase = Active time | Muted time

definition phase_of :: "tentry \<Rightarrow> duration \<times> phase" where
  "phase_of e = (Te_Renotify e, if Te_State e = LifecycleDismissed then Muted (Te_DismissUntil e) else Active (Te_LastNotified e))"

fun reminders :: "(duration \<times> phase) option \<Rightarrow> (duration \<times> time) list \<Rightarrow> bool list" where
  "reminders ph [] = []"
| "reminders None ((p, t) # xs) = True # reminders (Some (p, Active t)) xs"
| "reminders (Some (p, Active l)) ((_, t) # xs) =
     (if 0 < p \<and> p \<le> time_Sub t l then True # reminders (Some (p, Active t)) xs else False # reminders (Some (p, Active l)) xs)"
| "reminders (Some (p, Muted u)) ((_, t) # xs) =
     (if \<not> IsZero u \<and> u < t then True # reminders (Some (p, Active t)) xs else False # reminders (Some (p, Muted u)) xs)"

text \<open>The scans of a tracker, with the flags that \<^verbatim>\<open>Observe\<close> returns for one key.\<close>

fun flags :: "string \<Rightarrow> (candidate \<times> time) list \<Rightarrow> tracker \<Rightarrow> bool list" where
  "flags k [] t = []"
| "flags k ((c, now) # xs) t =
     (let (t', _, notify, _) = Observe c now t in (if cand_key c = k then [notify] else []) @ flags k xs t')"

definition scans_of :: "string \<Rightarrow> (candidate \<times> time) list \<Rightarrow> (duration \<times> time) list" where
  "scans_of k xs = map (\<lambda>(c, now). (CRenotify c, now)) (filter (\<lambda>(c, _). cand_key c = k) xs)"

lemma accumulate_fields [simp]:
  "Te_Renotify (accumulate c d e) = Te_Renotify e" "Te_State (accumulate c d e) = Te_State e"
  "Te_LastNotified (accumulate c d e) = Te_LastNotified e" "Te_DismissUntil (accumulate c d e) = Te_DismissUntil e"
  "Te_Sensor (accumulate c d e) = Te_Sensor e" "Te_Resource (accumulate c d e) = Te_Resource e"
  by (simp_all add: accumulate_def)

lemma Observe_other: "cand_key c \<noteq> k \<Longrightarrow> Observe c now t = (t', r) \<Longrightarrow> entries t' k = entries t k"
  by (auto simp: Observe_def Let_def split: prod.splits)

lemma observe_step:
  assumes "Observe c now t = (t', e, notify, msg)" "cand_key c = k"
  shows "reminders (map_option phase_of (entries t k)) ((CRenotify c, now) # xs) = notify # reminders (map_option phase_of (entries t' k)) xs"
proof (cases "entries t k")
  case None
  then show ?thesis using assms by (auto simp: Observe_def Let_def fresh_entry_def phase_of_def)
next
  case (Some e0)
  then show ?thesis using assms by (auto simp: Observe_def Let_def observe_entry_def phase_of_def split: if_splits)
qed

text \<open>
  Claim C10. Which scans of a candidate remind the user follows a simple schedule, whatever other candidates are scanned in between and
  however the costs vary: the first scan reminds; afterwards a scan reminds just when the renotify period is positive and has
  passed since the last reminder; a candidate that was put aside is silent until the first scan after its deadline (for ever
  without one), which reminds and starts the period again.
\<close>

theorem tracker_reminders: "flags k xs t = reminders (map_option phase_of (entries t k)) (scans_of k xs)"
proof (induction xs arbitrary: t)
  case (Cons x xs)
  obtain c now where x: "x = (c, now)" by force
  obtain t' e notify msg where o: "Observe c now t = (t', e, notify, msg)" by (metis prod_cases4)
  show ?case
  proof (cases "cand_key c = k")
    case True
    then show ?thesis using Cons.IH [of t'] observe_step [OF o True] by (simp add: x o scans_of_def)
  next
    case False
    then show ?thesis using Cons.IH [of t'] Observe_other [OF False o] by (simp add: x o scans_of_def)
  qed
qed (simp add: scans_of_def)

subsection \<open>Snapshots\<close>

definition entries_ok :: "(string \<rightharpoonup> tentry) \<Rightarrow> bool" where
  "entries_ok m \<longleftrightarrow> finite (dom m) \<and> (\<forall>k e. m k = Some e \<longrightarrow> entry_key e = k)"

inductive tracker_step :: "tracker \<Rightarrow> tracker \<Rightarrow> bool" where
  observe: "Observe c now t = (t', r) \<Longrightarrow> tracker_step t t'"
| dismiss: "iter_order (entries t) ks \<Longrightarrow> Dismiss ks resource reason until t = Inr t' \<Longrightarrow> tracker_step t t'"
| resolve: "iter_order (entries t) ks \<Longrightarrow> Tracker_Resolve ks resource t = Inr t' \<Longrightarrow> tracker_step t t'"
| restore: "tracker_step t (Restore es t)"

inductive_cases tracker_stepE: "tracker_step t t'"

lemma entries_ok_upd: "entries_ok m \<Longrightarrow> entry_key e = k \<Longrightarrow> entries_ok (m(k \<mapsto> e))"
  by (simp add: entries_ok_def)

lemma entries_okD: "entries_ok m \<Longrightarrow> m k = Some e \<Longrightarrow> entry_key e = k"
  by (simp add: entries_ok_def)

lemma entries_ok_restore: "entries_ok m \<Longrightarrow> entries_ok (foldl (\<lambda>m e. m(entry_key e \<mapsto> e)) m es)"
  by (induction es arbitrary: m) (simp_all add: entries_ok_upd)

lemma observe_entry_key: "observe_entry c now k e = (e', r) \<Longrightarrow> entry_key e' = entry_key e"
  by (auto simp: observe_entry_def Let_def entry_key_def split: if_splits)

lemma Observe_entries:
  assumes "entries_ok (entries t)" "Observe c now t = (t', r)"
  shows "entries_ok (entries t')"
proof -
  obtain e where e: "entries t' = (entries t)(cand_key c \<mapsto> e)" "entry_key e = cand_key c"
  proof (cases "entries t (cand_key c)")
    case None
    then show ?thesis using assms(2) that
      by (auto simp: Observe_def Let_def fresh_entry_def entry_key_def cand_key_def)
  next
    case (Some e0)
    obtain e' q where o: "observe_entry c now (cand_key c) e0 = (e', q)" by (metis surj_pair)
    then have "entry_key e' = cand_key c" using observe_entry_key [OF o] entries_okD [OF assms(1) Some] by simp
    then show ?thesis using assms(2) Some o that by (auto simp: Observe_def Let_def split: prod.splits)
  qed
  then show ?thesis using assms(1) entries_ok_upd by metis
qed

lemma found_key: "iter_order m ks \<Longrightarrow> find P ks = Some k \<Longrightarrow> \<exists>e. m k = Some e"
  by (auto simp: find_Some_iff iter_order_def)

lemma Dismiss_entries:
  assumes "entries_ok (entries t)" "iter_order (entries t) ks" "Dismiss ks resource reason until t = Inr t'"
  shows "entries_ok (entries t')"
proof -
  obtain k e where k: "entries t k = Some e" "entries t' = (entries t)(k \<mapsto> e\<lparr>Te_State := LifecycleDismissed, Te_DismissReason := reason, Te_DismissUntil := until\<rparr>)"
    using assms(3) found_key [OF assms(2)] by (fastforce simp: Dismiss_def split: option.splits)
  then show ?thesis using assms(1) entries_okD [OF assms(1) k(1)] by (simp add: entries_ok_upd entry_key_def)
qed

lemma Resolve_entries:
  assumes "entries_ok (entries t)" "iter_order (entries t) ks" "Tracker_Resolve ks resource t = Inr t'"
  shows "entries_ok (entries t')"
proof -
  obtain k e where k: "entries t k = Some e" "entries t' = (entries t)(k \<mapsto> e\<lparr>Te_State := LifecycleResolved\<rparr>)"
    using assms(3) found_key [OF assms(2)] by (fastforce simp: Tracker_Resolve_def Let_def split: option.splits)
  then show ?thesis using assms(1) entries_okD [OF assms(1) k(1)] by (simp add: entries_ok_upd entry_key_def)
qed

lemma tracker_step_ok: "tracker_step t t' \<Longrightarrow> entries_ok (entries t) \<Longrightarrow> entries_ok (entries t')"
  by (induction rule: tracker_step.induct) (auto simp: Restore_def intro: Observe_entries Dismiss_entries Resolve_entries entries_ok_restore)

lemma tracker_reach_ok: "tracker_step\<^sup>*\<^sup>* NewTracker t \<Longrightarrow> entries_ok (entries t)"
  by (induction rule: rtranclp_induct) (simp add: NewTracker_def entries_ok_def, rule tracker_step_ok)

lemma restore_snapshot:
  "\<forall>k \<in> set ks. \<exists>e. m0 k = Some e \<and> entry_key e = k \<Longrightarrow>
   foldl (\<lambda>m e. m(entry_key e \<mapsto> e)) m (map (\<lambda>k. the (m0 k)) ks) q = (if q \<in> set ks then m0 q else m q)"
  by (induction ks arbitrary: m) auto

text \<open>
  Claim C14. A snapshot loses no candidate: in every state that a tracker can reach, by any observations, dismissals, resolutions and
  restorations in any order of the map iterations, restoring the snapshot \<^verbatim>\<open>Entries\<close> into a new tracker gives the same entries
  under the same keys.
\<close>

theorem tracker_roundtrip:
  assumes "tracker_step\<^sup>*\<^sup>* NewTracker t" "iter_order (entries t) ks"
  shows "entries (Restore (Entries ks t) NewTracker) = entries t"
proof
  fix q
  have "\<forall>k \<in> set (sort ks). \<exists>e. entries t k = Some e \<and> entry_key e = k"
    using tracker_reach_ok [OF assms(1)] assms(2) by (auto simp: iter_order_def entries_ok_def)
  then show "entries (Restore (Entries ks t) NewTracker) q = entries t q"
    using assms(2) by (auto simp: Restore_def Entries_def NewTracker_def restore_snapshot iter_order_def)
qed

definition cand0 :: candidate where
  "cand0 = \<lparr>SensorID = ''elb'', AlertName = ''Idle'', CReason = [], CWindow = 14 * day24, IdleDays = Fin 14, WastedCost = Fin 5,
     CRenotify = 7 * day24, CLabels = Map.empty, SavingMonthly = Fin 150, CCurrency = ''USD'', PriceUnit = ''Hrs'', PriceStale = False, PriceError = []\<rparr>"

theorem tracker_roundtrip_witness:
  "entries (Restore (Entries [''elb/Idle''] (fst (Observe cand0 0 NewTracker))) NewTracker) = entries (fst (Observe cand0 0 NewTracker))
     \<and> dom (entries (fst (Observe cand0 0 NewTracker))) = {''elb/Idle''}"
proof -
  have d: "dom (entries (fst (Observe cand0 0 NewTracker))) = {''elb/Idle''}"
    by (simp add: Observe_def NewTracker_def cand_key_def cand0_def resourceKey_def map_get_def Let_def)
  have "tracker_step\<^sup>*\<^sup>* NewTracker (fst (Observe cand0 0 NewTracker))"
    by (metis r_into_rtranclp tracker_step.observe surj_pair fst_conv)
  then have "entries (Restore (Entries [''elb/Idle''] (fst (Observe cand0 0 NewTracker))) NewTracker) = entries (fst (Observe cand0 0 NewTracker))"
    by (rule tracker_roundtrip) (simp add: iter_order_def d)
  then show ?thesis using d by blast
qed

subsection \<open>The accumulated waste\<close>

text \<open>Daily scans after the first, on days \<open>1\<close> to \<open>n\<close>.\<close>

definition daily :: "candidate \<Rightarrow> nat \<Rightarrow> tracker" where
  "daily c n = foldl (\<lambda>t i. fst (Observe c (int i * day24) t)) (fst (Observe c 0 NewTracker)) [1..<Suc n]"

lemma day_cost:
  assumes "0 < w" "w \<le> 1000000" "0 < m" "m \<le> 1000"
  shows "fdiv (fmul (Fin (of_int w)) (dur_Hours (m * day24))) (Fin 24) = Fin (of_int (w * m))"
proof -
  have b: "w * m \<le> 1000000 * 1000" "0 < w * m" using assms by (intro mult_mono, auto)
  have "dur_Hours (m * day24) = Fin (of_int (24 * m))"
    using dur_Hours_whole [of "24 * m"] assms by (simp add: mult.commute)
  then have "fmul (Fin (of_int w)) (dur_Hours (m * day24)) = rnd (of_int (w * m * 24))" by (simp add: ac_simps)
  also have "\<dots> = Fin (of_int (w * m * 24))" 
  proof (rule rnd_of_int)
    have "w * m * 24 \<le> 9007199254740992" "0 \<le> w * m * 24" using b by linarith+
    then show "\<bar>w * m * 24\<bar> \<le> 2 ^ 53" by (simp only: abs_of_nonneg) simp
  qed
  finally have "fdiv (fmul (Fin (of_int w)) (dur_Hours (m * day24))) (Fin 24) = rnd (of_int (w * m))" by simp
  then show ?thesis using b rnd_of_int [of "w * m"] by simp
qed

text \<open>
  Scans that do not remind count the waste again and again: the time stamp is that of the last reminder, so scan number \<open>n\<close>
  adds the cost of \<open>n\<close> days. With daily scans at a cost of \<open>w\<close> per day, before the first renotification, the total after
  \<open>n\<close> days is \<open>w * n * (n + 1) / 2\<close>, not \<open>w * n\<close>.
\<close>

lemma Observe_overcounts:
  assumes "WastedCost c = Fin (of_int w)" "0 < w" "w \<le> 1000000" "n \<le> 1000" "CRenotify c = 0 \<or> int n * day24 < CRenotify c"
  shows "map_option Te_Total (entries (daily c n) (cand_key c)) = Some (Fin (of_int (w * (int n * (int n + 1) div 2))))"
proof -
  have "entries (daily c n) (cand_key c) = Some ((fresh_entry c 0)\<lparr>Te_Total := Fin (of_int (w * (int n * (int n + 1) div 2)))\<rparr>)"
    using assms(4,5)
  proof (induction n)
    case 0
    then show ?case by (simp add: daily_def Observe_def NewTracker_def Let_def fresh_entry_def)
  next
    case (Suc n)
    let ?T = "\<lambda>n. w * (int n * (int n + 1) div 2)"
    let ?e = "(fresh_entry c 0)\<lparr>Te_Total := Fin (of_int (?T n))\<rparr>"
    have IH: "entries (daily c n) (cand_key c) = Some ?e" using Suc by auto
    have el: "time_Sub (int (Suc n) * day24) 0 = int (Suc n) * day24" using Suc.prems(1) by (simp add: time_Sub_def)
    have tri: "int (Suc n) * (int (Suc n) + 1) div 2 = int n * (int n + 1) div 2 + int (Suc n)"
    proof -
      have "int (Suc n) * (int (Suc n) + 1) = int n * (int n + 1) + int (Suc n) * 2" by (simp add: algebra_simps)
      then show ?thesis by simp
    qed
    have Ts: "?T (Suc n) = ?T n + w * int (Suc n)" unfolding tri by (simp add: algebra_simps)
    have T: "0 \<le> ?T (Suc n)" "?T (Suc n) \<le> 1000000 * (1000 * 1001)"
    proof -
      have q: "int (Suc n) * (int (Suc n) + 1) \<le> 1000 * 1001" "0 \<le> int (Suc n) * (int (Suc n) + 1)"
        using Suc.prems(1) by (intro mult_mono) auto
      then have "0 \<le> int (Suc n) * (int (Suc n) + 1) div 2" "int (Suc n) * (int (Suc n) + 1) div 2 \<le> 1000 * 1001" by auto
      then show "0 \<le> ?T (Suc n)" "?T (Suc n) \<le> 1000000 * (1000 * 1001)"
        using assms(2,3) by (simp, intro mult_mono) auto
    qed
    have "accumulate c (int (Suc n) * day24) ?e = ?e\<lparr>Te_Total := rnd (of_int (?T n) + of_int (w * int (Suc n)))\<rparr>"
      using day_cost [of w "int (Suc n)"] Suc.prems(1) assms(1-3) by (simp add: accumulate_def del: of_nat_Suc)
    also have "of_int (?T n) + of_int (w * int (Suc n)) = (of_int (?T (Suc n)) :: rat)" unfolding Ts by simp
    also have "rnd (of_int (?T (Suc n))) = Fin (of_int (?T (Suc n)))" using T by (intro rnd_of_int) simp
    finally have acc: "accumulate c (int (Suc n) * day24) ?e = (fresh_entry c 0)\<lparr>Te_Total := Fin (of_int (?T (Suc n)))\<rparr>" by simp
    have "observe_entry c (int (Suc n) * day24) (cand_key c) ?e = (accumulate c (int (Suc n) * day24) ?e, False, Silent)"
    proof -
      have ne: "\<not> (0 < CRenotify c \<and> CRenotify c \<le> int (Suc n) * day24)" using Suc.prems(2) by auto
      have f: "Te_LastNotified ?e = 0" "Te_State (accumulate c (int (Suc n) * day24) ?e) = LifecycleNotified"
        "Te_Renotify (accumulate c (int (Suc n) * day24) ?e) = CRenotify c"
        by (simp_all add: fresh_entry_def del: of_nat_Suc)
      show ?thesis unfolding observe_entry_def Let_def f el using ne by simp
    qed
    then have o: "fst (Observe c (int (Suc n) * day24) (daily c n)) = (daily c n)\<lparr>entries := (entries (daily c n))(cand_key c \<mapsto> accumulate c (int (Suc n) * day24) ?e)\<rparr>"
      by (simp add: Observe_def IH Let_def del: of_nat_Suc)
    have "daily c (Suc n) = fst (Observe c (int (Suc n) * day24) (daily c n))" by (simp add: daily_def)
    then show ?case using o acc by simp
  qed
  then show ?thesis by simp
qed

lemma Observe_overcounts_witness: "map_option Te_Total (entries (daily cand0 6) (cand_key cand0)) = Some (Fin 105)"
  using Observe_overcounts [of cand0 5 6] by (simp add: cand0_def)

text \<open>A resolved candidate that is scanned again is reminded of and counted again when it is resolved once more.\<close>

lemma resolved_again:
  "Te_State e = LifecycleResolved \<Longrightarrow> 0 < Te_Renotify e \<Longrightarrow> Te_Renotify e \<le> time_Sub now (Te_LastNotified e) \<Longrightarrow>
   \<exists>e'. observe_entry c now k e = (e', True, Again k (Te_Total e')) \<and> Te_State e' = LifecycleRenoted"
  by (simp add: observe_entry_def Let_def)

text \<open>Two candidates of different sensors share a resource: which one is put aside depends on the order of the iteration.\<close>

lemma Dismiss_order:
  "entries t = [''a/r'' \<mapsto> e1, ''b/r'' \<mapsto> e2] \<Longrightarrow> Te_Resource e1 = ''r'' \<Longrightarrow> Te_Resource e2 = ''r'' \<Longrightarrow>
   \<exists>t1 t2. Dismiss [''a/r'', ''b/r''] ''r'' why until t = Inr t1 \<and> Dismiss [''b/r'', ''a/r''] ''r'' why until t = Inr t2 \<and>
     entries t1 ''b/r'' = entries t ''b/r'' \<and> entries t2 ''a/r'' = entries t ''a/r''"
  by (simp add: Dismiss_def)

end
