(* ===== verification/Sensors.thy ===== *)
theory Sensors
  imports Notify Spec Store Catalog Tracker
begin

text \<open>
  The sensors of the daemon and one round over them (\<^verbatim>\<open>cmd/sentinel/daemon.go\<close>: \<^verbatim>\<open>specLoadAll\<close>, \<^verbatim>\<open>setupSensors\<close>, \<^verbatim>\<open>runOnePoll\<close>,
  \<^verbatim>\<open>eachState\<close>). A sensor is a capacity sensor, whose engine state lives across rounds, or an objective, which is evaluated
  from scratch. What the metrics source, AlertManager, the gate and the notifier answer to a sensor in a round is the parameter
  \<open>poll_env\<close>.

  Main results: the step of an objective's query fits Prometheus' limit of 11000 points (\<open>slo_step_spec\<close>) but disables the forecast of long
  windows (\<open>slo_long_window_blind\<close>); a round stores the state of every sensor that could be evaluated and leaves the others alone
  (\<open>runOnePoll_states\<close>, \<open>runOnePoll_isolates\<close>).
\<close>

subsection \<open>Objectives\<close>

record specSLO =
  X_ID :: string
  X_Service :: string
  X_SLIQuery :: string
  X_Objective :: f64
  X_WindowDays :: int
  X_Th :: thresholds

definition specLoadAll :: "arch \<Rightarrow> filesys \<Rightarrow> (string \<Rightarrow> slo list res) \<Rightarrow> string \<Rightarrow> specSLO list res" where
  "specLoadAll a fs unmarshal dir =
     res_bind (Load a fs unmarshal dir) (\<lambda>slos. Inr (map (\<lambda>x.
       \<lparr>X_ID = L_ID x, X_Service = L_Service x, X_SLIQuery = L_SLIQuery x, X_Objective = L_Objective x, X_WindowDays = L_WindowDays x,
        X_Th = (if L_Thresholds x = None then DefaultThresholds else slo_Resolve a (L_Thresholds x))\<rparr>) slos))"

definition budgetRatio :: "specSLO \<Rightarrow> f64" where
  "budgetRatio x = fdiv (fsub (Fin 100) (X_Objective x)) (Fin 100)"

definition slo_window :: "arch \<Rightarrow> specSLO \<Rightarrow> duration" where
  "slo_window a x = Parse a (dec_int (X_WindowDays x) @ ''d'')"

definition slo_step :: "duration \<Rightarrow> duration" where
  "slo_step window =
     (let step = gquot window 10000; step = gquot step second * second
      in if step < minute then minute else step)"

definition slo_input :: "arch \<Rightarrow> specSLO \<Rightarrow> time \<Rightarrow> sample list \<Rightarrow> f64 \<Rightarrow> input" where
  "slo_input a x now series value =
     \<lparr>Def = \<lparr>D_ID = X_ID x, D_ValueQuery = [], D_CeilingQuery = [], Horizons = []\<rparr>,
      Now = now, Value = value, Ceiling = budgetRatio x, PrevCeiling = Fin 0,
      Samples = (\<lambda>w. if w \<in> set DefaultHorizons then Some series else None),
      Interval = slo_step (slo_window a x), PrevState = Unset, PrevExitStreak = 0, Th = X_Th x, UseOLS = False\<rparr>"

definition slo_series :: "qresult list \<Rightarrow> sample list" where
  "slo_series rs = (case rs of [] \<Rightarrow> [] | r # _ \<Rightarrow> r_samples r)"

definition slo_value :: "qresult list \<Rightarrow> f64" where
  "slo_value rs = (case rs of [] \<Rightarrow> Fin 0 | r # _ \<Rightarrow> if r_samples r = [] then Fin 0 else s_value (last (r_samples r)))"

definition slo_poll :: "arch \<Rightarrow> source \<Rightarrow> time \<Rightarrow> specSLO \<Rightarrow> forecast res" where
  "slo_poll a src now x =
     (let window = slo_window a x in
      res_bind (RangeQuery src (X_SLIQuery x) (now + wrap64 (- window)) now (slo_step window)) (\<lambda>rs.
      res_bind (InstantQuery src (X_SLIQuery x) now) (\<lambda>inst.
        Evaluate a (slo_input a x now (slo_series rs) (slo_value inst)))))"

subsection \<open>Setting up\<close>

datatype poller = PollCap sensor | PollSlo specSLO

record sensor_runner =
  RN_id :: string
  RN_info :: runner_info
  RN_poll :: poller

type_synonym metric = "string \<times> (string \<times> string) list"

record daemon =
  DM_sensors :: "sensor_runner list"
  DM_capDefs :: "capdef list"
  DM_notify :: notify_state
  DM_store :: store
  DM_metrics :: "metric \<rightharpoonup> f64"
  DM_catalog :: "catalog option"
  DM_tracker :: "tracker option"

definition cap_runner :: "capdef \<Rightarrow> sensor \<Rightarrow> sensor_runner" where
  "cap_runner d s = \<lparr>RN_id = C_ID d, RN_info = \<lparr>RI_kind = KCapacity, RI_filter = C_ID d\<rparr>, RN_poll = PollCap s\<rparr>"

definition slo_runner :: "specSLO \<Rightarrow> sensor_runner" where
  "slo_runner x = \<lparr>RN_id = X_ID x, RN_info = \<lparr>RI_kind = KBudget, RI_filter = X_Service x\<rparr>, RN_poll = PollSlo x\<rparr>"

definition note_meta :: "capdef \<Rightarrow> daemon \<Rightarrow> daemon" where
  "note_meta d dm = dm\<lparr>DM_notify := (DM_notify dm)\<lparr>NS_meta := (NS_meta (DM_notify dm))
     (C_ID d \<mapsto> \<lparr>Scope = C_Scope d, Service = C_Service d, Cluster = C_Cluster d\<rparr>)\<rparr>\<rparr>"

text \<open>The loop over the capacity definitions: the first one without a sensor stops it.\<close>

fun setup_caps :: "capdef list \<Rightarrow> sensor_runner list \<Rightarrow> daemon \<Rightarrow> sensor_runner list res \<times> daemon" where
  "setup_caps [] rs dm = (Inr rs, dm)"
| "setup_caps (d # ds) rs dm =
     (case New d of Inl e \<Rightarrow> (Inl e, dm) | Inr s \<Rightarrow> setup_caps ds (rs @ [cap_runner d s]) (note_meta d dm))"

definition setupSensors :: "arch \<Rightarrow> filesys \<Rightarrow> (string \<Rightarrow> capdef list res) \<Rightarrow> (string \<Rightarrow> slo list res) \<Rightarrow> string \<Rightarrow> string \<Rightarrow> daemon
    \<Rightarrow> unit res \<times> daemon" where
  "setupSensors a fs ucap uslo capdir slodir dm =
     (case LoadDefs fs ucap capdir of Inl e \<Rightarrow> (Inl e, dm)
      | Inr defs \<Rightarrow>
          (case setup_caps defs [] dm of (Inl e, dm) \<Rightarrow> (Inl e, dm)
           | (Inr rs, dm) \<Rightarrow>
               let dm = dm\<lparr>DM_capDefs := defs\<rparr> in
               (case specLoadAll a fs uslo slodir of Inl e \<Rightarrow> (Inl e, dm)
                | Inr slos \<Rightarrow> (Inr (), dm\<lparr>DM_sensors := rs @ map slo_runner slos\<rparr>))))"

subsection \<open>One round\<close>

record poll_env =
  PE_src :: source
  PE_now :: time
  PE_wall :: time
  PE_notify :: notify_env

definition poll_sensor :: "arch \<Rightarrow> poll_env \<Rightarrow> poller \<Rightarrow> forecast res \<times> poller" where
  "poll_sensor a env p =
     (case p of PollCap s \<Rightarrow> (let (r, s') = Poll a (PE_src env) (PE_now env) s in (r, PollCap s'))
      | PollSlo x \<Rightarrow> (slo_poll a (PE_src env) (PE_now env) x, p))"

definition catalogVersion :: "daemon \<Rightarrow> string" where
  "catalogVersion dm = (case DM_catalog dm of None \<Rightarrow> [] | Some c \<Rightarrow> Version c)"

text \<open>A statement that fails is logged and changes nothing.\<close>

definition or_log :: "store \<Rightarrow> store res \<Rightarrow> store" where
  "or_log s r = (case r of Inl e \<Rightarrow> s | Inr s' \<Rightarrow> s')"

definition forecast_prediction :: "daemon \<Rightarrow> forecast \<Rightarrow> prediction" where
  "forecast_prediction dm f =
     \<lparr>P_ID = 0, P_Sensor = F_ID f, P_At = F_Now f, P_EtaAggressive = EtaAggressive f, P_EtaConservative = EtaConservative f,
      P_Actual = F_Value f, P_Catalog = catalogVersion dm, P_Ceiling = Some (F_Ceiling f), P_Util = Some (Utilization f)\<rparr>"

definition forecast_state :: "store \<Rightarrow> forecast \<Rightarrow> sensor_state" where
  "forecast_state s f =
     \<lparr>SS_ID = F_ID f, SS_State = state_string (F_State f), SS_Value = F_Value f, SS_Util = Utilization f,
      SS_NotifyAt = (case GetState (F_ID f) s of None \<Rightarrow> time_zero | Some prev \<Rightarrow> SS_NotifyAt prev), SS_UpdatedAt = time_zero\<rparr>"

definition eta_metric :: "string \<Rightarrow> string \<Rightarrow> metric" where
  "eta_metric i h = (''sentinel_eta_seconds'', [(''sensor'', i), (''horizon'', h)])"

definition set_opt :: "metric \<Rightarrow> f64 option \<Rightarrow> (metric \<rightharpoonup> f64) \<Rightarrow> metric \<rightharpoonup> f64" where
  "set_opt k v m = (case v of None \<Rightarrow> m | Some x \<Rightarrow> m(k \<mapsto> x))"

definition fails_of :: "notify_state \<Rightarrow> string \<Rightarrow> int" where
  "fails_of ns i = (case NS_retry ns i of None \<Rightarrow> 0 | Some rt \<Rightarrow> Fails rt)"

text \<open>The failure metric is written exactly when something was sent and nothing was accepted.\<close>

definition round_metrics :: "action list \<Rightarrow> notify_state \<Rightarrow> forecast \<Rightarrow> (metric \<rightharpoonup> f64) \<Rightarrow> metric \<rightharpoonup> f64" where
  "round_metrics acts ns f m =
     (let m = (if acts \<noteq> [] \<and> \<not> list_ex accepted acts
               then m((''sentinel_notify_failures_total'', [(''sensor'', F_ID f)]) \<mapsto> of_i64 (fails_of ns (F_ID f))) else m);
          m = set_opt (eta_metric (F_ID f) ''aggressive'') (EtaAggressive f) m;
          m = set_opt (eta_metric (F_ID f) ''conservative'') (EtaConservative f) m
      in m((''sentinel_capacity_used_ratio'', [(''sensor'', F_ID f)]) \<mapsto> Utilization f))"

definition report :: "poll_env \<Rightarrow> runner_info \<Rightarrow> forecast \<Rightarrow> daemon \<Rightarrow> action list \<times> daemon" where
  "report env ri f dm =
     (let s1 = or_log (DM_store dm) (AppendPrediction (PE_wall env) (forecast_prediction dm f) (DM_store dm));
          (acts, ns) = notify_forecast (PE_notify env) ri f (DM_notify dm);
          s2 = or_log s1 (SetState (PE_wall env) (forecast_state s1 f) s1)
      in (acts, dm\<lparr>DM_store := s2, DM_notify := ns, DM_metrics := round_metrics acts ns f (DM_metrics dm)\<rparr>))"

text \<open>A sensor whose poll fails or panics is logged; the round goes on with the next one.\<close>

definition run_sensor :: "arch \<Rightarrow> poll_env \<Rightarrow> sensor_runner \<Rightarrow> daemon \<Rightarrow> sensor_runner \<times> action list \<times> daemon" where
  "run_sensor a env r dm =
     (let (res, p) = poll_sensor a env (RN_poll r); r' = r\<lparr>RN_poll := p\<rparr> in
      case res of Inl e \<Rightarrow> (r', [], dm) | Inr f \<Rightarrow> (let (acts, dm') = report env (RN_info r) f dm in (r', acts, dm')))"

fun run_sensors :: "arch \<Rightarrow> (string \<Rightarrow> poll_env) \<Rightarrow> sensor_runner list \<Rightarrow> daemon \<Rightarrow> sensor_runner list \<times> action list \<times> daemon" where
  "run_sensors a env [] dm = ([], [], dm)"
| "run_sensors a env (r # rs) dm =
     (let (r', acts, dm') = run_sensor a (env (RN_id r)) r dm; (rs', acts', dm'') = run_sensors a env rs dm'
      in (r' # rs', acts @ acts', dm''))"

definition runOnePoll :: "arch \<Rightarrow> (string \<Rightarrow> poll_env) \<Rightarrow> daemon \<Rightarrow> action list \<times> daemon" where
  "runOnePoll a env dm =
     (let (rs, acts, dm') = run_sensors a env (DM_sensors dm) dm in (acts, dm'\<lparr>DM_sensors := rs\<rparr>))"

definition eachState :: "daemon \<Rightarrow> sensor_state list" where
  "eachState dm = List.map_filter (\<lambda>r. GetState (RN_id r) (DM_store dm)) (DM_sensors dm)"

definition sortedSensorIDs :: "string list \<Rightarrow> string list" where
  "sortedSensorIDs ks = sort ks"

subsection \<open>The step of an objective\<close>

lemma slo_window_days: "0 \<le> X_WindowDays x \<Longrightarrow> X_WindowDays x \<le> 36500 \<Longrightarrow> slo_window a x = X_WindowDays x * day24"
  by (simp add: slo_window_def Parse_days)

lemma slo_step_days:
  assumes "0 \<le> n"
  shows "slo_step (n * day24) = max minute (n * 216 div 25 * second)"
proof -
  have "n * day24 = n * 8640000000 * 10000" by simp
  then have "n * day24 div 10000 = n * 8640000000" by (simp only: nonzero_mult_div_cancel_right)
  moreover have "n * 8640000000 div second = n * 216 div 25"
    using div_mult_mult2 [of 40000000 "n * 216" 25] by (simp add: mult.assoc)
  ultimately show ?thesis using assms by (auto simp: slo_step_def gquot_nonneg Let_def max_def)
qed

lemma div_upper: "0 < k \<Longrightarrow> p < k * (p div k) + k" for p k :: int
  using mult_div_mod_eq [of k p] pos_mod_bound [of k p] by linarith

lemma disj_max: "p \<le> k * a \<or> p \<le> k * b \<Longrightarrow> 0 \<le> k \<Longrightarrow> p \<le> k * max a b" for p k a b :: int
  by (metis max.cobounded1 max.cobounded2 mult_left_mono order_trans)

lemma div_le: "p \<le> k * m \<Longrightarrow> 0 < m \<Longrightarrow> p div m \<le> k" for p k m :: int
  using zdiv_mono1 [of p "k * m" m] by simp

text \<open>
  The query of an objective is one that Prometheus answers: for every window of up to 100 years the step is at least a minute, a
  whole number of seconds, and the window has at most 10200 steps, within the limit of 11000 points per series.
\<close>

lemma slo_step_spec:
  assumes "0 < X_WindowDays x" "X_WindowDays x \<le> 36500"
  shows "slo_window a x = X_WindowDays x * day24 \<and> minute \<le> slo_step (slo_window a x) \<and> second dvd slo_step (slo_window a x)
       \<and> slo_window a x div slo_step (slo_window a x) \<le> 10200"
proof -
  define n where "n = X_WindowDays x"
  define q where "q = n * 216 div 25"
  have n: "0 < n" "n \<le> 36500" and w: "slo_window a x = n * day24" using assms slo_window_days [of x a] by (simp_all add: n_def)
  have s: "slo_step (slo_window a x) = max minute (q * second)" using slo_step_days [of n] n(1) unfolding w q_def by (simp only: less_imp_le)
  have d: "second dvd max minute (q * second)" by (cases "minute \<le> q * second") (simp_all only: max_absorb1 max_absorb2 if_True if_False max_def, simp_all)
  have q: "n * 216 < 25 * q + 25" unfolding q_def by (rule div_upper) simp
  have "n * day24 \<le> 10200 * minute \<or> n * day24 \<le> 10200 * (q * second)"
  proof (cases "q < 60")
    case True
    then have "n \<le> 6" using q by linarith
    then show ?thesis by (intro disjI1) simp
  next
    case False
    then have "n * 86400 \<le> 10200 * q" using q by linarith
    then have "n * 86400 * second \<le> 10200 * q * second" by (rule mult_right_mono) simp
    then show ?thesis by (intro disjI2) simp
  qed
  then have "n * day24 \<le> 10200 * max minute (q * second)" by (rule disj_max) simp
  moreover have "0 < max minute (q * second)" by simp
  ultimately have "n * day24 div max minute (q * second) \<le> 10200" by (rule div_le)
  then show ?thesis using d unfolding w s [unfolded w] n_def [symmetric] by (simp only: max.cobounded1 simp_thms)
qed

lemma slo_step_spec_witness:
  "slo_window AMD64 \<lparr>X_ID = ''a'', X_Service = [], X_SLIQuery = ''q'', X_Objective = Fin 99, X_WindowDays = 28, X_Th = DefaultThresholds\<rparr> = 28 * day24"
  using slo_step_spec [of "\<lparr>X_ID = ''a'', X_Service = [], X_SLIQuery = ''q'', X_Objective = Fin 99, X_WindowDays = 28, X_Th = DefaultThresholds\<rparr>" AMD64]
  by simp

subsection \<open>Long windows\<close>

text \<open>What a range query answers: samples at least a step apart.\<close>

definition spaced :: "duration \<Rightarrow> sample list \<Rightarrow> bool" where
  "spaced step ss \<longleftrightarrow> successively (\<lambda>s t. step \<le> s_time t - s_time s) ss"

lemma split_spaced: "g < step \<Longrightarrow> g < 2 ^ 63 - 1 \<Longrightarrow> spaced step (cur @ ss) \<Longrightarrow> length cur \<le> 1 \<Longrightarrow> \<forall>r \<in> set (split_gaps g cur ss). length r = 1"
proof (induction g cur ss rule: split_gaps.induct)
  case (1 g cur)
  then show ?case by (cases cur) auto
next
  case (2 g cur s ss)
  show ?case
  proof (cases cur)
    case Nil
    then show ?thesis using 2 by simp
  next
    case (Cons c cs)
    then have c: "cur = [c]" using "2.prems" by simp
    then have "step \<le> s_time s - s_time c" "spaced step (s # ss)" using "2.prems"(3) by (simp_all add: spaced_def)
    then have "g < time_Sub (s_time s) (s_time c)" using "2.prems"(1,2) by (simp add: time_Sub_def)
    then show ?thesis using 2 c \<open>spaced step (s # ss)\<close> by simp
  qed
qed

lemma SplitByGaps_spaced: "5 * minute < step \<Longrightarrow> spaced step ss \<Longrightarrow> r \<in> set (SplitByGaps ss (5 * minute)) \<Longrightarrow> length r = 1"
  using split_spaced [of "5 * minute" step "[]" ss] by (simp add: SplitByGaps_def)

lemma run_slope_single: "length r = 1 \<Longrightarrow> run_slope a ols r = Inr (Fin 0, False)"
  by (simp add: run_slope_def OLSSlope_def TheilSenSlope_def decimate_def)

lemma evalWindow_spaced:
  assumes "5 * minute < step" "spaced step (samples_of inp w)" "evalWindow a w inp j = Inr ev"
  shows "ETA ev = None"
proof -
  have "res_all (run_slope a (UseOLS inp)) (SplitByGaps (samples_of inp w) (5 * minute))
      = Inr (map (\<lambda>_. (Fin 0, False)) (SplitByGaps (samples_of inp w) (5 * minute)))"
    by (intro res_all_cong run_slope_single SplitByGaps_spaced [OF assms(1,2)])
  then show ?thesis using assms(3) by (auto simp: evalWindow_def new_eval_def Let_def split: if_splits)
qed

lemma slo_poll_Inr:
  assumes "slo_poll a src now x = Inr f"
  obtains rs inst where "RangeQuery src (X_SLIQuery x) (now + wrap64 (- slo_window a x)) now (slo_step (slo_window a x)) = Inr rs"
    "InstantQuery src (X_SLIQuery x) now = Inr inst" "Evaluate a (slo_input a x now (slo_series rs) (slo_value inst)) = Inr f"
  using assms by (auto simp: slo_poll_def Let_def res_bind_Inr)

lemma slo_horizons [simp]: "horizons_of (slo_input a x now ss v) = DefaultHorizons"
  by (simp add: horizons_of_def slo_input_def)

lemma slo_samples: "w \<in> set DefaultHorizons \<Longrightarrow> samples_of (slo_input a x now ss v) w = ss"
  by (simp add: samples_of_def slo_input_def)

lemma slo_etas:
  assumes "Evaluate a (slo_input a x now ss v) = Inr f"
  obtains e1 e2 where "evalWindow a hour (slo_input a x now ss v) (jumped (slo_input a x now ss v)) = Inr e1" "EtaAggressive f = ETA e1"
    "evalWindow a (3 * 24 * hour) (slo_input a x now ss v) (jumped (slo_input a x now ss v)) = Inr e2" "EtaConservative f = ETA e2"
proof -
  have m: "Max (set DefaultHorizons) = 3 * 24 * hour" by (simp add: DefaultHorizons_def)
  have s: "hour \<in> set DefaultHorizons" "3 * 24 * hour \<in> set DefaultHorizons" by (simp_all add: DefaultHorizons_def)
  have "\<exists>w \<in> set DefaultHorizons. 0 < w" by (simp add: DefaultHorizons_def)
  then show thesis using that s m Evaluate_sel(2,3) [OF assms] assms unfolding Evaluate_Inr by auto
qed

text \<open>
  Claim C21. The forecast of an objective with a window of 35 days or more never works: the adaptive step exceeds the five minutes at which
  the engine splits a series, so every run is a single sample, no time to exhaustion is ever reported, and the state is never a warning.
\<close>

theorem slo_long_window_blind:
  assumes "35 \<le> X_WindowDays x" "X_WindowDays x \<le> 36500" "slo_poll a src now x = Inr f"
    and "\<And>q s e step rs. RangeQuery src q s e step = Inr rs \<Longrightarrow> spaced step (slo_series rs)"
  shows "EtaAggressive f = None \<and> EtaConservative f = None \<and> F_State f \<noteq> Warning"
proof -
  define n where "n = X_WindowDays x"
  obtain rs inst where r: "RangeQuery src (X_SLIQuery x) (now + wrap64 (- slo_window a x)) now (slo_step (slo_window a x)) = Inr rs"
    and e: "Evaluate a (slo_input a x now (slo_series rs) (slo_value inst)) = Inr f" by (rule slo_poll_Inr [OF assms(3)]) blast
  let ?i = "slo_input a x now (slo_series rs) (slo_value inst)"
  have n: "35 \<le> n" and w: "slo_window a x = n * day24" using assms(1,2) slo_window_days [of x a] by (simp_all add: n_def)
  have "301 \<le> n * 216 div 25" using n by linarith
  then have big: "5 * minute < slo_step (slo_window a x)" using n by (simp add: w slo_step_days max_def)
  have sp: "spaced (slo_step (slo_window a x)) (samples_of ?i v)" if "v \<in> set DefaultHorizons" for v
    using assms(4) [OF r] slo_samples [OF that] by simp
  obtain e1 e2 where ev: "evalWindow a hour ?i (jumped ?i) = Inr e1" "EtaAggressive f = ETA e1"
    "evalWindow a (3 * 24 * hour) ?i (jumped ?i) = Inr e2" "EtaConservative f = ETA e2" by (rule slo_etas [OF e]) blast
  have none: "EtaAggressive f = None" "EtaConservative f = None"
    using ev(2,4) evalWindow_spaced [OF big sp ev(1)] evalWindow_spaced [OF big sp ev(3)] by (simp_all add: DefaultHorizons_def)
  moreover have "F_State f \<noteq> Warning"
    using Evaluate_sel(7) [OF e] none by (auto simp: decide_def Let_def eta_below_def slo_input_def split: if_splits)
  ultimately show ?thesis by blast
qed

lemma Evaluate_ok:
  assumes "short_series inp" "validate (Th inp) = Inr ()" "D_ID (Def inp) \<noteq> []" "\<not> fle (Ceiling inp) (Fin 0)"
  shows "\<exists>f. Evaluate a inp = Inr f"
proof -
  have "evalWindow a w inp (jumped inp) = Inr (win a inp w)" for w
    using evalWindow_ok [OF assms(1), of a w "jumped inp"] by (auto simp: win_def)
  then show ?thesis using assms(2-4) by (simp add: Evaluate_Inr)
qed

definition slo35 :: specSLO where
  "slo35 = \<lparr>X_ID = ''api'', X_Service = ''api'', X_SLIQuery = ''q'', X_Objective = Fin 75, X_WindowDays = 35, X_Th = DefaultThresholds\<rparr>"

definition two_samples :: source where
  "two_samples = \<lparr>InstantQuery = \<lambda>q t. Inr [], RangeQuery = \<lambda>q s e step. Inr [\<lparr>r_labels = Map.empty,
     r_samples = [\<lparr>s_time = s, s_value = Fin 0\<rparr>, \<lparr>s_time = s + step, s_value = Fin (1 / 8)\<rparr>]\<rparr>]\<rparr>"

lemma slo35_poll: "\<exists>f. slo_poll AMD64 two_samples 0 slo35 = Inr f"
proof -
  have "rnd 25 = Fin 25" "rnd (1 / 4) = Fin (1 / 4)" using rnd_of_int [of 25] by (simp_all add: rnd_eval)
  then have "budgetRatio slo35 = Fin (1 / 4)" by (simp add: budgetRatio_def slo35_def)
  then show ?thesis
    by (auto simp: slo_poll_def Let_def two_samples_def slo_series_def slo_value_def short_series_def samples_of_def slo_input_def
        validate_default slo35_def intro!: Evaluate_ok split: option.splits if_splits)
qed

theorem slo_long_window_blind_witness:
  "\<exists>f. slo_poll AMD64 two_samples 0 slo35 = Inr f \<and> EtaAggressive f = None \<and> EtaConservative f = None \<and> F_State f \<noteq> Warning"
proof -
  obtain f where "slo_poll AMD64 two_samples 0 slo35 = Inr f" using slo35_poll by blast
  moreover have "EtaAggressive f = None \<and> EtaConservative f = None \<and> F_State f \<noteq> Warning"
    by (rule slo_long_window_blind [OF _ _ calculation]) (auto simp: slo35_def two_samples_def slo_series_def spaced_def)
  ultimately show ?thesis by blast
qed

text \<open>
  The two views of an objective are one: all windows are evaluated on the same series, so as soon as it has the samples that the
  longest window requires, the aggressive and the conservative time to exhaustion are equal.
\<close>

lemma slo_one_view:
  assumes "slo_poll a src now x = Inr f"
    "RangeQuery src (X_SLIQuery x) (now + wrap64 (- slo_window a x)) now (slo_step (slo_window a x)) = Inr rs"
    "MinSamples a hour (slo_step (slo_window a x)) \<le> int (length (slo_series rs))"
    "MinSamples a (3 * 24 * hour) (slo_step (slo_window a x)) \<le> int (length (slo_series rs))"
  shows "EtaAggressive f = EtaConservative f"
proof -
  obtain inst where e: "Evaluate a (slo_input a x now (slo_series rs) (slo_value inst)) = Inr f"
    using assms(2) slo_poll_Inr [OF assms(1)] by (metis Inr_inject)
  let ?i = "slo_input a x now (slo_series rs) (slo_value inst)"
  obtain e1 e2 where ev: "evalWindow a hour ?i (jumped ?i) = Inr e1" "EtaAggressive f = ETA e1"
    "evalWindow a (3 * 24 * hour) ?i (jumped ?i) = Inr e2" "EtaConservative f = ETA e2" by (rule slo_etas [OF e]) blast
  have "samples_of ?i hour = slo_series rs" "samples_of ?i (3 * 24 * hour) = slo_series rs"
    by (rule slo_samples, simp add: DefaultHorizons_def)+
  moreover have "Interval ?i = slo_step (slo_window a x)" by (simp add: slo_input_def)
  ultimately show ?thesis using ev assms(3,4)
    by (auto simp: evalWindow_def new_eval_def Let_def res_bind_Inr split: if_splits)
qed

subsection \<open>A round\<close>

definition poller_id :: "poller \<Rightarrow> string" where
  "poller_id p = (case p of PollCap s \<Rightarrow> C_ID (S_def s) | PollSlo x \<Rightarrow> X_ID x)"

text \<open>The sensors that \<open>setupSensors\<close> builds report under their own id.\<close>

definition runner_ok :: "sensor_runner \<Rightarrow> bool" where
  "runner_ok r \<longleftrightarrow> poller_id (RN_poll r) = RN_id r"

lemma New_def_id: "New d = Inr s \<Longrightarrow> S_def s = d"
  by (auto simp: New_def split: if_splits)

lemma setup_caps_ok:
  "setup_caps ds rs dm = (Inr rs', dm') \<Longrightarrow> list_all runner_ok rs \<Longrightarrow>
   list_all runner_ok rs' \<and> map RN_id rs' = map RN_id rs @ map C_ID ds \<and> DM_sensors dm' = DM_sensors dm"
proof (induction ds arbitrary: rs dm)
  case (Cons d ds)
  then obtain s where s: "New d = Inr s" "setup_caps ds (rs @ [cap_runner d s]) (note_meta d dm) = (Inr rs', dm')"
    by (auto split: sum.splits)
  have "runner_ok (cap_runner d s)" using New_def_id [OF s(1)] by (simp add: runner_ok_def cap_runner_def poller_id_def)
  then have "list_all runner_ok (rs @ [cap_runner d s])" using Cons.prems(2) by simp
  from Cons.IH [OF s(2) this] show ?case by (simp add: cap_runner_def note_meta_def)
qed simp

lemma setup_caps_sensors: "setup_caps ds rs dm = (r, dm') \<Longrightarrow> DM_sensors dm' = DM_sensors dm \<and> DM_store dm' = DM_store dm"
  by (induction ds arbitrary: rs dm) (auto simp: note_meta_def split: sum.splits)

lemma setupSensors_result:
  "case setupSensors a fs ucap uslo capdir slodir dm of (Inl e, dm') \<Rightarrow> DM_sensors dm' = DM_sensors dm \<and> DM_store dm' = DM_store dm
   | (Inr u, dm') \<Rightarrow> DM_store dm' = DM_store dm \<and> list_all runner_ok (DM_sensors dm')
       \<and> (\<exists>defs slos. LoadDefs fs ucap capdir = Inr defs \<and> specLoadAll a fs uslo slodir = Inr slos
            \<and> map RN_id (DM_sensors dm') = map C_ID defs @ map X_ID slos)"
proof (cases "LoadDefs fs ucap capdir")
  case (Inr defs)
  obtain r dm1 where c: "setup_caps defs [] dm = (r, dm1)" by force
  note frame = setup_caps_sensors [OF c]
  show ?thesis
  proof (cases r)
    case r: (Inr rs)
    have ok: "list_all runner_ok rs" "map RN_id rs = map C_ID defs" using setup_caps_ok [of defs "[]" dm rs dm1] c r by auto
    show ?thesis
    proof (cases "specLoadAll a fs uslo slodir")
      case s: (Inr slos)
      have "list_all runner_ok (map slo_runner slos)" by (simp add: list_all_iff runner_ok_def slo_runner_def poller_id_def)
      moreover have "map RN_id (map slo_runner slos) = map X_ID slos" by (simp add: slo_runner_def)
      ultimately show ?thesis using Inr c r s ok frame by (simp add: setupSensors_def)
    qed (use Inr c r frame in \<open>simp add: setupSensors_def\<close>)
  qed (use Inr c frame in \<open>simp add: setupSensors_def\<close>)
qed (simp add: setupSensors_def)

text \<open>
  A reload replaces the sensors completely or not at all: when a definition cannot be read the old sensors (with their engine
  states) stay, otherwise the new ones are those of the definitions in order, capacity sensors first, each reporting under its own id.
  The stored states are untouched.
\<close>

lemma setupSensors_atomic:
  "case setupSensors a fs ucap uslo capdir slodir dm of (Inl e, dm') \<Rightarrow> DM_sensors dm' = DM_sensors dm \<and> DM_store dm' = DM_store dm
   | (Inr u, dm') \<Rightarrow> DM_store dm' = DM_store dm \<and> list_all runner_ok (DM_sensors dm')
       \<and> (\<exists>defs slos. LoadDefs fs ucap capdir = Inr defs \<and> specLoadAll a fs uslo slodir = Inr slos
            \<and> map RN_id (DM_sensors dm') = map C_ID defs @ map X_ID slos)"
  by (rule setupSensors_result)

lemma build_forecast_id: "F_ID (build_forecast a inp evs) = D_ID (Def inp)"
  by (simp add: build_forecast_def Let_def split_beta)

lemma Evaluate_id: "Evaluate a inp = Inr f \<Longrightarrow> F_ID f = D_ID (Def inp) \<and> F_ID f \<noteq> []"
  unfolding Evaluate_Inr by (auto simp: build_forecast_id)

lemma poll_sensor_id: "poll_sensor a env p = (Inr f, p') \<Longrightarrow> F_ID f = poller_id p \<and> F_ID f \<noteq> []"
proof (cases p)
  case (PollCap s)
  assume "poll_sensor a env p = (Inr f, p')"
  then have "Poll a (PE_src env) (PE_now env) s = (Inr f, snd (Poll a (PE_src env) (PE_now env) s))"
    using PollCap by (auto simp: poll_sensor_def split: prod.splits)
  then obtain inp where i: "poll_input a (PE_src env) (PE_now env) s = Inr inp" and e: "Evaluate a inp = Inr f" by (auto simp: Poll_Inr)
  from i have "D_ID (Def inp) = C_ID (S_def s)" by (auto simp: poll_input_def res_bind_Inr sensor_input_def)
  then show ?thesis using Evaluate_id [OF e] PollCap by (auto simp: poller_id_def)
next
  case (PollSlo x)
  assume "poll_sensor a env p = (Inr f, p')"
  then have s: "slo_poll a (PE_src env) (PE_now env) x = Inr f" using PollSlo by (simp add: poll_sensor_def)
  obtain rs inst where "Evaluate a (slo_input a x (PE_now env) (slo_series rs) (slo_value inst)) = Inr f" by (rule slo_poll_Inr [OF s]) blast
  from Evaluate_id [OF this] show ?thesis using PollSlo by (auto simp: poller_id_def slo_input_def)
qed

lemma poll_sensor_keeps_id: "poller_id (snd (poll_sensor a env p)) = poller_id p"
  by (auto simp: poll_sensor_def poller_id_def Poll_def split: poller.splits prod.splits sum.splits)

lemma or_log_append: "T_states (or_log s (AppendPrediction now p s)) = T_states s"
  by (auto simp: or_log_def AppendPrediction_def Let_def split: sum.splits if_splits)

lemma state_of_cong: "T_states s = T_states s' \<Longrightarrow> state_of s j = state_of s' j"
  by (simp add: state_of_def GetState_def)

lemma state_of_SetState:
  "SS_ID st \<noteq> [] \<Longrightarrow> state_of (or_log s (SetState now st s)) j = (if j = SS_ID st then Some (SS_State st) else state_of s j)"
  by (simp add: state_of_def or_log_def SetState_def GetState_def Let_def update_conv')

lemma report_state:
  "F_ID f \<noteq> [] \<Longrightarrow> state_of (DM_store (snd (report env ri f dm))) j
     = (if j = F_ID f then Some (state_string (F_State f)) else state_of (DM_store dm) j)"
  using state_of_cong [OF or_log_append]
  by (auto simp: report_def Let_def state_of_SetState forecast_state_def split: prod.splits)

definition state_after :: "arch \<Rightarrow> poll_env \<Rightarrow> sensor_runner \<Rightarrow> string option \<Rightarrow> string option" where
  "state_after a env r old = (case fst (poll_sensor a env (RN_poll r)) of Inl e \<Rightarrow> old | Inr f \<Rightarrow> Some (state_string (F_State f)))"

lemma run_sensor_state:
  assumes "runner_ok r" "run_sensor a env r dm = (r', acts, dm')"
  shows "state_of (DM_store dm') j = (if j = RN_id r then state_after a env r (state_of (DM_store dm) j) else state_of (DM_store dm) j)"
proof -
  obtain res p where p: "poll_sensor a env (RN_poll r) = (res, p)" by force
  show ?thesis
  proof (cases res)
    case (Inr f)
    then have "F_ID f = RN_id r" "F_ID f \<noteq> []" using poll_sensor_id [of a env "RN_poll r" f p] p assms(1) by (auto simp: runner_ok_def)
    then show ?thesis using assms(2) p Inr report_state [of f env "RN_info r" dm j]
      by (auto simp: run_sensor_def state_after_def split: prod.splits)
  qed (use assms(2) p in \<open>auto simp: run_sensor_def state_after_def\<close>)
qed

lemma run_sensors_state:
  "list_all runner_ok rs \<Longrightarrow> distinct (map RN_id rs) \<Longrightarrow> run_sensors a env rs dm = (rs', acts, dm') \<Longrightarrow>
   (\<forall>r \<in> set rs. state_of (DM_store dm') (RN_id r) = state_after a (env (RN_id r)) r (state_of (DM_store dm) (RN_id r)))
   \<and> (\<forall>j. j \<notin> RN_id ` set rs \<longrightarrow> state_of (DM_store dm') j = state_of (DM_store dm) j)"
proof (induction rs arbitrary: dm rs' acts dm')
  case (Cons r rs)
  obtain r1 a1 dm1 where 1: "run_sensor a (env (RN_id r)) r dm = (r1, a1, dm1)" by (metis prod_cases3)
  obtain rs2 a2 dm2 where 2: "run_sensors a env rs dm1 = (rs2, a2, dm2)" by (metis prod_cases3)
  have dm': "dm' = dm2" using Cons.prems(3) 1 2 by simp
  have IH: "(\<forall>r \<in> set rs. state_of (DM_store dm2) (RN_id r) = state_after a (env (RN_id r)) r (state_of (DM_store dm1) (RN_id r)))
    \<and> (\<forall>j. j \<notin> RN_id ` set rs \<longrightarrow> state_of (DM_store dm2) j = state_of (DM_store dm1) j)"
    using Cons.IH [OF _ _ 2] Cons.prems by simp
  have st: "state_of (DM_store dm1) j = (if j = RN_id r then state_after a (env (RN_id r)) r (state_of (DM_store dm) j) else state_of (DM_store dm) j)" for j
    using run_sensor_state [OF _ 1] Cons.prems(1) by simp
  have "RN_id r \<notin> RN_id ` set rs" using Cons.prems(2) by simp
  then show ?case using IH st by (auto simp: dm' image_iff)
qed simp

lemma run_sensors_other:
  "list_all runner_ok rs \<Longrightarrow> j \<notin> RN_id ` set rs \<Longrightarrow> state_of (DM_store (snd (snd (run_sensors a env rs dm)))) j = state_of (DM_store dm) j"
proof (induction rs arbitrary: dm)
  case (Cons r rs)
  obtain r1 a1 dm1 where 1: "run_sensor a (env (RN_id r)) r dm = (r1, a1, dm1)" by (metis prod_cases3)
  have "state_of (DM_store dm1) j = state_of (DM_store dm) j" using run_sensor_state [OF _ 1, of j] Cons.prems by auto
  then show ?case using Cons 1 by (simp add: split_beta Let_def)
qed simp

lemma run_sensors_keep:
  "list_all runner_ok rs \<Longrightarrow> list_all runner_ok (fst (run_sensors a env rs dm)) \<and> map RN_id (fst (run_sensors a env rs dm)) = map RN_id rs"
proof (induction rs arbitrary: dm)
  case (Cons r rs)
  have "runner_ok (fst (run_sensor a (env (RN_id r)) r dm)) \<and> RN_id (fst (run_sensor a (env (RN_id r)) r dm)) = RN_id r"
    using Cons.prems poll_sensor_keeps_id [of a "env (RN_id r)" "RN_poll r"]
    by (auto simp: run_sensor_def runner_ok_def Let_def split: prod.splits sum.splits)
  then show ?case using Cons by (simp add: split_beta Let_def)
qed simp

lemma runOnePoll_frame:
  assumes "list_all runner_ok (DM_sensors dm)" "j \<notin> RN_id ` set (DM_sensors dm)"
  shows "state_of (DM_store (snd (runOnePoll a env dm))) j = state_of (DM_store dm) j"
  using run_sensors_other [OF assms, of a env dm] by (simp add: runOnePoll_def split_beta Let_def)

lemma runOnePoll_keeps:
  assumes "list_all runner_ok (DM_sensors dm)"
  shows "list_all runner_ok (DM_sensors (snd (runOnePoll a env dm)))" "map RN_id (DM_sensors (snd (runOnePoll a env dm))) = map RN_id (DM_sensors dm)"
  using run_sensors_keep [OF assms, of a env dm] by (simp_all add: runOnePoll_def split_beta Let_def)

text \<open>
  Claim C19. After a round every sensor that could be evaluated has its new state stored, every sensor whose query failed or panicked keeps
  its old one, and no other entry of the state table changes: sensors with different ids do not disturb one another.
\<close>

theorem runOnePoll_states:
  assumes "list_all runner_ok (DM_sensors dm)" "distinct (map RN_id (DM_sensors dm))" "runOnePoll a env dm = (acts, dm')"
  shows "state_of (DM_store dm') j =
    (case find (\<lambda>r. RN_id r = j) (DM_sensors dm) of None \<Rightarrow> state_of (DM_store dm) j
     | Some r \<Rightarrow> (case fst (poll_sensor a (env j) (RN_poll r)) of Inl e \<Rightarrow> state_of (DM_store dm) j | Inr f \<Rightarrow> Some (state_string (F_State f))))"
proof -
  obtain rs2 a2 dm2 where 2: "run_sensors a env (DM_sensors dm) dm = (rs2, a2, dm2)" by (metis prod_cases3)
  have d: "DM_store dm' = DM_store dm2" using assms(3) 2 by (auto simp: runOnePoll_def)
  note S = run_sensors_state [OF assms(1,2) 2]
  show ?thesis
  proof (cases "find (\<lambda>r. RN_id r = j) (DM_sensors dm)")
    case None
    then have "j \<notin> RN_id ` set (DM_sensors dm)" by (auto simp: find_None_iff)
    then show ?thesis using S None d by simp
  next
    case (Some r)
    then have "r \<in> set (DM_sensors dm)" "RN_id r = j" by (auto simp: find_Some_iff)
    then show ?thesis using S Some d by (auto simp: state_after_def)
  qed
qed

definition quiet_env :: poll_env where
  "quiet_env = \<lparr>PE_src = two_samples, PE_now = 0, PE_wall = 0, PE_notify = ok_env\<rparr>"

definition fresh_daemon :: "sensor_runner list \<Rightarrow> daemon" where
  "fresh_daemon rs = \<lparr>DM_sensors = rs, DM_capDefs = [], DM_notify = \<lparr>NS_dedupe = Map.empty, NS_retry = Map.empty, NS_published = Map.empty,
     NS_meta = Map.empty\<rparr>, DM_store = empty_store, DM_metrics = Map.empty, DM_catalog = None, DM_tracker = None\<rparr>"

theorem runOnePoll_states_witness:
  "\<exists>acts dm'. runOnePoll AMD64 (\<lambda>_. quiet_env) (fresh_daemon [slo_runner slo35]) = (acts, dm') \<and> state_of (DM_store dm') ''api'' \<noteq> None"
proof -
  obtain acts dm' where r: "runOnePoll AMD64 (\<lambda>_. quiet_env) (fresh_daemon [slo_runner slo35]) = (acts, dm')" by force
  obtain f where f: "slo_poll AMD64 two_samples 0 slo35 = Inr f" using slo35_poll by blast
  have "state_of (DM_store dm') ''api'' = Some (state_string (F_State f))"
    using runOnePoll_states [OF _ _ r, of "''api''"] f
    by (simp add: fresh_daemon_def slo_runner_def runner_ok_def poller_id_def poll_sensor_def quiet_env_def) (simp add: slo35_def)
  then show ?thesis using r by blast
qed

subsection \<open>Failing sensors\<close>

definition polls_ok :: "arch \<Rightarrow> (string \<Rightarrow> poll_env) \<Rightarrow> sensor_runner \<Rightarrow> bool" where
  "polls_ok a env r = is_ok (fst (poll_sensor a (env (RN_id r)) (RN_poll r)))"

lemma run_sensors_isolates:
  "fst (snd (run_sensors a env rs dm)) = fst (snd (run_sensors a env (filter (polls_ok a env) rs) dm))
   \<and> snd (snd (run_sensors a env rs dm)) = snd (snd (run_sensors a env (filter (polls_ok a env) rs) dm))"
proof (induction rs arbitrary: dm)
  case (Cons r rs)
  show ?case
  proof (cases "polls_ok a env r")
    case True
    then show ?thesis using Cons.IH by (auto simp: split_beta Let_def)
  next
    case False
    then obtain e p where "poll_sensor a (env (RN_id r)) (RN_poll r) = (Inl e, p)"
      by (cases "poll_sensor a (env (RN_id r)) (RN_poll r)") (auto simp: polls_ok_def isl_def)
    then have "run_sensor a (env (RN_id r)) r dm = (r\<lparr>RN_poll := p\<rparr>, [], dm)" by (simp add: run_sensor_def)
    then show ?thesis using Cons.IH [of dm] False by (auto simp: split_beta Let_def)
  qed
qed simp

lemma run_sensors_frame: "snd (run_sensors a env rs (dm\<lparr>DM_sensors := x\<rparr>))
    = (fst (snd (run_sensors a env rs dm)), snd (snd (run_sensors a env rs dm))\<lparr>DM_sensors := x\<rparr>)"
proof (induction rs arbitrary: dm)
  case (Cons r rs)
  have "run_sensor a (env (RN_id r)) r (dm\<lparr>DM_sensors := x\<rparr>) = (fst (run_sensor a (env (RN_id r)) r dm),
      fst (snd (run_sensor a (env (RN_id r)) r dm)), snd (snd (run_sensor a (env (RN_id r)) r dm))\<lparr>DM_sensors := x\<rparr>)"
    by (auto simp: run_sensor_def report_def forecast_prediction_def catalogVersion_def Let_def split: prod.splits sum.splits)
  then show ?case using Cons.IH [of "snd (snd (run_sensor a (env (RN_id r)) r dm))"] by (simp add: split_beta Let_def)
qed simp

text \<open>
  Claim C22. One failing sensor does not take the round down: what is sent, stored, registered and exported in a round is what a daemon that had
  only the sensors whose polls succeed would have sent, stored, registered and exported.
\<close>

theorem runOnePoll_isolates:
  "fst (runOnePoll a env dm) = fst (runOnePoll a env (dm\<lparr>DM_sensors := filter (polls_ok a env) (DM_sensors dm)\<rparr>))
   \<and> (snd (runOnePoll a env dm))\<lparr>DM_sensors := []\<rparr>
       = (snd (runOnePoll a env (dm\<lparr>DM_sensors := filter (polls_ok a env) (DM_sensors dm)\<rparr>)))\<lparr>DM_sensors := []\<rparr>"
proof -
  let ?ok = "filter (polls_ok a env) (DM_sensors dm)"
  obtain rs acts dm1 where 1: "run_sensors a env (DM_sensors dm) dm = (rs, acts, dm1)" by (metis prod_cases3)
  obtain rs' where 2: "run_sensors a env ?ok dm = (rs', acts, dm1)"
    using run_sensors_isolates [of a env "DM_sensors dm" dm] 1 by (metis fst_conv prod.collapse snd_conv)
  have "snd (run_sensors a env ?ok (dm\<lparr>DM_sensors := ?ok\<rparr>)) = (acts, dm1\<lparr>DM_sensors := ?ok\<rparr>)"
    using run_sensors_frame [of a env ?ok ?ok dm] 2 by simp
  then show ?thesis using 1 by (auto simp: runOnePoll_def split: prod.splits)
qed

subsection \<open>An exhausted budget is announced\<close>

definition poller_th :: "arch \<Rightarrow> poller \<Rightarrow> thresholds" where
  "poller_th a p = (case p of PollCap s \<Rightarrow> Resolve a (C_Thresholds (S_def s)) | PollSlo x \<Rightarrow> X_Th x)"

lemma build_forecast_values: "F_Value (build_forecast a inp evs) = Value inp" "F_Ceiling (build_forecast a inp evs) = Ceiling inp"
  by (simp_all add: build_forecast_def Let_def split_beta)

lemma Evaluate_values: "Evaluate a inp = Inr f \<Longrightarrow> Value inp = F_Value f \<and> Ceiling inp = F_Ceiling f"
  by (auto simp: Evaluate_Inr build_forecast_values)

lemma poll_sensor_inp:
  assumes "poll_sensor a env p = (Inr f, p')"
  obtains inp where "Evaluate a inp = Inr f" "Th inp = poller_th a p" "Value inp = F_Value f" "Ceiling inp = F_Ceiling f"
proof (cases p)
  case (PollCap s)
  then have "Poll a (PE_src env) (PE_now env) s = (Inr f, snd (Poll a (PE_src env) (PE_now env) s))"
    using assms by (auto simp: poll_sensor_def split: prod.splits)
  then obtain inp where i: "poll_input a (PE_src env) (PE_now env) s = Inr inp" and e: "Evaluate a inp = Inr f" by (auto simp: Poll_Inr)
  from i have "Th inp = poller_th a p" using PollCap by (auto simp: poll_input_def res_bind_Inr sensor_input_def poller_th_def)
  then show thesis using that [OF e] Evaluate_values [OF e] by simp
next
  case (PollSlo x)
  then have s: "slo_poll a (PE_src env) (PE_now env) x = Inr f" using assms by (simp add: poll_sensor_def)
  obtain rs inst where e: "Evaluate a (slo_input a x (PE_now env) (slo_series rs) (slo_value inst)) = Inr f" by (rule slo_poll_Inr [OF s]) blast
  have "Th (slo_input a x (PE_now env) (slo_series rs) (slo_value inst)) = poller_th a p" using PollSlo by (simp add: slo_input_def poller_th_def)
  then show thesis using that [OF e] Evaluate_values [OF e] by simp
qed

text \<open>The notification of one sensor leaves the others' registrations and counters alone.\<close>

lemma triage_frame: "triageHandled env ri f ns = (h, acts, ns') \<Longrightarrow> NS_dedupe ns' = NS_dedupe ns \<and> NS_retry ns' = NS_retry ns"
  using triage_dedupe by blast

lemma notify_send_frame:
  assumes "i \<noteq> F_ID f"
  shows "NS_dedupe (snd (notify_send env ri f ns)) i = NS_dedupe ns i \<and> NS_retry (snd (notify_send env ri f ns)) i = NS_retry ns i"
proof -
  obtain h acts ns' where t: "triageHandled env ri f ns = (h, acts, ns')" by (metis prod_cases3)
  show ?thesis using triage_frame [OF t] assms
    by (auto simp: notify_send_def t Let_def commit_def Commit_def markNotifyResult_def split: bool.splits sum.splits)
qed

lemma notify_frame:
  assumes "i \<noteq> F_ID f"
  shows "NS_dedupe (snd (notify_forecast env ri f ns)) i = NS_dedupe ns i \<and> NS_retry (snd (notify_forecast env ri f ns)) i = NS_retry ns i"
proof -
  obtain ok ns' where a: "allowNotify (F_ID f) ns = (ok, ns')" by force
  have "NS_dedupe ns' i = NS_dedupe ns i \<and> NS_retry ns' i = NS_retry ns i"
    using a assms by (auto simp: allowNotify_def Let_def split: option.splits if_splits)
  then show ?thesis using notify_send_frame [OF assms, of env ri ns'] by (simp add: notify_forecast_def a)
qed

lemma report_notify: "DM_notify (snd (report env ri f dm)) = snd (notify_forecast (PE_notify env) ri f (DM_notify dm))"
  "fst (report env ri f dm) = fst (notify_forecast (PE_notify env) ri f (DM_notify dm))"
  by (simp_all add: report_def Let_def split: prod.splits)

definition notify_view :: "string \<Rightarrow> daemon \<Rightarrow> string option \<times> retry_state option" where
  "notify_view i dm = (NS_dedupe (DM_notify dm) i, NS_retry (DM_notify dm) i)"

lemma run_sensor_view:
  assumes "runner_ok r" "RN_id r \<noteq> i" "run_sensor a env r dm = (r', acts, dm')"
  shows "notify_view i dm' = notify_view i dm"
proof (cases "poll_sensor a env (RN_poll r)")
  case (Pair res p)
  show ?thesis
  proof (cases res)
    case (Inr f)
    then have "F_ID f \<noteq> i" using poll_sensor_id Pair assms(1,2) by (auto simp: runner_ok_def)
    then show ?thesis using assms(3) Pair Inr notify_frame [of i f] report_notify(1) [of env "RN_info r" f dm]
      by (auto simp: run_sensor_def notify_view_def split: prod.splits)
  qed (use assms(3) Pair in \<open>auto simp: run_sensor_def\<close>)
qed

lemma run_sensors_view: "list_all runner_ok rs \<Longrightarrow> i \<notin> RN_id ` set rs \<Longrightarrow> notify_view i (snd (snd (run_sensors a env rs dm))) = notify_view i dm"
proof (induction rs arbitrary: dm)
  case (Cons r rs)
  obtain r1 a1 dm1 where 1: "run_sensor a (env (RN_id r)) r dm = (r1, a1, dm1)" by (metis prod_cases3)
  have "notify_view i dm1 = notify_view i dm" using run_sensor_view [OF _ _ 1] Cons.prems by auto
  then show ?case using Cons 1 by (auto simp: split_beta Let_def)
qed simp

lemma notify_critical:
  assumes "F_State f = Critical" "registered (NS_dedupe ns) (F_ID f) \<in> {''healthy'', ''warning''}" "NS_retry ns (F_ID f) = None"
    "\<not> is_firing env ri" "\<not> isl (NE_send env (formatForecastCard (NE_g4 env) f))"
  shows "NS_dedupe (snd (notify_forecast env ri f ns)) (F_ID f) = Some ''critical'' \<and> list_ex accepted (fst (notify_forecast env ri f ns))"
proof -
  have p: "Peek (NS_dedupe ns) (F_ID f) (state_string (F_State f))" using assms(1,2) by (auto simp: Peek_def state_string_def rank_def)
  have a: "allowNotify (F_ID f) ns = (True, ns)" using assms(3) by (simp add: allowNotify_def)
  have "notify_forecast env ri f ns = notify_send env ri f ns" using p a assms(4) by (simp add: notify_forecast_def)
  moreover have acc: "list_ex accepted (fst (notify_send env ri f ns))" by (rule notify_send_delivers [OF assms(5)])
  moreover have "NS_dedupe (snd (notify_send env ri f ns)) = Commit (NS_dedupe ns) (F_ID f) ''critical''"
    using notify_send_dedupe [of env ri f ns] acc assms(1) by (simp add: state_string_def)
  ultimately show ?thesis by (simp add: Commit_def)
qed

text \<open>What makes a sensor report in this round: it is exhausted, not yet registered as critical, not silenced and reachable.\<close>

definition due_exhausted :: "arch \<Rightarrow> poll_env \<Rightarrow> sensor_runner \<Rightarrow> (string option \<times> retry_state option) \<Rightarrow> bool" where
  "due_exhausted a env r view =
     (case fst (poll_sensor a env (RN_poll r)) of Inl e \<Rightarrow> False
      | Inr f \<Rightarrow> (case (F_Value f, F_Ceiling f) of (Fin v, Fin c) \<Rightarrow> c \<le> v | _ \<Rightarrow> False)
           \<and> fle (CritRatio (effective (poller_th a (RN_poll r)))) (Fin 1)
           \<and> fst view \<in> {None, Some ''healthy'', Some ''warning''} \<and> snd view = None
           \<and> \<not> is_firing (PE_notify env) (RN_info r) \<and> \<not> isl (NE_send (PE_notify env) (formatForecastCard (NE_g4 (PE_notify env)) f)))"

lemma run_sensor_exhausted:
  assumes "runner_ok r" "due_exhausted a env r (notify_view (RN_id r) dm)" "run_sensor a env r dm = (r', acts, dm')"
  shows "fst (notify_view (RN_id r) dm') = Some ''critical'' \<and> list_ex accepted acts"
proof -
  obtain f p where p: "poll_sensor a env (RN_poll r) = (Inr f, p)"
    using assms(2) by (cases "poll_sensor a env (RN_poll r)") (auto simp: due_exhausted_def split: sum.splits)
  obtain v c where vc: "F_Value f = Fin v" "F_Ceiling f = Fin c" "c \<le> v"
    using assms(2) p by (auto simp: due_exhausted_def split: f64.splits)
  have id: "F_ID f = RN_id r" using poll_sensor_id [OF p] assms(1) by (simp add: runner_ok_def)
  obtain inp where i: "Evaluate a inp = Inr f" "Th inp = poller_th a (RN_poll r)" "Value inp = F_Value f" "Ceiling inp = F_Ceiling f"
    by (rule poll_sensor_inp [OF p])
  have "F_State f = Critical" using exhausted_critical [OF i(1), of v c] i vc assms(2) p by (simp add: due_exhausted_def)
  moreover have "registered (NS_dedupe (DM_notify dm)) (F_ID f) \<in> {''healthy'', ''warning''}"
    using assms(2) p id by (auto simp: due_exhausted_def notify_view_def registered_def map_get_def)
  ultimately show ?thesis
    using notify_critical [of f "DM_notify dm" "PE_notify env" "RN_info r"] assms(2,3) p id report_notify [of env "RN_info r" f dm]
    by (auto simp: run_sensor_def due_exhausted_def notify_view_def split: prod.splits)
qed

lemma run_sensors_exhausted:
  "list_all runner_ok rs \<Longrightarrow> distinct (map RN_id rs) \<Longrightarrow> r \<in> set rs \<Longrightarrow> due_exhausted a (env (RN_id r)) r (notify_view (RN_id r) dm) \<Longrightarrow>
   fst (notify_view (RN_id r) (snd (snd (run_sensors a env rs dm)))) = Some ''critical'' \<and> list_ex accepted (fst (snd (run_sensors a env rs dm)))"
proof (induction rs arbitrary: dm)
  case (Cons q rs)
  obtain q1 a1 dm1 where 1: "run_sensor a (env (RN_id q)) q dm = (q1, a1, dm1)" by (metis prod_cases3)
  show ?case
  proof (cases "r = q")
    case True
    have "fst (notify_view (RN_id q) dm1) = Some ''critical'' \<and> list_ex accepted a1"
      using run_sensor_exhausted [OF _ _ 1] Cons.prems True by simp
    moreover have "notify_view (RN_id q) (snd (snd (run_sensors a env rs dm1))) = notify_view (RN_id q) dm1"
      using Cons.prems by (intro run_sensors_view) auto
    ultimately show ?thesis using True 1 by (simp add: split_beta Let_def)
  next
    case False
    then have "r \<in> set rs" "RN_id q \<noteq> RN_id r" using Cons.prems by auto
    moreover from this have "notify_view (RN_id r) dm1 = notify_view (RN_id r) dm" using run_sensor_view [OF _ _ 1] Cons.prems by simp
    ultimately show ?thesis using Cons.IH [of dm1] Cons.prems 1 by (simp add: split_beta Let_def)
  qed
qed simp

text \<open>
  Claim C17. End to end, an exhausted budget is announced in the round that sees it: if a sensor's value has reached its ceiling (with a
  critical ratio of at most 1), it is not registered as critical, no alert of it fires, it is not in backoff and the notifier would
  take its card, then after the round it is registered as critical and a message went out, whatever the other sensors do.
\<close>

theorem runOnePoll_announces:
  assumes "list_all runner_ok (DM_sensors dm)" "distinct (map RN_id (DM_sensors dm))" "r \<in> set (DM_sensors dm)"
    "due_exhausted a (env (RN_id r)) r (notify_view (RN_id r) dm)" "runOnePoll a env dm = (acts, dm')"
  shows "registered (NS_dedupe (DM_notify dm')) (RN_id r) = ''critical'' \<and> list_ex accepted acts"
proof -
  obtain rs acts' dm2 where 2: "run_sensors a env (DM_sensors dm) dm = (rs, acts', dm2)" by (metis prod_cases3)
  then have "acts = acts'" "DM_notify dm' = DM_notify dm2" using assms(5) by (auto simp: runOnePoll_def)
  then show ?thesis using run_sensors_exhausted [where env = env, OF assms(1-4)] 2 by (simp add: notify_view_def registered_def map_get_def)
qed

definition full_env :: poll_env where
  "full_env = \<lparr>PE_src = src0 100 100, PE_now = 0, PE_wall = 0, PE_notify = ok_env\<rparr>"

theorem runOnePoll_announces_witness:
  "\<exists>acts dm'. runOnePoll AMD64 (\<lambda>_. full_env) (fresh_daemon [cap_runner def0 (sen0 (Fin 0))]) = (acts, dm')
     \<and> registered (NS_dedupe (DM_notify dm')) ''disk'' = ''critical'' \<and> list_ex accepted acts"
proof -
  let ?r = "cap_runner def0 (sen0 (Fin 0))"
  obtain f s' where p: "Poll AMD64 (src0 100 100) 0 (sen0 (Fin 0)) = (Inr f, s')" "F_Ceiling f = Fin 100" "F_Value f = Fin 100"
    using Poll_src0 [of 100 "sen0 (Fin 0)" AMD64 100 0] by (auto simp: sen0_def)
  obtain acts dm' where run: "runOnePoll AMD64 (\<lambda>_. full_env) (fresh_daemon [?r]) = (acts, dm')" by force
  have "due_exhausted AMD64 full_env ?r (notify_view (RN_id ?r) (fresh_daemon [?r]))"
    using p by (simp add: due_exhausted_def poll_sensor_def cap_runner_def full_env_def poller_th_def sen0_def def0_def Resolve_def
      effective_def DefaultThresholds_def [symmetric] notify_view_def fresh_daemon_def is_firing_def ok_env_def Let_def) (simp add: DefaultThresholds_def rnd_19_20)
  then have "registered (NS_dedupe (DM_notify dm')) (RN_id ?r) = ''critical'' \<and> list_ex accepted acts"
    using runOnePoll_announces [OF _ _ _ _ run, of ?r] by (simp add: fresh_daemon_def runner_ok_def poller_id_def cap_runner_def sen0_def)
  then show ?thesis using run by (auto simp: cap_runner_def def0_def)
qed

definition long_series :: source where
  "long_series = \<lparr>InstantQuery = \<lambda>q t. Inr [], RangeQuery = \<lambda>q s e step. Inr [\<lparr>r_labels = Map.empty,
     r_samples = map (\<lambda>i. \<lparr>s_time = s + int i * step, s_value = Fin (of_nat i / 2 ^ 20)\<rparr>) [0..<4000]\<rparr>]\<rparr>"

definition slo1 :: specSLO where
  "slo1 = slo35\<lparr>X_WindowDays := 1\<rparr>"

lemma slo_one_view_witness:
  "\<exists>f. slo_poll AMD64 long_series 0 slo1 = Inr f \<and> EtaAggressive f = EtaConservative f"
proof -
  have "rnd 25 = Fin 25" "rnd (1 / 4) = Fin (1 / 4)" using rnd_of_int [of 25] by (simp_all add: rnd_eval)
  then have "budgetRatio slo1 = Fin (1 / 4)" by (simp add: budgetRatio_def slo1_def slo35_def)
  then obtain f where f: "slo_poll AMD64 long_series 0 slo1 = Inr f"
    by (atomize_elim, auto simp: slo_poll_def Let_def long_series_def slo_series_def slo_value_def short_series_def samples_of_def slo_input_def
        validate_default slo1_def slo35_def intro!: Evaluate_ok split: option.splits if_splits)
  have w: "slo_step (slo_window AMD64 slo1) = minute"
    using slo_step_days [of 1] by (simp add: slo_window_def slo1_def slo35_def Parse_days)
  have "MinSamples AMD64 (60 * minute) minute = 83 * 60 div 100" "MinSamples AMD64 (4320 * minute) minute = 83 * 4320 div 100"
    by (rule MinSamples_whole, simp, simp, simp)+
  then have "EtaAggressive f = EtaConservative f"
    using slo_one_view [OF f] w by (simp add: long_series_def slo_series_def)
  then show ?thesis using f by blast
qed

end
