(* ===== verification/Cost.thy ===== *)
theory Cost
  imports Waste GoFormat
begin

text \<open>
  \<^verbatim>\<open>internal/cost\<close>: rates, month-end and year projections (\<^verbatim>\<open>cost.go\<close>), the estimate from usage and prices
  (\<^verbatim>\<open>estimate.go\<close>), and the weekly growth report (\<^verbatim>\<open>weekly.go\<close>); the daily spends of \<^verbatim>\<open>internal/billing/source.go\<close>.

  Main results: what \<^verbatim>\<open>daysInMonth\<close> computes on every day of the calendar (\<open>daysInMonth_spec\<close>), when a year's week key
  repeats (\<open>ISOWeekKey_spec\<close>), which services the growth report lists (\<open>WeeklyTopGrowth_spec\<close>), and that an estimate
  survives failing price queries (\<open>EstimateSpend_spec\<close>).
\<close>

record daily_spend =
  DS_Date :: time
  DS_Cost :: f64
  DS_Service :: string

definition fsum :: "f64 list \<Rightarrow> f64" where
  "fsum xs = foldl fadd (Fin 0) xs"

record rates =
  Recent :: f64
  Mtd :: f64

definition EstimateRates :: "f64 \<Rightarrow> int \<Rightarrow> daily_spend list \<Rightarrow> rates" where
  "EstimateRates mtdTotal daysElapsed last7Days =
     \<lparr>Recent = (if last7Days = [] then Fin 0 else fdiv (fsum (map DS_Cost last7Days)) (of_i64 (int (length last7Days)))),
      Mtd = (if daysElapsed > 0 then fdiv mtdTotal (of_i64 daysElapsed) else Fin 0)\<rparr>"

definition daysInMonth :: "arch \<Rightarrow> time \<Rightarrow> int" where
  "daysInMonth a t =
     (let nxt = AddDate t 0 1 0; firstOfNext = date_time (Year nxt) (Month nxt) 1
      in to_i64 a (fdiv (dur_Hours (time_Sub firstOfNext (date_time (Year t) (Month t) 1))) (Fin 24)))"

record eom_projection =
  Aggressive :: f64
  Conservative :: f64

definition ProjectEOM :: "arch \<Rightarrow> f64 \<Rightarrow> time \<Rightarrow> rates \<Rightarrow> eom_projection" where
  "ProjectEOM a mtdTotal now r =
     (let remaining = fsub (of_i64 (daysInMonth a now)) (of_i64 (Day now));
          remaining = (if flt remaining (Fin 0) then Fin 0 else remaining)
      in \<lparr>Aggressive = fadd mtdTotal (fmul (Recent r) remaining), Conservative = fadd mtdTotal (fmul (Mtd r) remaining)\<rparr>)"

definition BudgetETA :: "f64 \<Rightarrow> f64 \<Rightarrow> f64 \<Rightarrow> f64 option" where
  "BudgetETA mtdTotal budget dailyRate =
     (if fle dailyRate (rnd (1 / 1000000)) then None
      else let remaining = fsub budget mtdTotal in
        if fle remaining (Fin 0) then Some (Fin 0) else Some (fmul (fdiv remaining dailyRate) (Fin 86400)))"

definition DetectSpike :: "f64 \<Rightarrow> f64 \<Rightarrow> bool" where
  "DetectSpike todayCost dailyBudgetAvg \<longleftrightarrow> flt (Fin 0) dailyBudgetAvg \<and> flt (fmul dailyBudgetAvg (Fin 2)) todayCost"

record month_point =
  MP_Month :: int
  MP_Value :: f64
  MP_Actual :: bool

text \<open>The months in order, up to the current one; a month without an actual value gives no point.\<close>

definition year_point :: "arch \<Rightarrow> time \<Rightarrow> (int \<rightharpoonup> f64) \<Rightarrow> int \<Rightarrow> f64 \<Rightarrow> f64 \<Rightarrow> int \<Rightarrow> month_point list" where
  "year_point a now monthlyActual currentMonth currentMTD recentRate m =
     (case (if m < currentMonth then monthlyActual m else None) of
        Some v \<Rightarrow> [\<lparr>MP_Month = m, MP_Value = v, MP_Actual = True\<rparr>]
      | None \<Rightarrow>
          if m = currentMonth
          then [\<lparr>MP_Month = m, MP_Value = Conservative (ProjectEOM a currentMTD now \<lparr>Recent = recentRate, Mtd = recentRate\<rparr>), MP_Actual = False\<rparr>]
          else [])"

definition ProjectYear :: "arch \<Rightarrow> time \<Rightarrow> (int \<rightharpoonup> f64) \<Rightarrow> int \<Rightarrow> f64 \<Rightarrow> f64 \<Rightarrow> month_point list \<times> f64" where
  "ProjectYear a now monthlyActual currentMonth currentMTD recentRate =
     (let out = concat (map (year_point a now monthlyActual currentMonth currentMTD recentRate)
                  (takeWhile (\<lambda>m. m \<le> currentMonth) [1, 2, 3, 4, 5, 6, 7, 8, 9, 10, 11, 12]))
      in (out, fsum (map MP_Value out)))"

subsection \<open>The length of a month\<close>

definition next_month :: "int \<Rightarrow> int \<Rightarrow> int \<times> int" where
  "next_month y m = (if m = 12 then (y + 1, 1) else (y, m + 1))"

lemma next_month_range: "1 \<le> m \<Longrightarrow> m \<le> 12 \<Longrightarrow> next_month y m = (y', m') \<Longrightarrow> 1 \<le> m' \<and> m' \<le> 12"
  by (auto simp: next_month_def split: if_splits)

lemma days_of_civil_valid: "1 \<le> m \<Longrightarrow> m \<le> 12 \<Longrightarrow> days_of_civil y m d = days_to_year y + days_before y m + d - 1"
  by (simp add: days_of_civil_def Let_def)

lemma days_of_civil_next:
  assumes "1 \<le> m" "m \<le> 12" "next_month y m = (y', m')"
  shows "days_of_civil y (m + 1) d = days_of_civil y' m' d" "days_of_civil y' m' d = days_of_civil y m (month_len y m + d)"
proof -
  show "days_of_civil y (m + 1) d = days_of_civil y' m' d"
    using assms by (auto simp: next_month_def days_of_civil_def Let_def split: if_splits)
  show "days_of_civil y' m' d = days_of_civil y m (month_len y m + d)"
  proof (cases "m = 12")
    case True
    then show ?thesis using assms
      by (auto simp: next_month_def days_of_civil_valid days_to_year_Suc year_len_def month_len_def days_before_def)
  next
    case False
    then show ?thesis using assms days_before_Suc [of m y] by (auto simp: next_month_def days_of_civil_valid)
  qed
qed

lemma civil_same_day: "0 \<le> r \<Longrightarrow> r < day24 \<Longrightarrow> Year (date_time y m d + r) = Year (date_time y m d) \<and> Month (date_time y m d + r) = Month (date_time y m d)"
  using day_number_date_time [of r y m d] day_number_date_time [of 0 y m d] by (simp add: Year_def Month_def civil_def)

lemma date_time_next:
  assumes "1 \<le> m" "m \<le> 12" "next_month y m = (y', m')"
  shows "date_time y (m + 1) d = date_time y' m' d" "date_time y' m' d = date_time y m (month_len y m + d)"
  using days_of_civil_next [OF assms] by (simp_all add: date_time_def)

definition next_len :: "time \<Rightarrow> int" where
  "next_len t = (let (y', m') = next_month (Year t) (Month t) in month_len y' m')"

lemma daysInMonth_float:
  "0 \<le> k \<Longrightarrow> k \<le> 1000 \<Longrightarrow> date_time y' m' 1 - date_time y m 1 = k * day24 \<Longrightarrow>
   to_i64 a (fdiv (dur_Hours (time_Sub (date_time y' m' 1) (date_time y m 1))) (Fin 24)) = k"
proof -
  assume k: "0 \<le> k" "k \<le> 1000" and d: "date_time y' m' 1 - date_time y m 1 = k * day24"
  have "time_Sub (date_time y' m' 1) (date_time y m 1) = (24 * k) * hour"
    using d k by (simp add: time_Sub_def)
  then have "dur_Hours (time_Sub (date_time y' m' 1) (date_time y m 1)) = Fin (of_int (24 * k))"
    using k dur_Hours_whole [of "24 * k"] by simp
  then have "fdiv (dur_Hours (time_Sub (date_time y' m' 1) (date_time y m 1))) (Fin 24) = rnd (of_int k)" by simp
  also have "\<dots> = Fin (of_int k)" using k by (intro rnd_of_int) simp
  finally show ?thesis using k to_i64_of_int [of k a] by (simp add: i64_def)
qed

text \<open>
  The day count of the month is right unless the day of the month does not exist in the next month: then adding a month runs over
  into the month after, and the next month's length is counted too (59 or 60 days on 29 to 31 January, 61 on 31 March, May,
  August and October), which inflates every projection made on these days.
\<close>

lemma daysInMonth_spec:
  "daysInMonth a t = month_len (Year t) (Month t) + (if next_len t < Day t then next_len t else 0)"
proof -
  obtain y m d where t: "Year t = y" "Month t = m" "Day t = d" by simp
  have v: "1 \<le> m" "m \<le> 12" "1 \<le> d" "d \<le> month_len y m" using civil_valid [of t] t by auto
  obtain y1 m1 where n1: "next_month y m = (y1, m1)" by force
  obtain y2 m2 where n2: "next_month y1 m1 = (y2, m2)" by force
  have v1: "1 \<le> m1" "m1 \<le> 12" using next_month_range [OF v(1,2) n1] by auto
  have v2: "1 \<le> m2" "m2 \<le> 12" using next_month_range [OF v1 n2] by auto
  have len: "next_len t = month_len y1 m1" by (simp add: next_len_def t n1)
  have nxt: "AddDate t 0 1 0 = date_time y1 m1 d + t mod day24"
    using date_time_next(1) [OF v(1,2) n1, of d] by (simp add: AddDate_def t)
  have dm: "daysInMonth a t = to_i64 a (fdiv (dur_Hours (time_Sub (date_time (Year (AddDate t 0 1 0)) (Month (AddDate t 0 1 0)) 1) (date_time y m 1))) (Fin 24))"
    by (simp only: daysInMonth_def Let_def t)
  have rest: "0 \<le> t mod day24" "t mod day24 < day24" by simp_all
  have L: "28 \<le> month_len y m" "month_len y m \<le> 31" "28 \<le> month_len y1 m1" "month_len y1 m1 \<le> 31"
    using month_len_bounds by auto
  have s1: "date_time y1 m1 1 - date_time y m 1 = month_len y m * day24"
    using days_of_civil_next(2) [OF v(1,2) n1, of 1] v by (simp add: date_time_def days_of_civil_valid algebra_simps)
  have s2: "date_time y2 m2 1 - date_time y1 m1 1 = month_len y1 m1 * day24"
    using days_of_civil_next(2) [OF v1 n2, of 1] v1 by (simp add: date_time_def days_of_civil_valid algebra_simps)
  show ?thesis
  proof (cases "month_len y1 m1 < d")
    case False
    then have "Year (AddDate t 0 1 0) = y1" "Month (AddDate t 0 1 0) = m1"
      using civil_same_day [OF rest, of y1 m1 d] civil_date_time [OF v1 v(3)] by (auto simp: nxt)
    then have "daysInMonth a t = month_len y m" unfolding dm using daysInMonth_float [OF _ _ s1, of a] L(1,2) by simp
    then show ?thesis using False by (simp add: t len)
  next
    case True
    have d2: "1 \<le> d - month_len y1 m1" "d - month_len y1 m1 \<le> month_len y2 m2"
      using True v(4) L month_len_bounds(1) [of y2 m2] by auto
    have "date_time y1 m1 d = date_time y2 m2 (d - month_len y1 m1)"
      using date_time_next(2) [OF v1 n2, of "d - month_len y1 m1"] by simp
    then have YM: "Year (AddDate t 0 1 0) = y2" "Month (AddDate t 0 1 0) = m2"
      using civil_same_day [OF rest, of y2 m2 "d - month_len y1 m1"] civil_date_time [OF v2 d2] by (auto simp: nxt)
    have D: "date_time y2 m2 1 - date_time y m 1 = (month_len y m + month_len y1 m1) * day24"
      using s1 s2 by (simp add: algebra_simps)
    have "daysInMonth a t = month_len y m + month_len y1 m1"
      unfolding dm YM by (rule daysInMonth_float [OF _ _ D]) (use L in linarith)+
    then show ?thesis using True by (simp add: t len)
  qed
qed

subsection \<open>Estimates from usage and prices\<close>

record usage_template =
  U_Sensor :: string
  U_Service :: string
  U_Family :: string
  U_Attrs :: attrs

definition LoadCostMap :: "filesys \<Rightarrow> (string \<Rightarrow> usage_template list res) \<Rightarrow> string \<Rightarrow> usage_template list res" where
  "LoadCostMap fs unmarshal path =
     (if Stat fs path = NotExist then Inr []
      else res_bind (ReadFile fs path) (\<lambda>raw. res_bind (unmarshal raw) (\<lambda>out.
        if list_ex (\<lambda>t. U_Sensor t = [] \<or> U_Family t = []) out then Inl (Err ''cost_map'') else Inr out)))"

record estimated_line =
  EL_Service :: string
  EL_Sensor :: string
  EL_Quantity :: f64
  EL_UnitPrice :: f64
  EL_Currency :: string
  EL_Unit :: string
  EL_Cost :: f64
  EL_Stale :: bool
  EL_Err :: string

record estimate_result =
  ER_Lines :: "estimated_line list"
  ER_Total :: f64
  ER_Currency :: string
  ER_Stale :: bool

definition blank_line :: "usage_template \<times> f64 \<Rightarrow> estimated_line" where
  "blank_line = (\<lambda>(tpl, n). \<lparr>EL_Service = (if U_Service tpl = [] then U_Sensor tpl else U_Service tpl), EL_Sensor = U_Sensor tpl,
     EL_Quantity = n, EL_UnitPrice = Fin 0, EL_Currency = [], EL_Unit = [], EL_Cost = Fin 0, EL_Stale = False, EL_Err = []\<rparr>)"

definition merge_currency :: "string \<Rightarrow> string \<Rightarrow> string" where
  "merge_currency cur c = (if cur = [] then c else if cur \<noteq> c \<and> cur \<noteq> ''mixed'' then ''mixed'' else cur)"

definition estimate_line :: "usage_template \<times> f64 \<Rightarrow> quote res \<Rightarrow> estimate_result \<Rightarrow> estimate_result" where
  "estimate_line u r est =
     (let row = blank_line u in
      case r of
        Inl e \<Rightarrow> est\<lparr>ER_Lines := ER_Lines est @ [row\<lparr>EL_Err := err_text e\<rparr>]\<rparr>
      | Inr q \<Rightarrow>
          let cost = fmul (snd u) (UnitPrice q);
              row = row\<lparr>EL_UnitPrice := UnitPrice q, EL_Currency := Currency q, EL_Unit := Unit q, EL_Cost := cost, EL_Stale := Stale q\<rparr>
          in \<lparr>ER_Lines = ER_Lines est @ [row], ER_Total = fadd (ER_Total est) cost,
              ER_Currency = merge_currency (ER_Currency est) (Currency q), ER_Stale = ER_Stale est \<or> Stale q\<rparr>)"

fun estimate_lines :: "'s pricer \<Rightarrow> (usage_template \<times> f64) list \<Rightarrow> estimate_result \<Rightarrow> 's \<Rightarrow> 's \<times> estimate_result res" where
  "estimate_lines quote [] est s = (s, Inr est)"
| "estimate_lines quote (u # us) est s =
     (case quote (U_Family (fst u)) (U_Attrs (fst u)) s of
        (s', Inl Panic) \<Rightarrow> (s', Inl Panic)
      | (s', r) \<Rightarrow> estimate_lines quote us (estimate_line u r est) s')"

definition EstimateSpend :: "'s pricer \<Rightarrow> (usage_template \<times> f64) list \<Rightarrow> 's \<Rightarrow> 's \<times> estimate_result res" where
  "EstimateSpend quote us s = estimate_lines quote us \<lparr>ER_Lines = [], ER_Total = Fin 0, ER_Currency = [], ER_Stale = False\<rparr> s"

record actual_vs_estimate =
  AE_Actual :: f64
  AE_Estimate :: f64
  AE_Delta :: f64
  AE_DeltaPct :: "f64 option"

definition CompareActualVsEstimate :: "f64 \<Rightarrow> estimate_result option \<Rightarrow> actual_vs_estimate" where
  "CompareActualVsEstimate actualMTD est =
     (let e = (case est of None \<Rightarrow> Fin 0 | Some x \<Rightarrow> ER_Total x); d = fsub actualMTD e
      in \<lparr>AE_Actual = actualMTD, AE_Estimate = e, AE_Delta = d,
          AE_DeltaPct = (if flt (rnd (1 / 1000000000)) e then Some (fmul (fdiv d e) (Fin 100)) else None)\<rparr>)"

text \<open>The consistency of a report: one line per input, in order, and the total is the sum of its lines.\<close>

definition report_ok :: "(usage_template \<times> f64) list \<Rightarrow> estimate_result \<Rightarrow> bool" where
  "report_ok us est \<longleftrightarrow>
     map (\<lambda>l. (EL_Sensor l, EL_Quantity l)) (ER_Lines est) = map (\<lambda>(tpl, n). (U_Sensor tpl, n)) us
     \<and> ER_Total est = fsum (map EL_Cost (ER_Lines est))
     \<and> (ER_Stale est \<longleftrightarrow> list_ex EL_Stale (ER_Lines est))"


lemma f64_ok_fsum [simp]: "f64_ok (fsum xs)"
proof -
  have "f64_ok s \<Longrightarrow> f64_ok (foldl fadd s xs)" for s by (induction xs arbitrary: s) (auto intro: f64_ok_ops)
  then show ?thesis by (simp add: fsum_def)
qed

lemma fsum_append: "fsum (xs @ [x]) = fadd (fsum xs) x"
  by (simp add: fsum_def)

lemma fadd_zero: "f64_ok x \<Longrightarrow> fadd x (Fin 0) = x"
  by (cases x) (auto simp: fadd_def rnd_rep)

lemma report_ok_line: "report_ok us est \<Longrightarrow> report_ok (us @ [u]) (estimate_line u r est)"
  by (cases u, cases r) (auto simp: report_ok_def estimate_line_def blank_line_def Let_def fsum_append fadd_zero)

context safe_pricer
begin

lemma estimate_lines_ok:
  "report_ok done_us est \<Longrightarrow> \<exists>s' est'. estimate_lines quote us est s = (s', Inr est') \<and> report_ok (done_us @ us) est'"
proof (induction us arbitrary: done_us est s)
  case (Cons u us)
  obtain s1 r where q: "quote (U_Family (fst u)) (U_Attrs (fst u)) s = (s1, r)" "r \<noteq> Inl Panic"
    by (rule quote_cases [of "U_Family (fst u)" "U_Attrs (fst u)" s]) auto
  have "report_ok (done_us @ [u]) (estimate_line u r est)" using Cons.prems by (rule report_ok_line)
  from Cons.IH [OF this, of s1] obtain s' est' where
    e: "estimate_lines quote us (estimate_line u r est) s1 = (s', Inr est')" "report_ok (done_us @ u # us) est'" by auto
  have "estimate_lines quote (u # us) est s = estimate_lines quote us (estimate_line u r est) s1"
    using q by (auto split: sum.splits gerr.splits)
  then show ?case using e by simp
qed simp

end

text \<open>
  The estimate over the price catalog always gives a whole report: one line per usage, in order and with its quantity, a failed
  price query showing as a line with its error and no cost; the total is the sum of the lines and the report is marked stale
  just when a line is.
\<close>

lemma EstimateSpend_spec:
  "\<exists>s' est. EstimateSpend (catalog_pricer h cd net pc now ord) us s = (s', Inr est) \<and> report_ok us est"
  using priced_scan.estimate_lines_ok [of "[]" "\<lparr>ER_Lines = [], ER_Total = Fin 0, ER_Currency = [], ER_Stale = False\<rparr>" h cd net pc now ord us s]
  by (simp add: EstimateSpend_def report_ok_def fsum_def)

subsection \<open>Weekly growth\<close>

record growth_row =
  G_Service :: string
  G_Recent :: f64
  G_Previous :: f64
  G_Growth :: f64
  G_Cause :: string

definition dailyByService :: "daily_spend list \<Rightarrow> string \<rightharpoonup> f64" where
  "dailyByService spends svc =
     (let cs = map DS_Cost (filter (\<lambda>s. DS_Service s = svc) spends)
      in if cs = [] then None else Some (fdiv (fsum cs) (of_i64 (int (length cs)))))"

text \<open>\<^verbatim>\<open>strings.Fields\<close>, and \<^verbatim>\<open>%.4g\<close> as the parameter \<open>g4\<close>; letters are lowered in ASCII only.\<close>

fun Fields_acc :: "string \<Rightarrow> string \<Rightarrow> string list" where
  "Fields_acc [] cur = (if cur = [] then [] else [cur])"
| "Fields_acc (c # cs) cur =
     (if is_space c then (if cur = [] then [] else [cur]) @ Fields_acc cs [] else Fields_acc cs (cur @ [c]))"

definition related :: "string \<Rightarrow> string \<Rightarrow> bool" where
  "related service i \<longleftrightarrow>
     (let s = lower service; j = lower i in
      j \<noteq> [] \<and> s \<noteq> [] \<and> (Contains s j \<or> list_ex (\<lambda>w. 3 \<le> length w \<and> Contains j w) (Fields_acc s [])))"

definition guessCause :: "(f64 \<Rightarrow> string) \<Rightarrow> string \<Rightarrow> (string \<times> f64) list \<Rightarrow> string" where
  "guessCause g4 service capTrend =
     (let rs = map (\<lambda>(i, d). i @ utf8 [239, 188, 136, 43] @ g4 d @ utf8 [47, 55, 100, 239, 188, 137]) (filter (\<lambda>(i, d). \<not> fle d (Fin 0) \<and> related service i) capTrend)
      in if rs \<noteq> [] then utf8 [231, 150, 145, 228, 188, 188, 229, 176, 141, 230, 135, 137, 229, 174, 185, 233, 135, 143, 230, 147, 180, 229, 174, 185, 239, 188, 154] @ join (utf8 [227, 128, 129]) (sort rs) else utf8 [230, 136, 144, 233, 149, 183, 228, 190, 134, 230, 186, 144, 230, 156, 170, 229, 176, 141, 230, 135, 137, 229, 136, 176, 228, 187, 187, 228, 189, 149, 230, 147, 180, 229, 174, 185, 228, 184, 173, 231, 154, 132, 229, 174, 185, 233, 135, 143, 230, 132, 159, 230, 184, 172, 239, 188, 136, 233, 156, 128, 228, 186, 186, 229, 183, 165, 231, 162, 186, 232, 170, 141, 239, 188, 154, 230, 150, 176, 230, 156, 141, 229, 139, 153, 228, 184, 138, 231, 183, 154, 239, 188, 159, 230, 181, 129, 233, 135, 143, 231, 149, 176, 229, 184, 184, 239, 188, 159, 239, 188, 137])"

definition growth_rows :: "(f64 \<Rightarrow> string) \<Rightarrow> daily_spend list \<Rightarrow> daily_spend list \<Rightarrow> (string \<times> f64) list \<Rightarrow> string list \<Rightarrow> growth_row list" where
  "growth_rows g4 thisWeek prevWeek capTrend svcs =
     concat (map (\<lambda>svc.
        let r = (case dailyByService thisWeek svc of None \<Rightarrow> Fin 0 | Some x \<Rightarrow> x);
            p = (case dailyByService prevWeek svc of None \<Rightarrow> Fin 0 | Some x \<Rightarrow> x); g = fsub r p
        in if fle g (rnd (1 / 1000000000)) then []
           else [\<lparr>G_Service = svc, G_Recent = r, G_Previous = p, G_Growth = g, G_Cause = guessCause g4 svc capTrend\<rparr>]) svcs)"

text \<open>
  \<open>svcs\<close> are the services of this week in the order of the map iteration; \<open>srt\<close> is \<^verbatim>\<open>sort.Slice\<close> by falling growth, which
  fixes the order of rows with equal growth in no particular way.
\<close>

definition slice_sorter :: "(growth_row list \<Rightarrow> growth_row list) \<Rightarrow> bool" where
  "slice_sorter srt \<longleftrightarrow> (\<forall>xs. mset (srt xs) = mset xs \<and>
     (list_all (\<lambda>r. G_Growth r \<noteq> NaN) xs \<longrightarrow> sorted_wrt (\<lambda>a b. fle (G_Growth b) (G_Growth a)) (srt xs)))"

definition WeeklyTopGrowth :: "(growth_row list \<Rightarrow> growth_row list) \<Rightarrow> (f64 \<Rightarrow> string) \<Rightarrow> daily_spend list \<Rightarrow> daily_spend list
    \<Rightarrow> (string \<times> f64) list \<Rightarrow> string list \<Rightarrow> int \<Rightarrow> growth_row list" where
  "WeeklyTopGrowth srt g4 thisWeek prevWeek capTrend svcs topN =
     take (nat (if topN \<le> 0 then 5 else topN)) (srt (growth_rows g4 thisWeek prevWeek capTrend svcs))"

text \<open>
  The growth report lists at most the requested number of services (five by default) whose daily average has grown, by falling
  growth; no service left out has grown more than one that is listed.
\<close>

lemma WeeklyTopGrowth_spec:
  assumes "slice_sorter srt" "list_all (\<lambda>r. G_Growth r \<noteq> NaN) (growth_rows g4 tw pw ct svcs)"
  shows "\<exists>rest. mset (growth_rows g4 tw pw ct svcs) = mset (WeeklyTopGrowth srt g4 tw pw ct svcs n) + mset rest
    \<and> int (length (WeeklyTopGrowth srt g4 tw pw ct svcs n)) = min (if n \<le> 0 then 5 else n) (int (length (growth_rows g4 tw pw ct svcs)))
    \<and> sorted_wrt (\<lambda>a b. fle (G_Growth b) (G_Growth a)) (WeeklyTopGrowth srt g4 tw pw ct svcs n @ rest)"
proof -
  let ?rows = "growth_rows g4 tw pw ct svcs" and ?k = "nat (if n \<le> 0 then 5 else n)"
  have s: "mset (srt ?rows) = mset ?rows" "sorted_wrt (\<lambda>a b. fle (G_Growth b) (G_Growth a)) (srt ?rows)"
    using assms by (auto simp: slice_sorter_def)
  have "length (srt ?rows) = length ?rows" using s(1) by (metis size_mset)
  then show ?thesis
    using s by (intro exI [of _ "drop ?k (srt ?rows)"]) (auto simp: WeeklyTopGrowth_def simp flip: mset_append)
qed

definition spend :: "string \<Rightarrow> rat \<Rightarrow> daily_spend" where
  "spend svc x = \<lparr>DS_Date = 0, DS_Cost = Fin x, DS_Service = svc\<rparr>"

lemma sort_slice_sorter: "slice_sorter (\<lambda>xs. rev (sort_key G_Growth xs))"
proof -
  have "sorted_wrt (\<lambda>a b. fle (G_Growth b) (G_Growth a)) (rev (sort_key G_Growth xs))" if "\<forall>r \<in> set xs. G_Growth r \<noteq> NaN" for xs :: "growth_row list"
  proof -
    have "sorted_wrt (\<lambda>a b. G_Growth a \<le> G_Growth b) (sort_key G_Growth xs)" by (simp flip: sorted_wrt_map)
    then show ?thesis unfolding sorted_wrt_rev using that
      by (rule_tac sorted_wrt_mono_rel) (auto simp: fle_def)
  qed
  then show ?thesis unfolding slice_sorter_def list_all_iff by simp
qed

lemma WeeklyTopGrowth_spec_witness:
  "\<exists>rest. mset (growth_rows (\<lambda>_. []) [spend ''a'' 3, spend ''b'' 9] [spend ''a'' 1] [] [''a'', ''b''])
     = mset (WeeklyTopGrowth (\<lambda>xs. rev (sort_key G_Growth xs)) (\<lambda>_. []) [spend ''a'' 3, spend ''b'' 9] [spend ''a'' 1] [] [''a'', ''b''] 1) + mset rest
     \<and> length (WeeklyTopGrowth (\<lambda>xs. rev (sort_key G_Growth xs)) (\<lambda>_. []) [spend ''a'' 3, spend ''b'' 9] [spend ''a'' 1] [] [''a'', ''b''] 1) = 1"
proof -
  have "Fin 0 \<le> rnd (1 / 1000000000) \<and> rnd (1 / 1000000000) \<le> Fin 1"
    using rnd_mono [of "1 / 1000000000" 1] rnd_nonneg [of "1 / 1000000000"] by simp
  then obtain q where small: "rnd (1 / 1000000000) = Fin q" "q \<le> 1" by (metis Fin_between)
  have g: "list_all (\<lambda>r. G_Growth r \<noteq> NaN) (growth_rows (\<lambda>_. []) [spend ''a'' 3, spend ''b'' 9] [spend ''a'' 1] [] [''a'', ''b''])"
    "length (growth_rows (\<lambda>_. []) [spend ''a'' 3, spend ''b'' 9] [spend ''a'' 1] [] [''a'', ''b'']) = 2"
    using small by (auto simp: growth_rows_def dailyByService_def spend_def fsum_def of_i64_def fle_def Let_def)
  show ?thesis using WeeklyTopGrowth_spec [OF sort_slice_sorter g(1), of 1] g(2) by auto
qed

definition ISOWeekKey :: "time \<Rightarrow> string" where
  "ISOWeekKey t = (let (y, w) = ISOWeek t in pad 4 (nat y) @ ''-W'' @ pad 2 (nat w))"

definition money :: "f64 \<Rightarrow> string" where
  "money x = ''$'' @ fmt_fixed 2 x"

definition eom_line :: "eom_projection \<Rightarrow> string" where
  "eom_line e = utf8 [240, 159, 146, 176, 32, 230, 156, 136, 229, 186, 149, 230, 142, 168, 228, 188, 176, 239, 188, 154] @ money (Conservative e) @ utf8 [239, 188, 136, 231, 136, 134, 233, 135, 143, 230, 131, 133, 229, 162, 131, 32] @ money (Aggressive e) @ utf8 [239, 188, 137]"

definition confirmed_line :: "time \<Rightarrow> string" where
  "confirmed_line t = utf8 [239, 188, 136, 229, 184, 179, 229, 139, 153, 232, 179, 135, 230, 150, 153, 230, 136, 170, 232, 135, 179, 32] @ fmt_date t @ utf8 [226, 128, 148, 226, 128, 148, 233, 155, 178, 231, 171, 175, 231, 162, 186, 232, 170, 141, 230, 156, 137, 229, 187, 182, 233, 129, 178, 239, 188, 137]"

definition humanDays :: "f64 \<Rightarrow> string" where
  "humanDays seconds =
     (let days = fdiv seconds (Fin 86400)
      in if flt days (Fin 1) then fmt_fixed 1 (fmul days (Fin 24)) @ utf8 [32, 229, 176, 143, 230, 153, 130, 229, 133, 167] else fmt_fixed 1 days @ utf8 [32, 229, 164, 169])"

definition FormatReport :: "eom_projection \<Rightarrow> f64 option \<Rightarrow> time \<Rightarrow> string" where
  "FormatReport eom eta confirmed =
     eom_line eom @ (case eta of None \<Rightarrow> [] | Some s \<Rightarrow> [CHR 0x0A] @ utf8 [231, 133, 167, 231, 155, 174, 229, 137, 141, 233, 128, 159, 229, 186, 166, 239, 188, 140, 233, 160, 144, 231, 174, 151, 32] @ humanDays s @ utf8 [32, 229, 190, 140, 231, 135, 146, 231, 169, 191])
     @ [CHR 0x0A] @ confirmed_line confirmed"

definition growth_line :: "growth_row \<Rightarrow> string" where
  "growth_line r = utf8 [226, 128, 162, 32] @ G_Service r @ utf8 [239, 188, 154, 230, 151, 165, 229, 157, 135, 32] @ money (G_Previous r) @ utf8 [32, 226, 134, 146, 32] @ money (G_Recent r) @ utf8 [239, 188, 136] @ ''+'' @ money (G_Growth r) @ utf8 [47, 229, 164, 169, 239, 188, 137]
     @ [CHR 0x0A] @ ''  '' @ G_Cause r @ [CHR 0x0A]"

definition FormatWeeklySummary :: "growth_row list \<Rightarrow> eom_projection \<Rightarrow> time \<Rightarrow> string" where
  "FormatWeeklySummary rows eom confirmed =
     utf8 [240, 159, 147, 138, 32, 230, 175, 143, 233, 128, 177, 230, 136, 144, 230, 156, 172, 230, 145, 152, 232, 166, 129] @ [CHR 0x0A] @ concat (map growth_line rows)
     @ (if rows = [] then utf8 [232, 191, 145, 229, 133, 169, 233, 128, 177, 231, 132, 161, 233, 161, 175, 232, 145, 151, 230, 136, 144, 233, 149, 183, 230, 156, 141, 229, 139, 153] @ [CHR 0x0A] else []) @ eom_line eom @ [CHR 0x0A] @ confirmed_line confirmed"

lemma digits_split: "list_all is_digit ds \<Longrightarrow> list_all is_digit es \<Longrightarrow> \<not> is_digit c \<Longrightarrow> ds @ c # xs = es @ c # ys \<Longrightarrow> ds = es \<and> xs = ys"
proof -
  assume a: "list_all is_digit ds" "list_all is_digit es" "\<not> is_digit c" "ds @ c # xs = es @ c # ys"
  have "takeWhile is_digit (ds @ c # xs) = ds" "takeWhile is_digit (es @ c # ys) = es"
    using a(1-3) by (auto simp: list_all_iff takeWhile_append2)
  then show ?thesis using a(4) by simp
qed

lemma ISOWeek_nonneg: "0 \<le> snd (ISOWeek t)"
  by (rule year_day_exists [of "thursday (day_number t)"]) (simp add: ISOWeek_def pos_imp_zdiv_nonneg_iff add_nonneg_nonneg)

lemma pad_inj: "pad w m = pad w n \<longleftrightarrow> m = n"
  by (metis digits_val_pad)

text \<open>
  The key of a week is the same for two times just when they fall into the same week from Monday to Sunday, also across
  New Year, so a summary kept under it goes out once a week.
\<close>

lemma ISOWeekKey_spec:
  assumes "0 \<le> fst (ISOWeek t)" "0 \<le> fst (ISOWeek u)"
  shows "ISOWeekKey t = ISOWeekKey u \<longleftrightarrow> (day_number t + 3) div 7 = (day_number u + 3) div 7"
proof -
  obtain y w z v where i: "ISOWeek t = (y, w)" "ISOWeek u = (z, v)" by force
  have "0 \<le> snd (ISOWeek t)" "0 \<le> snd (ISOWeek u)" by (rule ISOWeek_nonneg)+
  then have n: "0 \<le> y" "0 \<le> z" "0 \<le> w" "0 \<le> v" using assms i by auto
  have "\<not> is_digit (CHR ''-'')" by (simp add: is_digit_def less_eq_char_def)
  then have "ISOWeekKey t = ISOWeekKey u \<longleftrightarrow> y = z \<and> w = v"
    using digits_split [OF pad_digits pad_digits, of "CHR ''-''" 4 "nat y" "''W'' @ pad 2 (nat w)" 4 "nat z" "''W'' @ pad 2 (nat v)"] n
    by (auto simp: ISOWeekKey_def i pad_inj)
  then show ?thesis using ISOWeek_eq [of t u] i by simp
qed

lemma ISOWeekKey_spec_witness: "ISOWeekKey 0 = ISOWeekKey (3 * day24) \<and> ISOWeekKey 0 \<noteq> ISOWeekKey (4 * day24)"
proof -
  have "0 \<le> fst (ISOWeek 0)" "0 \<le> fst (ISOWeek (3 * day24))" "0 \<le> fst (ISOWeek (4 * day24))"
    by (simp_all add: ISOWeek_def day_number_def thursday_def year_day_def Let_def)
  from ISOWeekKey_spec [OF this(1,2)] ISOWeekKey_spec [OF this(1,3)] show ?thesis by (simp add: day_number_def)
qed

end
