(* ===== verification/Config.thy ===== *)
theory Config
  imports Files Catalog
begin

text \<open>
  \<^verbatim>\<open>config/config.go\<close>: defaults, overlay and validation of the global settings, and the environment overrides that the
  daemon applies (\<^verbatim>\<open>newDaemon\<close>, \<^verbatim>\<open>applyWasteEnvOverride\<close>, \<^verbatim>\<open>parseDigestTime\<close>). The file system and the YAML decoder are
  parameters.
\<close>

record config =
  PollIntervalSec :: int
  PrometheusURL :: string
  AlertManagerURL :: string
  TelegramToken :: string
  RulesDir :: string
  SloDefsDir :: string
  CapacityDefsDir :: string
  DBPath :: string
  ListenAddr :: string
  MetricsAddr :: string
  LogFormat :: string
  WasteScanIntervalSec :: int
  DailyDigestTime :: string
  PredictionsRetentionDays :: int

definition config_defaults :: config where
  "config_defaults =
     \<lparr>PollIntervalSec = 60, PrometheusURL = ''http://localhost:9090'', AlertManagerURL = ''http://localhost:9093'', TelegramToken = [],
      RulesDir = ''rules.d'', SloDefsDir = ''slo_defs'', CapacityDefsDir = ''capacity_defs'', DBPath = ''sentinel.db'',
      ListenAddr = ''127.0.0.1:9099'', MetricsAddr = ''127.0.0.1:9102'', LogFormat = ''json'', WasteScanIntervalSec = 6 * 3600,
      DailyDigestTime = ''09:00'', PredictionsRetentionDays = 90\<rparr>"

definition setStr :: "string \<Rightarrow> string \<Rightarrow> string" where
  "setStr dst v = (if v \<noteq> [] then v else dst)"

definition set_pos :: "int \<Rightarrow> int \<Rightarrow> int" where
  "set_pos dst v = (if v > 0 then v else dst)"

definition apply_config :: "config \<Rightarrow> config \<Rightarrow> config" where
  "apply_config b over =
     \<lparr>PollIntervalSec = set_pos (PollIntervalSec b) (PollIntervalSec over),
      PrometheusURL = setStr (PrometheusURL b) (PrometheusURL over), AlertManagerURL = setStr (AlertManagerURL b) (AlertManagerURL over),
      TelegramToken = setStr (TelegramToken b) (TelegramToken over), RulesDir = setStr (RulesDir b) (RulesDir over),
      SloDefsDir = setStr (SloDefsDir b) (SloDefsDir over), CapacityDefsDir = setStr (CapacityDefsDir b) (CapacityDefsDir over),
      DBPath = setStr (DBPath b) (DBPath over), ListenAddr = setStr (ListenAddr b) (ListenAddr over),
      MetricsAddr = setStr (MetricsAddr b) (MetricsAddr over), LogFormat = setStr (LogFormat b) (LogFormat over),
      WasteScanIntervalSec = set_pos (WasteScanIntervalSec b) (WasteScanIntervalSec over),
      DailyDigestTime = setStr (DailyDigestTime b) (DailyDigestTime over),
      PredictionsRetentionDays = set_pos (PredictionsRetentionDays b) (PredictionsRetentionDays over)\<rparr>"

text \<open>The raw document: \<open>None\<close>, the key is absent; \<open>Some None\<close>, its value is not an integer.\<close>

type_synonym raw_config = "string \<Rightarrow> int option option"

definition raw_or :: "raw_config \<Rightarrow> string \<Rightarrow> int \<Rightarrow> int" where
  "raw_or raw k old = (case raw k of Some (Some n) \<Rightarrow> if n \<ge> 0 then n else old | _ \<Rightarrow> old)"

definition overrideWasteInterval :: "raw_config \<Rightarrow> config \<Rightarrow> config" where
  "overrideWasteInterval raw cfg =
     (if raw ''waste_scan_interval_sec'' = None then cfg
      else cfg\<lparr>WasteScanIntervalSec := raw_or raw ''waste_scan_interval_sec'' (WasteScanIntervalSec cfg),
               PredictionsRetentionDays := raw_or raw ''predictions_retention_days'' (PredictionsRetentionDays cfg)\<rparr>)"

definition config_validate :: "config \<Rightarrow> unit res" where
  "config_validate c =
     (if PollIntervalSec c \<le> 0 then Inl (Err ''poll_interval_sec'')
      else if LogFormat c \<noteq> ''json'' \<and> LogFormat c \<noteq> ''text'' then Inl (Err ''log_format'')
      else if WasteScanIntervalSec c < 0 then Inl (Err ''waste_scan_interval_sec'')
      else if PredictionsRetentionDays c < 0 then Inl (Err ''predictions_retention_days'')
      else Inr ())"

definition config_Load :: "filesys \<Rightarrow> (string \<Rightarrow> (raw_config \<times> config) res) \<Rightarrow> string \<Rightarrow> config res" where
  "config_Load fs unmarshal path =
     (if path = [] \<or> Stat fs path = NotExist then Inr config_defaults
      else res_bind (ReadFile fs path) (\<lambda>b. res_bind (unmarshal b) (\<lambda>(raw, over).
        let cfg = overrideWasteInterval raw (apply_config config_defaults over)
        in res_bind (config_validate cfg) (\<lambda>_. Inr cfg))))"

definition config_ok :: "config \<Rightarrow> bool" where
  "config_ok c \<longleftrightarrow> 0 < PollIntervalSec c \<and> LogFormat c \<in> {''json'', ''text''} \<and> 0 \<le> WasteScanIntervalSec c \<and> 0 \<le> PredictionsRetentionDays c
     \<and> PrometheusURL c \<noteq> [] \<and> AlertManagerURL c \<noteq> [] \<and> RulesDir c \<noteq> [] \<and> SloDefsDir c \<noteq> [] \<and> CapacityDefsDir c \<noteq> [] \<and> DBPath c \<noteq> []
     \<and> ListenAddr c \<noteq> [] \<and> MetricsAddr c \<noteq> [] \<and> DailyDigestTime c \<noteq> []"

subsection \<open>The environment\<close>

text \<open>\<^verbatim>\<open>strconv.Atoi\<close>.\<close>

definition Atoi :: "string \<Rightarrow> int option" where
  "Atoi s =
     (let neg = (s \<noteq> [] \<and> hd s = CHR ''-''); ds = (if s \<noteq> [] \<and> (hd s = CHR ''-'' \<or> hd s = CHR ''+'') then tl s else s);
          n = (if neg then - int (digits_val ds 0) else int (digits_val ds 0))
      in if ds \<noteq> [] \<and> list_all is_digit ds \<and> i64 n then Some n else None)"

definition applyWasteEnvOverride :: "string \<Rightarrow> config \<Rightarrow> config" where
  "applyWasteEnvOverride v cfg =
     (if v = ''off'' \<or> v = ''0'' then cfg\<lparr>WasteScanIntervalSec := 0\<rparr>
      else if v \<noteq> [] then (case Atoi v of Some n \<Rightarrow> if n > 0 then cfg\<lparr>WasteScanIntervalSec := n\<rparr> else cfg | None \<Rightarrow> cfg)
      else cfg)"

definition parseDigestTime :: "string \<Rightarrow> (int \<times> int) option" where
  "parseDigestTime s =
     (case split_at (CHR '':'') s [] of
        [p, q] \<Rightarrow> (case (Atoi p, Atoi q) of
            (Some h, Some m) \<Rightarrow> if h < 0 \<or> h > 23 \<or> m < 0 \<or> m > 59 then None else Some (h, m)
          | _ \<Rightarrow> None)
      | _ \<Rightarrow> None)"

definition digest_env :: "string \<Rightarrow> config \<Rightarrow> config" where
  "digest_env v cfg =
     (if v = ''off'' then cfg\<lparr>DailyDigestTime := []\<rparr>
      else if v \<noteq> [] then (if parseDigestTime v \<noteq> None then cfg\<lparr>DailyDigestTime := v\<rparr> else cfg)
      else cfg)"

subsection \<open>What a loaded configuration guarantees\<close>

lemma setStr_not_nil: "d \<noteq> [] \<Longrightarrow> setStr d v \<noteq> []"
  by (simp add: setStr_def)

lemma config_validate_ok: "config_validate c = Inr () \<longleftrightarrow>
    0 < PollIntervalSec c \<and> LogFormat c \<in> {''json'', ''text''} \<and> 0 \<le> WasteScanIntervalSec c \<and> 0 \<le> PredictionsRetentionDays c"
  by (auto simp: config_validate_def)

lemma override_fields: "\<exists>w p. overrideWasteInterval raw c = c\<lparr>WasteScanIntervalSec := w, PredictionsRetentionDays := p\<rparr>"
  by (cases c) (auto simp: overrideWasteInterval_def)

text \<open>
  Whatever the file holds, a configuration that loads is usable: the poll interval is positive, the log format known, the
  periods are not negative, and no address, path or digest time is empty (the latter also when the file asks for an empty one to
  disable the digest). Without a file, or with an empty path, the defaults load.
\<close>

lemma config_Load_ok:
  assumes "config_Load fs unmarshal path = Inr c"
  shows "config_ok c"
proof (cases "path = [] \<or> Stat fs path = NotExist")
  case True
  then show ?thesis using assms by (auto simp: config_Load_def config_ok_def config_defaults_def)
next
  case False
  then obtain raw over where c: "c = overrideWasteInterval raw (apply_config config_defaults over)" "config_validate c = Inr ()"
    using assms by (auto simp: config_Load_def res_bind_Inr Let_def)
  obtain w p where o: "c = (apply_config config_defaults over)\<lparr>WasteScanIntervalSec := w, PredictionsRetentionDays := p\<rparr>"
    using override_fields c(1) by metis
  show ?thesis using c(2) unfolding config_validate_ok
    by (simp add: config_ok_def o) (simp add: apply_config_def config_defaults_def setStr_def)
qed

definition cfg_fs :: filesys where
  "cfg_fs = \<lparr>Stat = \<lambda>_. IsFile, ReadDir = \<lambda>_. Inr [], ReadFile = \<lambda>_. Inr ''cfg''\<rparr>"

lemma config_Load_ok_witness:
  "\<exists>c. config_Load cfg_fs (\<lambda>_. Inr (\<lambda>_. None, config_defaults\<lparr>PollIntervalSec := 30, LogFormat := ''text''\<rparr>)) ''c.yaml'' = Inr c
     \<and> config_ok c \<and> PollIntervalSec c = 30"
proof -
  have "\<exists>c. config_Load cfg_fs (\<lambda>_. Inr (\<lambda>_. None, config_defaults\<lparr>PollIntervalSec := 30, LogFormat := ''text''\<rparr>)) ''c.yaml'' = Inr c \<and> PollIntervalSec c = 30"
    by (simp add: config_Load_def cfg_fs_def overrideWasteInterval_def apply_config_def config_defaults_def config_validate_def setStr_def set_pos_def Let_def)
  then show ?thesis using config_Load_ok by blast
qed

text \<open>
  An explicit zero disables the pruning of predictions only in a file that also sets the scan interval.
\<close>

lemma retention_zero_ignored:
  "raw ''waste_scan_interval_sec'' = None \<Longrightarrow>
   PredictionsRetentionDays (overrideWasteInterval raw (apply_config config_defaults over)) > 0"
  by (simp add: overrideWasteInterval_def apply_config_def config_defaults_def set_pos_def)

end
