(* ===== verification/Daemon.thy ===== *)
theory Daemon
  imports Sensors Cost Config
begin

text \<open>
  The periodic jobs of the daemon and its main loop (\<^verbatim>\<open>cmd/sentinel/daemon.go\<close> from \<^verbatim>\<open>Run\<close> on, \<^verbatim>\<open>daily_digest.go\<close>,
  \<^verbatim>\<open>predictions_retention.go\<close>, the conversion of waste entries in \<^verbatim>\<open>waste_cli.go\<close>). A job keeps the key of its last successful period as the
  state of a reserved id: the interface \<open>keyed_state\<close>. Time zones, the JSON codec of the digest's snapshot, the billing source and the
  notifier are parameters.

  Main results: in every run of the main loop each job succeeds at most once per period (\<open>digest_once\<close>, \<open>weekly_once\<close>, \<open>prune_once\<close>), the
  digest lists exactly the changes since the last one (\<open>digest_reports_changes\<close>), and two configurations crash the daemon
  (\<open>Run_disabled_panics\<close>, \<open>runWasteScan_nil_pricer\<close>).
\<close>

subsection \<open>What the jobs rely on\<close>

record zone =
  Z_civil :: "time \<Rightarrow> int \<times> int \<times> int"
  Z_at :: "int \<Rightarrow> int \<Rightarrow> int \<Rightarrow> int \<Rightarrow> int \<Rightarrow> time"

type_synonym notifier = "string \<Rightarrow> unit res"
type_synonym billing = "time \<Rightarrow> time \<Rightarrow> daily_spend list res"

record snap_codec =
  SC_enc :: "(string \<rightharpoonup> string) \<Rightarrow> string"
  SC_dec :: "string \<Rightarrow> (string \<rightharpoonup> string) option"

text \<open>What is fixed while the daemon runs. The environment variable that switches the weekly summary off is a flag.\<close>

record settings =
  ST_arch :: arch
  ST_cfg :: config
  ST_billing :: bool
  ST_weekly_off :: bool
  ST_costMap :: "usage_template list"
  ST_codec :: snap_codec
  ST_zone :: zone
  ST_g4 :: "f64 \<Rightarrow> string"
  ST_srt :: "growth_row list \<Rightarrow> growth_row list"

definition weeklyStateID :: string where "weeklyStateID = ''__weekly_cost_summary__''"
definition digestStateID :: string where "digestStateID = ''__daily_digest__''"
definition digestSnapID :: string where "digestSnapID = ''__daily_digest_states__''"
definition pruneStateID :: string where "pruneStateID = ''__predictions_prune__''"

definition set_key :: "time \<Rightarrow> time \<Rightarrow> string \<Rightarrow> string \<Rightarrow> daemon \<Rightarrow> daemon" where
  "set_key wall notified i key dm = dm\<lparr>DM_store := mark wall notified i key (DM_store dm)\<rparr>"

definition has_key :: "daemon \<Rightarrow> string \<Rightarrow> string \<Rightarrow> bool" where
  "has_key dm i key \<longleftrightarrow> state_of (DM_store dm) i = Some key"

subsection \<open>The weekly cost summary\<close>

definition recentTail :: "'a list \<Rightarrow> int \<Rightarrow> 'a list" where
  "recentTail spends n = (if int (length spends) \<le> n then spends else drop (length spends - nat n) spends)"

definition capacityTrend :: "source \<Rightarrow> time \<Rightarrow> daemon \<Rightarrow> string \<rightharpoonup> f64" where
  "capacityTrend src now dm =
     foldl (\<lambda>out d. case RangeQuery src (C_Value d) (AddDate now 0 0 (- 7)) now hour of
          Inl _ \<Rightarrow> out
        | Inr [] \<Rightarrow> out
        | Inr (r # _) \<Rightarrow> if length (r_samples r) < 2 then out
            else out(C_ID d \<mapsto> fsub (s_value (last (r_samples r))) (s_value (hd (r_samples r))))) Map.empty (DM_capDefs dm)"

definition ok_or_nil :: "'a list res \<Rightarrow> 'a list" where
  "ok_or_nil r = (case r of Inl _ \<Rightarrow> [] | Inr xs \<Rightarrow> xs)"

text \<open>
  \<open>svcs\<close> and \<open>caps\<close> are the orders in which the maps of services and of capacity changes are visited; \<open>clock\<close> is the second
  reading of the clock, which stands in for the date of the last spend when there is none.
\<close>

definition weekly_text :: "settings \<Rightarrow> billing \<Rightarrow> daily_spend list \<Rightarrow> (string \<rightharpoonup> f64) \<Rightarrow> string list \<Rightarrow> string list \<Rightarrow> time \<Rightarrow> time \<Rightarrow> string" where
  "weekly_text st bill thisWeek trend svcs caps now clock =
     (let thisStart = TruncateDay (AddDate now 0 0 (- 7));
          prevWeek = ok_or_nil (bill (TruncateDay (AddDate now 0 0 (- 14))) (thisStart - second));
          spends = ok_or_nil (bill (date_time (Year now) (Month now) 1) now);
          mtd = fsum (map DS_Cost spends);
          rates = EstimateRates mtd (Day now) (recentTail spends 7);
          eom = ProjectEOM (ST_arch st) mtd now rates;
          rows = WeeklyTopGrowth (ST_srt st) (ST_g4 st) thisWeek prevWeek (map (\<lambda>i. (i, the (trend i))) caps) svcs 5;
          confirmed = (if spends = [] then clock else DS_Date (last spends))
      in FormatWeeklySummary rows eom confirmed)"

record weekly_env =
  WE_bill :: billing
  WE_src :: source
  WE_svcs :: "string list"
  WE_caps :: "string list"
  WE_clock :: time
  WE_wall :: time
  WE_send :: notifier

text \<open>The key of the week if a summary was accepted.\<close>

definition maybeWeeklyCost :: "settings \<Rightarrow> weekly_env \<Rightarrow> time \<Rightarrow> daemon \<Rightarrow> string option \<times> daemon" where
  "maybeWeeklyCost st env now dm =
     (if \<not> ST_billing st \<or> ST_weekly_off st then (None, dm)
      else let weekKey = ISOWeekKey now in
        if has_key dm weeklyStateID weekKey then (None, dm)
        else case WE_bill env (TruncateDay (AddDate now 0 0 (- 7))) now of
            Inl _ \<Rightarrow> (None, dm)
          | Inr thisWeek \<Rightarrow>
              (case WE_send env (weekly_text st (WE_bill env) thisWeek (capacityTrend (WE_src env) now dm) (WE_svcs env) (WE_caps env) now (WE_clock env)) of
                 Inl _ \<Rightarrow> (None, dm)
               | Inr _ \<Rightarrow> (Some weekKey, set_key (WE_wall env) now weeklyStateID weekKey dm)))"

subsection \<open>The daily digest\<close>

definition day_key :: "int \<times> int \<times> int \<Rightarrow> string" where
  "day_key = (\<lambda>(y, m, d). pad 4 (nat y) @ CHR ''-'' # pad 2 (nat m) @ CHR ''-'' # pad 2 (nat d))"

definition current_states :: "daemon \<Rightarrow> string \<rightharpoonup> string" where
  "current_states dm = foldl (\<lambda>m s. m(SS_ID s \<mapsto> SS_State s)) Map.empty (eachState dm)"

definition change_line :: "string \<times> string \<times> string \<Rightarrow> string" where
  "change_line = (\<lambda>(i, old, new). i @ utf8 [239, 188, 154] @ old @ utf8 [32, 226, 134, 146, 32] @ new)"

text \<open>\<open>ks\<close> is the order in which the map of states is visited.\<close>

definition changes :: "string list \<Rightarrow> (string \<rightharpoonup> string) \<Rightarrow> (string \<rightharpoonup> string) \<Rightarrow> string list" where
  "changes ks old cur =
     sort (map change_line (concat (map (\<lambda>i. case (old i, cur i) of (Some x, Some y) \<Rightarrow> if x \<noteq> y then [(i, x, y)] else [] | _ \<Rightarrow> []) ks)))"

definition digestChanges :: "settings \<Rightarrow> string list \<Rightarrow> (string \<rightharpoonup> string) \<Rightarrow> daemon \<Rightarrow> string list" where
  "digestChanges st ks cur dm =
     (case state_of (DM_store dm) digestSnapID of None \<Rightarrow> []
      | Some snap \<Rightarrow> if snap = [] then [] else (case SC_dec (ST_codec st) snap of None \<Rightarrow> [] | Some old \<Rightarrow> changes ks old cur))"

definition digest_text :: "settings \<Rightarrow> string list \<Rightarrow> (string \<rightharpoonup> string) \<Rightarrow> daemon \<Rightarrow> string" where
  "digest_text st ks cur dm =
     Digest_Format ks cur @
     (let ch = digestChanges st ks cur dm in
      if ch \<noteq> [] then CHR 0x0A # utf8 [233, 129, 142, 229, 142, 187, 228, 184, 128, 229, 164, 169, 231, 139, 128, 230, 133, 139, 232, 174, 138, 229, 140, 150, 239, 188, 154] @ CHR 0x0A # concat (map (\<lambda>l. ''  '' @ l @ [CHR 0x0A]) ch)
      else CHR 0x0A # utf8 [233, 129, 142, 229, 142, 187, 228, 184, 128, 229, 164, 169, 231, 132, 161, 231, 139, 128, 230, 133, 139, 232, 174, 138, 229, 140, 150] @ [CHR 0x0A])"

record digest_io =
  DE_ord :: "string list"
  DE_wall :: time
  DE_send :: notifier

definition maybeDailyDigest :: "settings \<Rightarrow> digest_io \<Rightarrow> time \<Rightarrow> daemon \<Rightarrow> string option \<times> daemon" where
  "maybeDailyDigest st env now dm =
     (if DailyDigestTime (ST_cfg st) = [] then (None, dm)
      else case parseDigestTime (DailyDigestTime (ST_cfg st)) of None \<Rightarrow> (None, dm)
        | Some (h, m) \<Rightarrow>
            (case Z_civil (ST_zone st) now of (y, mo, d) \<Rightarrow>
              if now < Z_at (ST_zone st) y mo d h m then (None, dm)
              else let dayKey = day_key (y, mo, d) in
                if has_key dm digestStateID dayKey then (None, dm)
                else let cur = current_states dm in
                  (case DE_send env (digest_text st (DE_ord env) cur dm) of Inl _ \<Rightarrow> (None, dm)
                   | Inr _ \<Rightarrow> (Some dayKey, set_key (DE_wall env) now digestSnapID (SC_enc (ST_codec st) cur)
                                 (set_key (DE_wall env) now digestStateID dayKey dm)))))"

subsection \<open>Pruning\<close>

definition maybePrunePredictions :: "settings \<Rightarrow> time \<Rightarrow> time \<Rightarrow> daemon \<Rightarrow> string option \<times> daemon" where
  "maybePrunePredictions st wall now dm =
     (let days = PredictionsRetentionDays (ST_cfg st) in
      if days \<le> 0 then (None, dm)
      else let dayKey = fmt_date now in
        if has_key dm pruneStateID dayKey then (None, dm)
        else (Some dayKey, set_key wall time_zero pruneStateID dayKey
                (dm\<lparr>DM_store := snd (PrunePredictions (AddDate now 0 0 (- days)) (DM_store dm))\<rparr>)))"

subsection \<open>The waste scan\<close>

definition entryToStore :: "tentry \<Rightarrow> waste_entry" where
  "entryToStore e =
     \<lparr>W_Sensor = Te_Sensor e, W_Resource = Te_Resource e, W_Reason = Te_Reason e, W_State = Te_State e, W_FirstSeen = Te_FirstSeen e,
      W_LastNotified = Te_LastNotified e, W_Renotify = Te_Renotify e, W_USDPerDay = Te_PerDay e, W_TotalUSD = Te_Total e,
      W_DismissReason = Te_DismissReason e, W_DismissUntil = Te_DismissUntil e\<rparr>"

definition entry_of_store :: "waste_entry \<Rightarrow> tentry" where
  "entry_of_store w =
     \<lparr>Te_Sensor = W_Sensor w, Te_Resource = W_Resource w, Te_Reason = W_Reason w, Te_State = W_State w, Te_FirstSeen = W_FirstSeen w,
      Te_LastNotified = W_LastNotified w, Te_Renotify = W_Renotify w, Te_PerDay = W_USDPerDay w, Te_Total = W_TotalUSD w,
      Te_DismissReason = W_DismissReason w, Te_DismissUntil = W_DismissUntil w\<rparr>"

definition entriesFromStore :: "waste_entry list \<Rightarrow> tentry list" where
  "entriesFromStore rows = map entry_of_store rows"

definition persistWasteEntries :: "time \<Rightarrow> tentry list \<Rightarrow> store \<Rightarrow> store" where
  "persistWasteEntries wall es s = foldl (\<lambda>s e. or_log s (SetWasteEntry wall (entryToStore e) s)) s es"

text \<open>\<open>text_of\<close> writes a reminder as a message, whose wording is not modelled.\<close>

record 's waste_env =
  SE_src :: source
  SE_now :: time
  SE_wall :: time
  SE_float :: "string \<Rightarrow> f64 option"
  SE_attrs :: "string \<Rightarrow> attrs option"
  SE_ord :: "tracker \<Rightarrow> string list"
  SE_send :: "reminder \<Rightarrow> unit res"

fun observe_all :: "(reminder \<Rightarrow> unit res) \<Rightarrow> time \<Rightarrow> candidate list \<Rightarrow> tracker \<Rightarrow> (reminder \<times> bool) list \<times> tracker" where
  "observe_all send now [] t = ([], t)"
| "observe_all send now (c # cs) t =
     (let (t', e, notify, msg) = Observe c now t; (sent, t'') = observe_all send now cs t'
      in (if notify then (msg, \<not> isl (send msg)) # sent else sent, t''))"

text \<open>
  The scanner holds the daemon's price catalog as an interface value. That value is never nil: without a price catalog it is a
  nil pointer inside the interface, and asking it for a price is a panic.
\<close>

definition iface_pricer :: "'s pricer option \<Rightarrow> 's pricer" where
  "iface_pricer p = (case p of None \<Rightarrow> (\<lambda>f a s. (s, Inl Panic)) | Some q \<Rightarrow> q)"

definition runWasteScan :: "settings \<Rightarrow> 's pricer option \<Rightarrow> 's waste_env \<Rightarrow> 's \<Rightarrow> daemon \<Rightarrow> 's \<times> ((reminder \<times> bool) list \<times> daemon) res" where
  "runWasteScan st pricer env ps dm =
     (case (DM_catalog dm, DM_tracker dm) of
        (Some cat, Some t) \<Rightarrow>
          if WasteScanIntervalSec (ST_cfg st) \<le> 0 then (ps, Inr ([], dm))
          else (case Scan (ST_arch st) (SE_float env) (SE_attrs env) (SE_src env) (Some (iface_pricer pricer)) cat (SE_now env) ps of
              (ps', Inl Panic) \<Rightarrow> (ps', Inl Panic)
            | (ps', Inl (Err e)) \<Rightarrow> (ps', Inr ([], dm))
            | (ps', Inr cands) \<Rightarrow>
                (let (sent, t') = observe_all (SE_send env) (SE_now env) cands t
                 in (ps', Inr (sent, dm\<lparr>DM_tracker := Some t',
                      DM_store := persistWasteEntries (SE_wall env) (Entries (SE_ord env t') t') (DM_store dm)\<rparr>))))
      | _ \<Rightarrow> (ps, Inr ([], dm)))"

definition estimateLines :: "settings \<Rightarrow> daemon \<Rightarrow> (usage_template \<times> f64) list" where
  "estimateLines st dm =
     map (\<lambda>tpl. (tpl, case GetState (U_Sensor tpl) (DM_store dm) of None \<Rightarrow> Fin 0 | Some s \<Rightarrow> SS_Value s)) (ST_costMap st)"

subsection \<open>The main loop\<close>

text \<open>What the directories of definitions and rules hold when they are read.\<close>

record setup_env =
  UE_fs :: filesys
  UE_caps :: "string \<Rightarrow> capdef list res"
  UE_slos :: "string \<Rightarrow> slo list res"
  UE_rules :: "string \<Rightarrow> rules_file res"
  UE_walk :: "string \<Rightarrow> walk_entry list"
  UE_promtool :: promtool
  UE_now :: time

definition reload_sensors :: "settings \<Rightarrow> setup_env \<Rightarrow> daemon \<Rightarrow> unit res \<times> daemon" where
  "reload_sensors st ue dm =
     setupSensors (ST_arch st) (UE_fs ue) (UE_caps ue) (UE_slos ue) (CapacityDefsDir (ST_cfg st)) (SloDefsDir (ST_cfg st)) dm"

definition load_catalog :: "settings \<Rightarrow> setup_env \<Rightarrow> (catalog \<times> (string \<times> string) list) res" where
  "load_catalog st ue = Loader_Load (ST_arch st) (UE_fs ue) (UE_walk ue) (UE_promtool ue) (UE_rules ue) (RulesDir (ST_cfg st)) (UE_now ue)"

text \<open>A change below \<^verbatim>\<open>rules.d\<close>: without a loadable catalog nothing happens, otherwise the sensors are rebuilt too.\<close>

definition rules_changed :: "settings \<Rightarrow> setup_env \<Rightarrow> daemon \<Rightarrow> daemon" where
  "rules_changed st ue dm =
     (case load_catalog st ue of Inl _ \<Rightarrow> dm | Inr (cat, _) \<Rightarrow> snd (reload_sensors st ue (dm\<lparr>DM_catalog := Some cat\<rparr>)))"

definition defs_changed :: "settings \<Rightarrow> setup_env \<Rightarrow> daemon \<Rightarrow> daemon" where
  "defs_changed st ue dm = snd (reload_sensors st ue dm)"

record tick_env =
  TE_poll :: "string \<Rightarrow> poll_env"
  TE_cancelled :: bool
  TE_weekly :: weekly_env
  TE_weekly_now :: time
  TE_digest :: digest_io
  TE_digest_now :: time
  TE_prune_wall :: time
  TE_prune_now :: time

datatype job = Weekly | Digest | Prune

definition done_job :: "job \<Rightarrow> string option \<Rightarrow> (job \<times> string) list" where
  "done_job j k = (case k of None \<Rightarrow> [] | Some key \<Rightarrow> [(j, key)])"

definition run_jobs :: "settings \<Rightarrow> tick_env \<Rightarrow> daemon \<Rightarrow> (job \<times> string) list \<times> daemon" where
  "run_jobs st te dm =
     (let (w, dm) = maybeWeeklyCost st (TE_weekly te) (TE_weekly_now te) dm;
          (d, dm) = maybeDailyDigest st (TE_digest te) (TE_digest_now te) dm;
          (p, dm) = maybePrunePredictions st (TE_prune_wall te) (TE_prune_now te) dm
      in (done_job Weekly w @ done_job Digest d @ done_job Prune p, dm))"

datatype 's event = CtxDone | ApiFailed string | MetricsFailed string | PollTick tick_env | WasteTick "'s waste_env"
  | RulesChanged setup_env | DefsChanged setup_env

datatype status = Running | Stopped | Failed gerr | Crashed

text \<open>
  The loop over what arrives, with the jobs that succeeded. Every entry into \<^verbatim>\<open>select\<close> evaluates the channel of the waste ticker, a field
  of a nil pointer if there is no ticker. A reload runs in a goroutine of its own; here it takes effect between two entries.
\<close>

fun select_loop :: "settings \<Rightarrow> 's pricer option \<Rightarrow> 's event list \<Rightarrow> 's \<Rightarrow> daemon \<Rightarrow> (job \<times> string) list \<times> status \<times> 's \<times> daemon" where
  "select_loop st pr evs ps dm =
     (if WasteScanIntervalSec (ST_cfg st) \<le> 0 then ([], Crashed, ps, dm)
      else case evs of [] \<Rightarrow> ([], Running, ps, dm)
        | CtxDone # _ \<Rightarrow> ([], Stopped, ps, dm)
        | ApiFailed e # _ \<Rightarrow> ([], Failed (Err e), ps, dm)
        | MetricsFailed e # _ \<Rightarrow> ([], Failed (Err e), ps, dm)
        | PollTick te # evs \<Rightarrow>
            (let dm = snd (runOnePoll (ST_arch st) (TE_poll te) dm)
             in if TE_cancelled te then ([], Stopped, ps, dm)
                else let (js, dm) = run_jobs st te dm; (tr, r) = select_loop st pr evs ps dm in (js @ tr, r))
        | WasteTick we # evs \<Rightarrow>
            (case runWasteScan st pr we ps dm of
               (ps, Inl e) \<Rightarrow> ([], Crashed, ps, dm)
             | (ps, Inr (sent, dm)) \<Rightarrow> select_loop st pr evs ps dm)
        | RulesChanged ue # evs \<Rightarrow> select_loop st pr evs ps (rules_changed st ue dm)
        | DefsChanged ue # evs \<Rightarrow> select_loop st pr evs ps (defs_changed st ue dm))"

declare select_loop.simps [simp del]

definition restore_tracker :: "arch \<Rightarrow> store \<Rightarrow> tracker" where
  "restore_tracker a s = Restore (entriesFromStore (AllWasteEntries a s)) NewTracker"

text \<open>
  \<^verbatim>\<open>time.NewTicker\<close> panics unless its duration is positive, and the seconds of the configuration are multiplied by \<^verbatim>\<open>time.Second\<close> in 64 bits. The
  ticker of the waste scan is made first, if there is one.
\<close>

definition NewTicker_panics :: "int \<Rightarrow> bool" where
  "NewTicker_panics sec \<longleftrightarrow> wrap64 (sec * second) \<le> 0"

definition Run :: "settings \<Rightarrow> 's pricer option \<Rightarrow> setup_env \<Rightarrow> (string \<Rightarrow> poll_env) \<Rightarrow> bool \<Rightarrow> 's waste_env \<Rightarrow> 's event list \<Rightarrow> 's \<Rightarrow> daemon
    \<Rightarrow> (job \<times> string) list \<times> status \<times> 's \<times> daemon" where
  "Run st pr ue poll cancelled we evs ps dm =
     (case reload_sensors st ue dm of
        (Inl e, dm) \<Rightarrow> ([], Failed e, ps, dm)
      | (Inr _, dm) \<Rightarrow>
          (let dm = (case load_catalog st ue of Inl _ \<Rightarrow> dm | Inr (cat, _) \<Rightarrow> dm\<lparr>DM_catalog := Some cat\<rparr>);
               dm = dm\<lparr>DM_tracker := Some (restore_tracker (ST_arch st) (DM_store dm))\<rparr>
           in if WasteScanIntervalSec (ST_cfg st) > 0 \<and> NewTicker_panics (WasteScanIntervalSec (ST_cfg st)) then ([], Crashed, ps, dm)
              else if NewTicker_panics (PollIntervalSec (ST_cfg st)) then ([], Crashed, ps, dm)
              else let dm = snd (runOnePoll (ST_arch st) poll dm) in
                if cancelled then ([], Stopped, ps, dm)
                else (case runWasteScan st pr we ps dm of
                    (ps, Inl e) \<Rightarrow> ([], Crashed, ps, dm)
                  | (ps, Inr (sent, dm)) \<Rightarrow> select_loop st pr evs ps dm)))"

subsection \<open>Jobs run once per period\<close>

context keyed_state
begin

definition job_step :: "string \<Rightarrow> 's \<Rightarrow> string option \<Rightarrow> 's \<Rightarrow> bool" where
  "job_step i s l s' \<longleftrightarrow> (case l of None \<Rightarrow> getst s' i = getst s i | Some k \<Rightarrow> getst s i \<noteq> Some k \<and> getst s' i = Some k)"

inductive job_run :: "string \<Rightarrow> 's \<Rightarrow> string list \<Rightarrow> 's \<Rightarrow> bool" where
  idle: "job_run i s [] s"
| quiet: "job_step i s None s' \<Longrightarrow> job_run i s' ks s'' \<Longrightarrow> job_run i s ks s''"
| worked: "job_step i s (Some k) s' \<Longrightarrow> job_run i s' ks s'' \<Longrightarrow> job_run i s (k # ks) s''"

lemma job_run_trans: "job_run i s ks s' \<Longrightarrow> job_run i s' ls s'' \<Longrightarrow> job_run i s (ks @ ls) s''"
  by (induction rule: job_run.induct) (auto intro: job_run.intros)

lemma job_run_one: "job_step i s l s' \<Longrightarrow> job_run i s (case l of None \<Rightarrow> [] | Some k \<Rightarrow> [k]) s'"
  by (cases l) (auto intro: job_run.intros)

lemma job_run_once: "job_run i s ks s' \<Longrightarrow> successively (\<noteq>) ks \<and> (ks \<noteq> [] \<longrightarrow> getst s i \<noteq> Some (hd ks))"
  by (induction rule: job_run.induct) (auto simp: job_step_def successively_Cons)

text \<open>With keys in order, as the clock moves on, no period is served twice.\<close>

lemma job_run_distinct: "job_run i s ks s' \<Longrightarrow> sorted ks \<Longrightarrow> distinct ks"
proof -
  assume "job_run i s ks s'" "sorted ks"
  then have "successively (\<noteq>) ks" using job_run_once by blast
  then show "distinct ks" using \<open>sorted ks\<close>
  proof (induction ks)
    case (Cons a ks)
    have "a \<notin> set ks"
    proof (cases ks)
      case (Cons b ls)
      then have "a < b" "\<forall>x \<in> set ks. b \<le> x" using Cons.prems by (auto simp: successively_Cons)
      then show ?thesis by auto
    qed simp
    then show ?case using Cons by (auto simp: successively_Cons)
  qed simp
qed

lemma run_once_step: "i \<noteq> [] \<Longrightarrow> run_once i key act s = (s', b) \<Longrightarrow> (\<And>s1. act s = Some s1 \<Longrightarrow> getst s1 i = getst s i) \<Longrightarrow>
    job_step i s (if b then Some key else None) s'"
  by (auto simp: run_once_def job_step_def get_set_same split: if_splits option.splits)

end

definition job_id :: "job \<Rightarrow> string" where
  "job_id j = (case j of Weekly \<Rightarrow> weeklyStateID | Digest \<Rightarrow> digestStateID | Prune \<Rightarrow> pruneStateID)"

lemmas state_ids = weeklyStateID_def digestStateID_def digestSnapID_def pruneStateID_def

lemma job_id_neq [simp]: "job_id j \<noteq> []" "job_id j \<noteq> digestSnapID" "job_id i = job_id j \<longleftrightarrow> i = j"
  by (cases j; cases i; simp add: job_id_def state_ids)+

lemma kv_set: "i \<noteq> [] \<Longrightarrow> state_of (mark w n i v s) j = (if j = i then Some v else state_of s j)"
  using kv.get_set_same kv.get_set_other by auto

subsection \<open>What a step does to the keys\<close>

definition job_ok :: "string \<Rightarrow> daemon \<Rightarrow> string option \<times> daemon \<Rightarrow> bool" where
  "job_ok i dm r \<longleftrightarrow> kv.job_step i (DM_store dm) (fst r) (DM_store (snd r)) \<and> DM_sensors (snd r) = DM_sensors dm
     \<and> (\<forall>j. j \<noteq> i \<and> j \<noteq> digestSnapID \<longrightarrow> state_of (DM_store (snd r)) j = state_of (DM_store dm) j)"

lemma job_ok_None: "job_ok i dm (None, dm)"
  by (simp add: job_ok_def kv.job_step_def)

lemma set_key_sel [simp]: "DM_sensors (set_key w n i k dm) = DM_sensors dm" "DM_store (set_key w n i k dm) = mark w n i k (DM_store dm)"
  by (simp_all add: set_key_def)

lemma job_ok_set: "i \<noteq> [] \<Longrightarrow> \<not> has_key dm i k \<Longrightarrow> DM_sensors dm1 = DM_sensors dm \<Longrightarrow> (\<And>j. state_of (DM_store dm1) j = state_of (DM_store dm) j) \<Longrightarrow>
    job_ok i dm (Some k, set_key w n i k dm1)"
  by (simp add: job_ok_def kv.job_step_def kv_set has_key_def)

lemma weekly_ok: "job_ok (job_id Weekly) dm (maybeWeeklyCost st env now dm)"
  by (auto simp: maybeWeeklyCost_def job_id_def state_ids job_ok_None job_ok_set Let_def split: sum.splits)

lemma digest_ok: "job_ok (job_id Digest) dm (maybeDailyDigest st env now dm)"
proof -
  have "job_ok (job_id Digest) dm (Some k, set_key w n digestSnapID v (set_key w n digestStateID k dm))" if "\<not> has_key dm digestStateID k" for k w n v
    using that by (simp add: job_ok_def kv.job_step_def kv_set has_key_def job_id_def) (simp add: state_ids kv_set)
  then show ?thesis
    by (auto simp: maybeDailyDigest_def job_ok_None Let_def split: sum.splits option.splits prod.splits)
qed

lemma prune_ok: "job_ok (job_id Prune) dm (maybePrunePredictions st w now dm)"
proof -
  have "state_of (snd (PrunePredictions c s)) j = state_of s j" for c s j
    by (simp add: state_of_def GetState_def PrunePredictions_def Let_def)
  then show ?thesis by (auto simp: maybePrunePredictions_def job_id_def state_ids job_ok_None Let_def intro!: job_ok_set)
qed

definition keys_of :: "job \<Rightarrow> (job \<times> string) list \<Rightarrow> string list" where
  "keys_of j tr = map snd (filter (\<lambda>(i, k). i = j) tr)"

lemma keys_of_simps [simp]: "keys_of j [] = []" "keys_of j (xs @ ys) = keys_of j xs @ keys_of j ys"
  "keys_of j (done_job i k) = (if i = j then (case k of None \<Rightarrow> [] | Some x \<Rightarrow> [x]) else [])"
  by (auto simp: keys_of_def done_job_def split: option.splits)

lemma job_ok_run: "job_ok (job_id i) dm (k, dm') \<Longrightarrow> kv.job_run (job_id j) (DM_store dm) (keys_of j (done_job i k)) (DM_store dm')"
proof (cases "i = j")
  case True
  assume "job_ok (job_id i) dm (k, dm')"
  then show ?thesis using True kv.job_run_one [of "job_id i" "DM_store dm" k "DM_store dm'"] by (simp add: job_ok_def)
next
  case False
  assume "job_ok (job_id i) dm (k, dm')"
  then have "kv.job_step (job_id j) (DM_store dm) None (DM_store dm')" using False by (auto simp: job_ok_def kv.job_step_def)
  then show ?thesis using False kv.job_run_one [of "job_id j" "DM_store dm" None "DM_store dm'"] by simp
qed

lemma run_jobs_run:
  assumes "run_jobs st te dm = (js, dm')"
  shows "kv.job_run (job_id j) (DM_store dm) (keys_of j js) (DM_store dm') \<and> DM_sensors dm' = DM_sensors dm"
proof -
  obtain w dm1 where 1: "maybeWeeklyCost st (TE_weekly te) (TE_weekly_now te) dm = (w, dm1)" by force
  obtain d dm2 where 2: "maybeDailyDigest st (TE_digest te) (TE_digest_now te) dm1 = (d, dm2)" by force
  obtain p dm3 where 3: "maybePrunePredictions st (TE_prune_wall te) (TE_prune_now te) dm2 = (p, dm3)" by force
  have ok: "job_ok (job_id Weekly) dm (w, dm1)" "job_ok (job_id Digest) dm1 (d, dm2)" "job_ok (job_id Prune) dm2 (p, dm3)"
    using weekly_ok digest_ok prune_ok 1 2 3 by metis+
  have "kv.job_run (job_id j) (DM_store dm) (keys_of j (done_job Weekly w) @ keys_of j (done_job Digest d) @ keys_of j (done_job Prune p)) (DM_store dm3)"
    using ok by (blast intro: kv.job_run_trans job_ok_run)
  moreover have "js = done_job Weekly w @ done_job Digest d @ done_job Prune p" "dm' = dm3"
    using assms 1 2 3 by (auto simp: run_jobs_def)
  ultimately show ?thesis using ok by (simp add: job_ok_def)
qed

definition reserved :: "string list" where
  "reserved = [weeklyStateID, digestStateID, digestSnapID, pruneStateID]"

definition ids_ok :: "daemon \<Rightarrow> bool" where
  "ids_ok dm \<longleftrightarrow> list_all runner_ok (DM_sensors dm) \<and> list_all (\<lambda>i. i \<notin> set reserved) (map RN_id (DM_sensors dm))"

definition env_ok :: "settings \<Rightarrow> setup_env \<Rightarrow> bool" where
  "env_ok st ue \<longleftrightarrow>
     (case (LoadDefs (UE_fs ue) (UE_caps ue) (CapacityDefsDir (ST_cfg st)), specLoadAll (ST_arch st) (UE_fs ue) (UE_slos ue) (SloDefsDir (ST_cfg st))) of
        (Inr defs, Inr slos) \<Rightarrow> list_all (\<lambda>i. i \<notin> set reserved) (map C_ID defs @ map X_ID slos) | _ \<Rightarrow> True)"

definition event_ok :: "settings \<Rightarrow> 's event \<Rightarrow> bool" where
  "event_ok st e = (case e of RulesChanged ue \<Rightarrow> env_ok st ue | DefsChanged ue \<Rightarrow> env_ok st ue | _ \<Rightarrow> True)"

lemma reload_frame:
  assumes "env_ok st ue" "ids_ok dm" "reload_sensors st ue dm = (r, dm')"
  shows "ids_ok dm' \<and> DM_store dm' = DM_store dm"
  using setupSensors_result [where a = "ST_arch st" and fs = "UE_fs ue" and ucap = "UE_caps ue" and uslo = "UE_slos ue"
      and capdir = "CapacityDefsDir (ST_cfg st)" and slodir = "SloDefsDir (ST_cfg st)" and dm = dm] assms
  by (auto simp: reload_sensors_def ids_ok_def env_ok_def split: sum.splits prod.splits)

lemma persist_states: "T_states (persistWasteEntries w es s) = T_states s"
proof -
  have "T_states (or_log s (SetWasteEntry w e s)) = T_states s" for e s
    by (auto simp: or_log_def SetWasteEntry_def Let_def split: sum.splits if_splits)
  then show ?thesis by (induction es arbitrary: s) (auto simp: persistWasteEntries_def)
qed

lemma runWasteScan_frame:
  assumes "runWasteScan st pr we ps dm = (ps', Inr (sent, dm'))"
  shows "DM_sensors dm' = DM_sensors dm \<and> state_of (DM_store dm') j = state_of (DM_store dm) j"
  using assms state_of_cong [OF persist_states]
  by (auto simp: runWasteScan_def split: option.splits if_splits prod.splits sum.splits gerr.splits)

lemma poll_frame:
  assumes "ids_ok dm" "i \<in> set reserved"
  shows "ids_ok (snd (runOnePoll a env dm)) \<and> state_of (DM_store (snd (runOnePoll a env dm))) i = state_of (DM_store dm) i"
  using assms runOnePoll_keeps [of dm a env] runOnePoll_frame [of dm i a env]
  by (auto simp: ids_ok_def list_all_iff image_iff)

lemma job_id_reserved: "job_id j \<in> set reserved"
  by (cases j) (simp_all add: job_id_def reserved_def)

lemma quiet_run: "state_of s' (job_id j) = state_of s (job_id j) \<Longrightarrow> kv.job_run (job_id j) s' ks s'' \<Longrightarrow> kv.job_run (job_id j) s ks s''"
  by (rule kv.job_run.quiet) (simp_all add: kv.job_step_def)

lemma select_loop_run:
  "list_all (event_ok st) evs \<Longrightarrow> ids_ok dm \<Longrightarrow> select_loop st pr evs ps dm = (tr, status, ps', dm') \<Longrightarrow>
   kv.job_run (job_id j) (DM_store dm) (keys_of j tr) (DM_store dm')"
proof (induction evs arbitrary: ps dm tr)
  case Nil
  then show ?case by (auto simp: select_loop.simps split: if_splits intro: kv.job_run.idle)
next
  case (Cons e evs)
  show ?case
  proof (cases "WasteScanIntervalSec (ST_cfg st) \<le> 0")
    case True
    then show ?thesis using Cons.prems by (auto simp: select_loop.simps intro: kv.job_run.idle)
  next
    case on: False
    note step = Cons.prems(3) [unfolded select_loop.simps [of st pr "e # evs"]]
    show ?thesis
    proof (cases e)
      case (PollTick te)
      let ?dm = "snd (runOnePoll (ST_arch st) (TE_poll te) dm)"
      obtain js dm1 where j: "run_jobs st te ?dm = (js, dm1)" by force
      obtain tr1 r1 where l: "select_loop st pr evs ps dm1 = (tr1, r1)" by (metis surj_pair)
      have f: "ids_ok ?dm" "state_of (DM_store ?dm) (job_id j) = state_of (DM_store dm) (job_id j)"
        using poll_frame [OF Cons.prems(2) job_id_reserved] by auto
      show ?thesis
      proof (cases "TE_cancelled te")
        case True
        then show ?thesis using step on PollTick f by (auto intro: quiet_run kv.job_run.idle)
      next
        case False
        note J = run_jobs_run [OF j, of j]
        have "ids_ok dm1" using f(1) J by (simp add: ids_ok_def)
        moreover have "r1 = (status, ps', dm')" "tr = js @ tr1" using step on PollTick False j l by auto
        ultimately have "kv.job_run (job_id j) (DM_store dm1) (keys_of j tr1) (DM_store dm')"
          using Cons.IH [of dm1 ps tr1] Cons.prems(1) l by simp
        then have "kv.job_run (job_id j) (DM_store ?dm) (keys_of j tr) (DM_store dm')"
          using J kv.job_run_trans \<open>tr = js @ tr1\<close> by auto
        then show ?thesis by (rule quiet_run [OF f(2)])
      qed
    next
      case (WasteTick we)
      obtain ps1 r where w: "runWasteScan st pr we ps dm = (ps1, r)" by force
      show ?thesis
      proof (cases r)
        case (Inl g)
        then show ?thesis using step on WasteTick w by (auto intro: kv.job_run.idle)
      next
        case (Inr q)
        obtain sent dm1 where q: "q = (sent, dm1)" by force
        note f = runWasteScan_frame [OF w [unfolded Inr q], of "job_id j"]
        then have "ids_ok dm1" using Cons.prems(2) by (simp add: ids_ok_def)
        then have "kv.job_run (job_id j) (DM_store dm1) (keys_of j tr) (DM_store dm')"
          using Cons.IH Cons.prems(1) step on WasteTick w Inr q by auto
        then show ?thesis using f quiet_run by blast
      qed
    next
      case (RulesChanged ue)
      have "ids_ok (rules_changed st ue dm) \<and> DM_store (rules_changed st ue dm) = DM_store dm"
      proof (cases "load_catalog st ue")
        case (Inr cq)
        obtain cat qs where cq: "cq = (cat, qs)" by force
        obtain r dm1 where "reload_sensors st ue (dm\<lparr>DM_catalog := Some cat\<rparr>) = (r, dm1)" by force
        moreover from reload_frame [OF _ _ this] have "ids_ok dm1 \<and> DM_store dm1 = DM_store dm"
          using Cons.prems RulesChanged by (simp add: event_ok_def ids_ok_def)
        ultimately show ?thesis using Inr cq by (simp add: rules_changed_def)
      qed (use Cons.prems in \<open>simp add: rules_changed_def\<close>)
      then show ?thesis using Cons.IH [of "rules_changed st ue dm" ps tr] Cons.prems(1) step on RulesChanged by simp
    next
      case (DefsChanged ue)
      obtain r dm1 where "reload_sensors st ue dm = (r, dm1)" by force
      moreover from reload_frame [OF _ Cons.prems(2) this] have "ids_ok dm1 \<and> DM_store dm1 = DM_store dm"
        using Cons.prems DefsChanged by (simp add: event_ok_def)
      ultimately show ?thesis using Cons.IH [of dm1 ps tr] Cons.prems(1) step on DefsChanged by (simp add: defs_changed_def)
    qed (use step on in \<open>auto intro: kv.job_run.idle\<close>)
  qed
qed

text \<open>
  Every periodic job succeeds at most once per period: in any run of the main loop, whatever arrives and whatever is reloaded, no
  two consecutive weekly summaries, digests or prunings carry the same key, the first one does not repeat the key stored before the
  run (so a restart repeats nothing), and when the keys come in order, as they do under a clock that moves on, all are distinct.
\<close>

lemma jobs_once:
  assumes "list_all (event_ok st) evs" "ids_ok dm" "select_loop st pr evs ps dm = (tr, status, ps', dm')"
  shows "successively (\<noteq>) (keys_of j tr) \<and> (keys_of j tr \<noteq> [] \<longrightarrow> state_of (DM_store dm) (job_id j) \<noteq> Some (hd (keys_of j tr)))
       \<and> (sorted (keys_of j tr) \<longrightarrow> distinct (keys_of j tr))"
  using kv.job_run_once [OF select_loop_run [OF assms]] kv.job_run_distinct [OF select_loop_run [OF assms]] by blast

definition quiet_tick :: tick_env where
  "quiet_tick = \<lparr>TE_poll = \<lambda>_. quiet_env, TE_cancelled = False,
     TE_weekly = \<lparr>WE_bill = \<lambda>_ _. Inr [], WE_src = two_samples, WE_svcs = [], WE_caps = [], WE_clock = 0, WE_wall = 0, WE_send = \<lambda>_. Inr ()\<rparr>,
     TE_weekly_now = 0, TE_digest = \<lparr>DE_ord = [], DE_wall = 0, DE_send = \<lambda>_. Inr ()\<rparr>, TE_digest_now = 0, TE_prune_wall = 0, TE_prune_now = 0\<rparr>"

definition plain_settings :: settings where
  "plain_settings = \<lparr>ST_arch = AMD64, ST_cfg = config_defaults, ST_billing = True, ST_weekly_off = False, ST_costMap = [],
     ST_codec = \<lparr>SC_enc = \<lambda>_. ''x'', SC_dec = \<lambda>_. Some Map.empty\<rparr>,
     ST_zone = \<lparr>Z_civil = civil, Z_at = \<lambda>y m d h mi. date_time y m d + h * hour + mi * minute\<rparr>, ST_g4 = \<lambda>_. [], ST_srt = \<lambda>xs. xs\<rparr>"

lemma jobs_once_witness:
  "\<exists>tr status ps' dm'. select_loop plain_settings None [PollTick quiet_tick, PollTick quiet_tick] () (fresh_daemon [slo_runner slo35]) = (tr, status, ps', dm')
     \<and> keys_of Weekly tr = [ISOWeekKey 0]"
proof -
  let ?dm = "fresh_daemon [slo_runner slo35]"
  obtain tr status ps' dm' where r: "select_loop plain_settings None [PollTick quiet_tick, PollTick quiet_tick] () ?dm = (tr, status, ps', dm')"
    by (metis prod_cases4)
  have ok: "ids_ok ?dm" by (simp add: ids_ok_def fresh_daemon_def runner_ok_def slo_runner_def poller_id_def slo35_def reserved_def state_ids)
  have "list_all (event_ok plain_settings) [PollTick quiet_tick, PollTick quiet_tick :: unit event]" by (simp add: event_ok_def)
  from jobs_once [OF this ok r, of Weekly] have once: "successively (\<noteq>) (keys_of Weekly tr)" by blast
  let ?p = "\<lambda>dm. snd (runOnePoll AMD64 (\<lambda>_. quiet_env) dm)"
  have k: "keys_of Weekly (fst (run_jobs plain_settings quiet_tick dm)) = (if has_key dm weeklyStateID (ISOWeekKey 0) then [] else [ISOWeekKey 0])" for dm
    by (simp add: run_jobs_def maybeWeeklyCost_def plain_settings_def quiet_tick_def Let_def split_beta)
  have "keys_of Weekly tr = keys_of Weekly (fst (run_jobs plain_settings quiet_tick (?p ?dm)))
     @ keys_of Weekly (fst (run_jobs plain_settings quiet_tick (?p (snd (run_jobs plain_settings quiet_tick (?p ?dm))))))"
    using r by (auto simp: select_loop.simps plain_settings_def [THEN arg_cong, of ST_cfg] plain_settings_def [THEN arg_cong, of ST_arch] config_defaults_def
      quiet_tick_def [THEN arg_cong, of TE_cancelled] quiet_tick_def [THEN arg_cong, of TE_poll] split_beta Let_def)
  moreover have "\<not> has_key (?p ?dm) weeklyStateID (ISOWeekKey 0)"
    using runOnePoll_frame [of ?dm weeklyStateID AMD64 "\<lambda>_. quiet_env"] ok
    by (simp add: has_key_def ids_ok_def) (simp add: fresh_daemon_def slo_runner_def slo35_def state_ids state_of_def GetState_def empty_store_def)
  ultimately have "keys_of Weekly tr = [ISOWeekKey 0] \<or> keys_of Weekly tr = [ISOWeekKey 0, ISOWeekKey 0]" unfolding k by auto
  then have "keys_of Weekly tr = [ISOWeekKey 0]" using once by auto
  then show ?thesis using r by blast
qed

subsection \<open>The digest reports what changed\<close>

lemma set_changes: "set (changes ks old cur) = {change_line (i, x, y) |i x y. i \<in> set ks \<and> old i = Some x \<and> cur i = Some y \<and> x \<noteq> y}"
  by (auto simp: changes_def image_iff split: option.splits if_splits) (metis option.distinct(1) option.inject)+

lemma changes_order: "iter_order cur ks \<Longrightarrow> iter_order cur ls \<Longrightarrow> changes ks old cur = changes ls old cur"
proof -
  assume "iter_order cur ks" "iter_order cur ls"
  then have "mset ks = mset ls" by (rule iter_order_mset)
  then have "mset (concat (map f ks)) = mset (concat (map f ls))" for f :: "string \<Rightarrow> (string \<times> string \<times> string) list"
    by (metis mset_concat mset_map image_mset_cong sum_mset_sum_list)
  then show ?thesis unfolding changes_def by (intro properties_for_sort) (auto intro!: image_mset_cong arg_cong [where f = "image_mset _"])
qed

text \<open>
  Claim C29. A digest reports exactly what changed since the last one that was accepted: its list is sorted and has one line for each sensor
  whose state then and now differ, whatever the order in which the map is visited, and none for sensors that are new or gone.
\<close>

theorem digest_reports_changes:
  assumes "maybeDailyDigest st env now dm = (Some k, dm1)" "state_of (DM_store dm2) digestSnapID = state_of (DM_store dm1) digestSnapID"
    and "SC_dec (ST_codec st) (SC_enc (ST_codec st) (current_states dm)) = Some (current_states dm)" "SC_enc (ST_codec st) (current_states dm) \<noteq> []"
    and "iter_order cur ks"
  shows "sorted (digestChanges st ks cur dm2)
    \<and> set (digestChanges st ks cur dm2) = {change_line (i, x, y) |i x y. current_states dm i = Some x \<and> cur i = Some y \<and> x \<noteq> y}"
proof -
  have "state_of (DM_store dm1) digestSnapID = Some (SC_enc (ST_codec st) (current_states dm))"
    using assms(1) by (auto simp: maybeDailyDigest_def Let_def kv_set state_ids split: if_splits option.splits prod.splits sum.splits)
  then have "digestChanges st ks cur dm2 = changes ks (current_states dm) cur" using assms(2-4) by (simp add: digestChanges_def)
  then show ?thesis using assms(5) by (auto simp: set_changes iter_order_mem) (simp add: changes_def)
qed

lemma state_of_empty: "state_of empty_store i = None"
  by (simp add: state_of_def GetState_def empty_store_def)

definition seen_daemon :: daemon where
  "seen_daemon = (fresh_daemon [slo_runner slo35])\<lparr>DM_store := mark 0 0 ''api'' ''healthy'' empty_store\<rparr>"

lemma seen_current: "current_states seen_daemon = [''api'' \<mapsto> ''healthy'']"
  by (simp add: current_states_def eachState_def seen_daemon_def fresh_daemon_def slo_runner_def slo35_def mark_def SetState_def GetState_def
      empty_store_def Let_def List.map_filter_def)

theorem digest_reports_changes_witness:
  "\<exists>dm1. maybeDailyDigest (plain_settings\<lparr>ST_codec := \<lparr>SC_enc = \<lambda>_. ''x'', SC_dec = \<lambda>_. Some [''api'' \<mapsto> ''healthy'']\<rparr>\<rparr>)
      \<lparr>DE_ord = [''api''], DE_wall = 0, DE_send = \<lambda>_. Inr ()\<rparr> (10 * hour) seen_daemon = (Some (day_key (civil (10 * hour))), dm1)
     \<and> set (digestChanges (plain_settings\<lparr>ST_codec := \<lparr>SC_enc = \<lambda>_. ''x'', SC_dec = \<lambda>_. Some [''api'' \<mapsto> ''healthy'']\<rparr>\<rparr>) [''api'']
             [''api'' \<mapsto> ''critical''] dm1) = {change_line (''api'', ''healthy'', ''critical'')}"
proof -
  let ?st = "plain_settings\<lparr>ST_codec := \<lparr>SC_enc = \<lambda>_. ''x'', SC_dec = \<lambda>_. Some [''api'' \<mapsto> ''healthy'']\<rparr>\<rparr>"
  let ?env = "\<lparr>DE_ord = [''api''], DE_wall = 0, DE_send = \<lambda>_. Inr ()\<rparr> :: digest_io"
  have nine: "parseDigestTime ''09:00'' = Some (9, 0)"
    by (simp add: parseDigestTime_def Atoi_def is_digit_def digit_val_def i64_def Let_def)
  obtain y m d where c: "civil (10 * hour) = (y, m, d)" by (metis prod_cases3)
  have "date_time y m d = 0"
    by (rule civil_exists [of 0]) (use c in \<open>auto simp: civil_def day_number_def date_time_def\<close>)
  moreover have "\<not> has_key seen_daemon digestStateID k" for k
    by (simp add: has_key_def seen_daemon_def kv_set state_ids state_of_empty)
  ultimately have "fst (maybeDailyDigest ?st ?env (10 * hour) seen_daemon) = Some (day_key (civil (10 * hour)))"
    using c nine by (simp add: maybeDailyDigest_def plain_settings_def config_defaults_def Let_def)
  then obtain dm1 where r: "maybeDailyDigest ?st ?env (10 * hour) seen_daemon = (Some (day_key (civil (10 * hour))), dm1)"
    by (metis fst_conv surj_pair)
  have "iter_order [''api'' \<mapsto> ''critical''] [''api'']" by (simp add: iter_order_def)
  from digest_reports_changes [OF r refl _ _ this] have "set (digestChanges ?st [''api''] [''api'' \<mapsto> ''critical''] dm1)
      = {change_line (''api'', ''healthy'', ''critical'')}"
    by (simp add: seen_current)
  then show ?thesis using r by blast
qed

text \<open>The same for a whole process, from the set-up of its sensors on.\<close>

lemma Run_run:
  assumes "list_all (event_ok st) evs" "ids_ok dm" "env_ok st ue" "Run st pr ue poll cancelled we evs ps dm = (tr, status, ps', dm')"
  shows "kv.job_run (job_id j) (DM_store dm) (keys_of j tr) (DM_store dm')"
proof -
  obtain r dm1 where r: "reload_sensors st ue dm = (r, dm1)" by force
  note f = reload_frame [OF assms(3,2) r]
  show ?thesis
  proof (cases r)
    case (Inl e)
    then show ?thesis using assms(4) r f by (auto simp: Run_def intro: kv.job_run.idle)
  next
    case (Inr u)
    define dm2 where "dm2 = (case load_catalog st ue of Inl _ \<Rightarrow> dm1 | Inr (cat, _) \<Rightarrow> dm1\<lparr>DM_catalog := Some cat\<rparr>)"
    define dm3 where "dm3 = dm2\<lparr>DM_tracker := Some (restore_tracker (ST_arch st) (DM_store dm2))\<rparr>"
    define dm4 where "dm4 = snd (runOnePoll (ST_arch st) poll dm3)"
    have d3: "ids_ok dm3" "DM_store dm3 = DM_store dm" using f by (auto simp: dm3_def dm2_def ids_ok_def split: sum.splits prod.splits)
    then have g: "ids_ok dm4" "state_of (DM_store dm4) (job_id j) = state_of (DM_store dm) (job_id j)"
      using poll_frame [OF _ job_id_reserved, of dm3 "ST_arch st" poll] by (simp_all add: dm4_def)
    have e: "(if WasteScanIntervalSec (ST_cfg st) > 0 \<and> NewTicker_panics (WasteScanIntervalSec (ST_cfg st)) then ([], Crashed, ps, dm3)
        else if NewTicker_panics (PollIntervalSec (ST_cfg st)) then ([], Crashed, ps, dm3)
        else if cancelled then ([], Stopped, ps, dm4) else (case runWasteScan st pr we ps dm4 of
          (ps, Inl e) \<Rightarrow> ([], Crashed, ps, dm4) | (ps, Inr (sent, dm)) \<Rightarrow> select_loop st pr evs ps dm)) = (tr, status, ps', dm')"
      using assms(4) unfolding Run_def r Inr prod.case sum.case Let_def dm4_def dm3_def dm2_def .
    obtain ps1 q where w: "runWasteScan st pr we ps dm4 = (ps1, q)" by force
    consider "tr = []" "dm' = dm3" | "tr = []" "dm' = dm4" | sent dm5 where "q = Inr (sent, dm5)" "select_loop st pr evs ps1 dm5 = (tr, status, ps', dm')"
      using e w by (cases q) (auto split: if_splits)
    then show ?thesis
    proof cases
      case 1
      then show ?thesis using d3 by (auto intro: kv.job_run.idle)
    next
      case 2
      then show ?thesis using g by (auto intro: quiet_run kv.job_run.idle)
    next
      case (3 sent dm5)
      note h = runWasteScan_frame [OF w [unfolded 3(1)], of "job_id j"]
      then have "ids_ok dm5" using g(1) by (simp add: ids_ok_def)
      from select_loop_run [OF assms(1) this 3(2), of j] show ?thesis using quiet_run h g(2) by metis
    qed
  qed
qed

subsection \<open>Crashes\<close>

text \<open>
  Disabling the waste scan crashes the daemon: with a scan interval of zero (the documented way to switch it off) there is no ticker,
  and entering the main loop reads a field of a nil pointer, so after its first round the daemon dies, whatever happens.
\<close>

lemma Run_disabled_panics:
  assumes "WasteScanIntervalSec (ST_cfg st) \<le> 0" "fst (reload_sensors st ue dm) = Inr ()"
  shows "fst (snd (Run st pr ue poll False we evs ps dm)) = Crashed"
  using assms by (auto simp: Run_def runWasteScan_def select_loop.simps Let_def split: sum.splits prod.splits option.splits if_splits)

definition no_defs :: setup_env where
  "no_defs = \<lparr>UE_fs = \<lparr>Stat = \<lambda>_. NotExist, ReadDir = \<lambda>_. Inr [], ReadFile = \<lambda>_. Inr []\<rparr>, UE_caps = \<lambda>_. Inr [], UE_slos = \<lambda>_. Inr [],
     UE_rules = \<lambda>_. Inr [], UE_walk = \<lambda>_. [], UE_promtool = None, UE_now = 0\<rparr>"

definition no_waste :: "unit waste_env" where
  "no_waste = \<lparr>SE_src = two_samples, SE_now = 0, SE_wall = 0, SE_float = \<lambda>_. None, SE_attrs = \<lambda>_. None, SE_ord = \<lambda>_. [], SE_send = \<lambda>_. Inr ()\<rparr>"

lemma Run_disabled_panics_witness:
  "fst (snd (Run (plain_settings\<lparr>ST_cfg := applyWasteEnvOverride ''off'' config_defaults\<rparr>) None no_defs (\<lambda>_. quiet_env) False no_waste
      [PollTick quiet_tick] () (fresh_daemon []))) = Crashed"
  by (rule Run_disabled_panics)
     (simp_all add: applyWasteEnvOverride_def reload_sensors_def setupSensors_def no_defs_def LoadDefs_def load_defs_def def_paths_def
       specLoadAll_def Load_def)

lemma scan_rule_nil:
  assumes "rule_holds src now r" "map_get (Labels r) ''sentinel_price_family'' \<noteq> []"
    "map_get (Labels r) ''sentinel_price_attrs'' = [] \<or> jd (map_get (Labels r) ''sentinel_price_attrs'') \<noteq> None"
  shows "snd (scan_rule a sf jd src (Some (iface_pricer None)) now r s) = Inl Panic"
  using assms by (auto simp: scan_rule_def rule_holds_code applyPricing_def iface_pricer_def Let_def split: sum.splits)

lemma scan_rule_error: "snd (scan_rule a sf jd src pr now r s) = Inl e \<Longrightarrow> e = Panic"
  by (auto simp: scan_rule_def applyPricing_def Let_def split: if_splits sum.splits gerr.splits option.splits prod.splits)

lemma scan_rules_nil:
  assumes "\<And>s. snd (scan_rule a sf jd src pr now r s) = Inl Panic"
  shows "r \<in> set rs \<Longrightarrow> snd (scan_rules a sf jd src pr now rs s) = Inl Panic"
proof (induction rs arbitrary: s)
  case (Cons q rs)
  obtain s1 x where q: "scan_rule a sf jd src pr now q s = (s1, x)" by force
  show ?case
  proof (cases x)
    case (Inl e)
    then show ?thesis using q scan_rule_error [of a sf jd src pr now q s e] by simp
  next
    case (Inr cs)
    then have "r \<noteq> q" using q assms(1) [of s] by auto
    then show ?thesis using Cons q Inr by (auto simp: split_beta Let_def)
  qed
qed simp

text \<open>
  Claim C30. Without a price catalog the first priced finding crashes the daemon: the nil catalog is wrapped into an interface value that is not
  nil, so the scanner does not leave the amount empty but asks it for a price, and nothing recovers the panic.
\<close>

theorem runWasteScan_nil_pricer:
  assumes "DM_catalog dm = Some cat" "DM_tracker dm \<noteq> None" "0 < WasteScanIntervalSec (ST_cfg st)" "r \<in> set (RulesOfKind cat KindWaste)"
    and "rule_holds (SE_src env) (SE_now env) r" "map_get (Labels r) ''sentinel_price_family'' \<noteq> []"
    and "map_get (Labels r) ''sentinel_price_attrs'' = [] \<or> SE_attrs env (map_get (Labels r) ''sentinel_price_attrs'') \<noteq> None"
  shows "snd (runWasteScan st None env ps dm) = Inl Panic"
proof -
  have "snd (scan_rule (ST_arch st) (SE_float env) (SE_attrs env) (SE_src env) (Some (iface_pricer None)) (SE_now env) r s) = Inl Panic" for s
    by (rule scan_rule_nil [where jd = "SE_attrs env", OF assms(5,6,7)])
  from scan_rules_nil [OF this assms(4)] obtain p where "scan_rules (ST_arch st) (SE_float env) (SE_attrs env) (SE_src env)
      (Some (iface_pricer None)) (SE_now env) (RulesOfKind cat KindWaste) ps = (p, Inl Panic)" by (metis prod.collapse)
  then show ?thesis using assms(1-3) by (auto simp: runWasteScan_def Scan_def)
qed

definition priced_rule :: rule where
  "priced_rule = idle_rule\<lparr>Labels := [''sentinel_kind'' \<mapsto> ''waste'', ''sentinel_price_family'' \<mapsto> ''ec2'']\<rparr>"

definition priced_catalog :: catalog where
  "priced_catalog = \<lparr>Groups = [\<lparr>GName = ''g'', GRules = [priced_rule]\<rparr>], Version = [], LoadedAt = 0\<rparr>"

theorem runWasteScan_nil_pricer_witness:
  "snd (runWasteScan plain_settings None (no_waste\<lparr>SE_src := nan_source\<rparr>) ()
     ((fresh_daemon [])\<lparr>DM_catalog := Some priced_catalog, DM_tracker := Some NewTracker\<rparr>)) = Inl Panic"
  by (rule runWasteScan_nil_pricer [where r = priced_rule and cat = priced_catalog])
     (simp_all add: plain_settings_def config_defaults_def priced_catalog_def RulesOfKind_def rule_holds_def nan_source_def holds_throughout_def map_get_def
       priced_rule_def idle_rule_def)

subsection \<open>With a scan interval and a price catalog\<close>

definition waste_src_ok :: "'s event \<Rightarrow> bool" where
  "waste_src_ok e = (case e of WasteTick we \<Rightarrow> source_ok (SE_src we) | _ \<Rightarrow> True)"

context safe_pricer
begin

lemma runWasteScan_ok:
  assumes "source_ok (SE_src we)"
  shows "\<exists>ps' x. runWasteScan st (Some quote) we ps dm = (ps', Inr x)"
proof (cases "DM_catalog dm")
  case (Some cat)
  obtain s' cs where "scan_rules (ST_arch st) (SE_float we) (SE_attrs we) (SE_src we) (Some quote) (SE_now we) (RulesOfKind cat KindWaste) ps = (s', Inr cs)"
    using scan_rules_ok [OF assms] by blast
  then show ?thesis using Some by (auto simp: runWasteScan_def iface_pricer_def Scan_def split: option.splits prod.splits)
qed (simp add: runWasteScan_def)

lemma select_loop_ok:
  "0 < WasteScanIntervalSec (ST_cfg st) \<Longrightarrow> list_all waste_src_ok evs \<Longrightarrow> fst (snd (select_loop st (Some quote) evs ps dm)) \<noteq> Crashed"
proof (induction evs arbitrary: ps dm)
  case Nil
  then show ?case by (simp add: select_loop.simps)
next
  case (Cons e evs)
  have IH: "fst (snd (select_loop st (Some quote) evs ps dm)) \<noteq> Crashed" for ps dm using Cons by simp
  show ?case
  proof (cases e)
    case (WasteTick we)
    obtain ps' sent dm' where "runWasteScan st (Some quote) we ps dm = (ps', Inr (sent, dm'))"
      using runWasteScan_ok [of we st ps dm] Cons.prems(2) WasteTick by (auto simp: waste_src_ok_def)
    then have "select_loop st (Some quote) (e # evs) ps dm = select_loop st (Some quote) evs ps' dm'"
      using Cons.prems(1) WasteTick by (subst select_loop.simps) simp
    then show ?thesis using IH by simp
  qed (subst select_loop.simps, use Cons.prems(1) IH in \<open>simp add: split_beta Let_def\<close>)+
qed

lemma Run_crash:
  assumes "source_ok (SE_src we)" "list_all waste_src_ok evs"
  shows "fst (snd (Run st (Some quote) ue poll cancelled we evs ps dm)) = Crashed \<longleftrightarrow> fst (reload_sensors st ue dm) = Inr () \<and>
    (0 < WasteScanIntervalSec (ST_cfg st) \<and> NewTicker_panics (WasteScanIntervalSec (ST_cfg st)) \<or> NewTicker_panics (PollIntervalSec (ST_cfg st))
     \<or> WasteScanIntervalSec (ST_cfg st) \<le> 0 \<and> \<not> cancelled)"
proof -
  obtain r dm1 where r: "reload_sensors st ue dm = (r, dm1)" by force
  have "fst (snd (case runWasteScan st (Some quote) we ps dm2 of (ps, Inl e) \<Rightarrow> ([], Crashed, ps, dm2)
      | (ps, Inr (sent, dm)) \<Rightarrow> select_loop st (Some quote) evs ps dm)) = Crashed \<longleftrightarrow> WasteScanIntervalSec (ST_cfg st) \<le> 0" for dm2
  proof -
    obtain ps1 sent dm3 where w: "runWasteScan st (Some quote) we ps dm2 = (ps1, Inr (sent, dm3))" using runWasteScan_ok [OF assms(1)] by fast
    have "fst (snd (select_loop st (Some quote) evs ps1 dm3)) = Crashed \<longleftrightarrow> WasteScanIntervalSec (ST_cfg st) \<le> 0"
    proof
      show "WasteScanIntervalSec (ST_cfg st) \<le> 0 \<Longrightarrow> fst (snd (select_loop st (Some quote) evs ps1 dm3)) = Crashed"
        by (subst select_loop.simps) simp
    qed (use select_loop_ok [OF _ assms(2)] in force)
    then show ?thesis using w by simp
  qed
  then show ?thesis using r by (cases r) (auto simp: Run_def Let_def)
qed

end

lemma ticker_range: "0 < sec \<Longrightarrow> sec \<le> 9223372036 \<Longrightarrow> \<not> NewTicker_panics sec"
  using wrap64_id [of "sec * second"] by (simp add: NewTicker_panics_def i64_def)



subsection \<open>Waste entries across a restart\<close>

text \<open>
  Entries that the table refuses, and entries that it keeps exactly: whole seconds between two reminders and times that a text can hold.
\<close>

definition refused :: "tentry \<Rightarrow> bool" where
  "refused e \<longleftrightarrow> Te_Sensor e = [] \<or> Te_Resource e = [] \<or> Te_Renotify e \<le> 0 \<or> Te_PerDay e = NaN \<or> Te_Total e = NaN"

definition storable :: "tentry \<Rightarrow> bool" where
  "storable e \<longleftrightarrow> \<not> refused e \<and> Te_Renotify e mod second = 0 \<and> Te_Renotify e < 2 ^ 63 \<and> year4 (Te_FirstSeen e) \<and> \<not> IsZero (Te_FirstSeen e)
     \<and> year4 (Te_LastNotified e) \<and> (\<not> IsZero (Te_DismissUntil e) \<longrightarrow> year4 (Te_DismissUntil e))"

definition entry_pair :: "tentry \<Rightarrow> string \<times> string" where
  "entry_pair e = (Te_Sensor e, Te_Resource e)"

definition pair_key :: "string \<times> string \<Rightarrow> string" where
  "pair_key p = fst p @ ''/'' @ snd p"

definition entry_cols :: "tentry \<Rightarrow> waste_cols" where
  "entry_cols e =
     \<lparr>w_reason = Te_Reason e, w_state = Te_State e, w_first = fmt_nano (Te_FirstSeen e), w_last = fmt_nano (Te_LastNotified e),
      w_renotify = Some (dur_Seconds (Te_Renotify e)), w_perday = Some (Te_PerDay e), w_total = Some (Te_Total e),
      w_dreason = Te_DismissReason e, w_duntil = (if IsZero (Te_DismissUntil e) then [] else fmt_nano (Te_DismissUntil e))\<rparr>"

text \<open>The row that is written for an entry, if one is; it does not depend on the table.\<close>

definition entry_row :: "time \<Rightarrow> tentry \<Rightarrow> waste_cols option" where
  "entry_row wall e = (case SetWasteEntry wall (entryToStore e) empty_store of Inl _ \<Rightarrow> None | Inr s \<Rightarrow> map_of (T_waste s) (entry_pair e))"

lemma SetWasteEntry_row: "or_log s (SetWasteEntry wall (entryToStore e) s) =
    (case entry_row wall e of None \<Rightarrow> s | Some c \<Rightarrow> s\<lparr>T_waste := AList.update (entry_pair e) c (T_waste s)\<rparr>)"
  by (simp add: SetWasteEntry_def entry_row_def or_log_def empty_store_def entry_pair_def entryToStore_def Let_def)

lemma entry_row_refused: "refused e \<Longrightarrow> entry_row wall e = None"
  by (auto simp: SetWasteEntry_def entry_row_def refused_def entryToStore_def sql_real_def Let_def)

lemma storable_seconds: "storable e \<Longrightarrow> dur_Seconds (Te_Renotify e) \<noteq> NaN"
  using renotify_read(1) [of "Te_Renotify e"] by (simp add: storable_def refused_def)

lemma entry_row_storable: "storable e \<Longrightarrow> entry_row wall e = Some (entry_cols e)"
  using storable_seconds [of e]
  by (simp add: SetWasteEntry_def entry_row_def storable_def refused_def entryToStore_def entry_pair_def entry_cols_def empty_store_def sql_real_def Let_def)

lemma SetWasteEntry_stored: "storable e \<Longrightarrow> SetWasteEntry wall (entryToStore e) s = Inr (s\<lparr>T_waste := AList.update (entry_pair e) (entry_cols e) (T_waste s)\<rparr>)"
  using storable_seconds [of e]
  by (simp add: SetWasteEntry_def entryToStore_def storable_def refused_def entry_pair_def entry_cols_def sql_real_def Let_def)

lemma entry_of_row_pair: "entry_pair (entry_of_store (scan_waste a (p, c))) = p"
  by (cases p) (simp add: entry_pair_def entry_of_store_def scan_waste_def)

lemma entry_key_pair: "entry_key e = pair_key (entry_pair e)"
  by (simp add: entry_pair_def entry_key_def pair_key_def)

lemma scan_stored: "storable e \<Longrightarrow> entry_of_store (scan_waste a (entry_pair e, entry_cols e)) = e"
  using renotify_read(2) [where d = "Te_Renotify e" and a = a]
  by (cases e) (auto simp: entry_of_store_def scan_waste_def entry_pair_def entry_cols_def storable_def refused_def read_fmt fmt_nano_Cons coalesce0_def IsZero_def)

subsection \<open>The table after entries were written back\<close>

lemma persist_rows: "T_waste (persistWasteEntries wall es s) =
    foldl (\<lambda>m e. case entry_row wall e of None \<Rightarrow> m | Some c \<Rightarrow> AList.update (entry_pair e) c m) (T_waste s) es"
  unfolding persistWasteEntries_def by (induction es arbitrary: s) (simp_all add: SetWasteEntry_row split: option.split)

lemma persist_keys:
  "distinct (map fst (T_waste s)) \<Longrightarrow> distinct (map fst (T_waste (persistWasteEntries wall es s)))"
  "fst ` set (T_waste (persistWasteEntries wall es s)) \<subseteq> fst ` set (T_waste s) \<union> entry_pair ` set es"
proof -
  show "distinct (map fst (T_waste s)) \<Longrightarrow> distinct (map fst (T_waste (persistWasteEntries wall es s)))"
    unfolding persist_rows by (induction es rule: rev_induct) (auto simp: distinct_update split: option.split)
  show "fst ` set (T_waste (persistWasteEntries wall es s)) \<subseteq> fst ` set (T_waste s) \<union> entry_pair ` set es"
    unfolding persist_rows by (induction es rule: rev_induct) (auto simp: update_conv' simp flip: dom_map_of_conv_image_fst split: option.splits)
qed

lemma persist_other: "p \<notin> entry_pair ` set es \<Longrightarrow> map_of (T_waste (persistWasteEntries wall es s)) p = map_of (T_waste s) p"
  unfolding persist_rows by (induction es rule: rev_induct) (auto simp: update_conv' split: option.splits)

lemma persist_own:
  "inj_on entry_pair (set es) \<Longrightarrow> e \<in> set es \<Longrightarrow> map_of (T_waste (persistWasteEntries wall es s)) (entry_pair e) =
     (case entry_row wall e of None \<Rightarrow> map_of (T_waste s) (entry_pair e) | Some c \<Rightarrow> Some c)"
proof (induction es rule: rev_induct)
  case (snoc x es)
  have step: "T_waste (persistWasteEntries wall (es @ [x]) s) = (case entry_row wall x of None \<Rightarrow> T_waste (persistWasteEntries wall es s)
      | Some c \<Rightarrow> AList.update (entry_pair x) c (T_waste (persistWasteEntries wall es s)))" by (simp add: persist_rows split: option.split)
  have inj: "inj_on entry_pair (set es)" using snoc.prems(1) by (auto simp: inj_on_def)
  show ?case
  proof (cases "e \<in> set es")
    case True
    have "entry_pair x \<noteq> entry_pair e \<or> x = e" using snoc.prems by (auto simp: inj_on_def)
    then show ?thesis using snoc.IH [OF inj True] by (auto simp: step update_conv' split: option.splits)
  next
    case False
    then have x: "x = e" using snoc.prems(2) by simp
    then have "entry_pair e \<notin> entry_pair ` set es" using snoc.prems False by (auto simp: inj_on_def)
    then show ?thesis using persist_other [of "entry_pair e" es wall s] step unfolding x by (simp add: update_conv' split: option.split)
  qed
qed simp

subsection \<open>The tracker of the next process\<close>

lemma foldl_inj_upd:
  "inj_on p (set es) \<Longrightarrow> e \<in> set es \<Longrightarrow> foldl (\<lambda>f e. f(p e \<mapsto> c e)) f es (p e) = Some (c e)"
proof (induction es arbitrary: f rule: rev_induct)
  case (snoc x es)
  show ?case
  proof (cases "p x = p e")
    case True
    then have "x = e" using snoc.prems by (auto simp: inj_on_def)
    then show ?thesis by simp
  next
    case False
    then have "e \<in> set es" "inj_on p (set es)" using snoc.prems by (auto simp: inj_on_def)
    then show ?thesis using snoc.IH False by simp
  qed
qed simp

lemma foldl_upd_other: "q \<notin> p ` set es \<Longrightarrow> foldl (\<lambda>f e. f(p e \<mapsto> c e)) f es q = f q"
  by (induction es arbitrary: f) auto

text \<open>Each row of the table is the last state of an entry that the tracker holds under the same sensor and resource.\<close>

definition kept :: "(string \<rightharpoonup> tentry) \<Rightarrow> store \<Rightarrow> bool" where
  "kept m s \<longleftrightarrow> entries_ok m \<and> distinct (map fst (T_waste s)) \<and> (\<forall>p \<in> fst ` set (T_waste s). \<exists>e. m (pair_key p) = Some e \<and> entry_pair e = p)"

lemma kept_inj: "kept m s \<Longrightarrow> inj_on pair_key (fst ` set (T_waste s))"
  unfolding kept_def inj_on_def by (metis option.sel)

lemma restored_row:
  assumes "distinct (map fst (T_waste s))" "inj_on pair_key (fst ` set (T_waste s))"
  shows "map_of (T_waste s) p = Some c \<Longrightarrow> entries (restore_tracker a s) (pair_key p) = Some (entry_of_store (scan_waste a (p, c)))"
    and "k \<notin> pair_key ` fst ` set (T_waste s) \<Longrightarrow> entries (restore_tracker a s) k = None"
proof -
  define L where "L = entriesFromStore (AllWasteEntries a s)"
  have L: "set L = (\<lambda>r. entry_of_store (scan_waste a r)) ` set (T_waste s)"
    by (simp add: L_def entriesFromStore_def AllWasteEntries_def image_image)
  have r: "entries (restore_tracker a s) = foldl (\<lambda>m e. m(entry_key e \<mapsto> e)) Map.empty L"
    by (simp add: restore_tracker_def Restore_def NewTracker_def L_def)
  have key: "entry_key (entry_of_store (scan_waste a r)) = pair_key (fst r)" for r
    using entry_of_row_pair [of a "fst r" "snd r"] by (simp add: entry_key_pair)
  have "inj_on entry_key (set L)"
  proof (rule inj_onI)
    fix x y assume "x \<in> set L" "y \<in> set L" and k: "entry_key x = entry_key y"
    then obtain p q where pq: "p \<in> set (T_waste s)" "x = entry_of_store (scan_waste a p)" "q \<in> set (T_waste s)" "y = entry_of_store (scan_waste a q)"
      unfolding L by blast
    then have "fst p = fst q" using k assms(2) by (auto simp: key inj_on_def)
    then have "p = q" using pq(1,3) assms(1) by (auto simp: distinct_map inj_on_def)
    then show "x = y" using pq by simp
  qed
  from foldl_inj_upd [OF this] have u: "e \<in> set L \<Longrightarrow> entries (restore_tracker a s) (entry_key e) = Some e" for e unfolding r .
  show "entries (restore_tracker a s) (pair_key p) = Some (entry_of_store (scan_waste a (p, c)))" if "map_of (T_waste s) p = Some c"
  proof -
    have "entry_of_store (scan_waste a (p, c)) \<in> set L" unfolding L using map_of_SomeD [OF that] by blast
    from u [OF this] show ?thesis by (simp add: key)
  qed
  show "entries (restore_tracker a s) k = None" if "k \<notin> pair_key ` fst ` set (T_waste s)"
  proof -
    have "k \<notin> entry_key ` set L" using that by (auto simp: L key image_image)
    then show ?thesis unfolding r using foldl_upd_other [of k entry_key L "\<lambda>e. e" Map.empty] by simp
  qed
qed

lemma Entries_inj: "entries_ok (entries t) \<Longrightarrow> iter_order (entries t) ks \<Longrightarrow> set (Entries ks t) = ran (entries t) \<and> inj_on entry_key (set (Entries ks t))"
proof -
  assume ok: "entries_ok (entries t)" "iter_order (entries t) ks"
  then have "set (Entries ks t) = ran (entries t)"
    by (auto simp: Entries_def iter_order_def ran_def image_iff) (metis domI option.sel)+
  moreover have "inj_on entry_key (ran (entries t))" using ok(1) by (auto simp: inj_on_def ran_def entries_ok_def)
  ultimately show ?thesis by simp
qed

lemma kept_persist:
  assumes "kept (entries t) s" "iter_order (entries t) ks"
  shows "kept (entries t) (persistWasteEntries wall (Entries ks t) s)"
proof -
  have ok: "entries_ok (entries t)" using assms(1) by (simp add: kept_def)
  have "\<exists>e. entries t (pair_key p) = Some e \<and> entry_pair e = p" if "p \<in> fst ` set (T_waste (persistWasteEntries wall (Entries ks t) s))" for p
  proof (cases "p \<in> fst ` set (T_waste s)")
    case False
    then have "p \<in> entry_pair ` set (Entries ks t)" using that persist_keys(2) [of wall "Entries ks t" s] by blast
    then obtain e where "e \<in> ran (entries t)" "entry_pair e = p" using Entries_inj [OF ok assms(2)] by blast
    then show ?thesis using ok by (auto simp: ran_def entries_ok_def entry_key_pair)
  qed (use assms(1) in \<open>unfold kept_def, blast\<close>)
  then show ?thesis using assms(1) persist_keys(1) by (simp add: kept_def)
qed

lemma restored_persist:
  assumes "kept (entries t) s" "iter_order (entries t) ks"
  shows "entries t k = None \<Longrightarrow> entries (restore_tracker a (persistWasteEntries wall (Entries ks t) s)) k = None"
    and "entries t k = Some e \<Longrightarrow> storable e \<Longrightarrow> entries (restore_tracker a (persistWasteEntries wall (Entries ks t) s)) k = Some e"
    and "entries t k = Some e \<Longrightarrow> refused e \<Longrightarrow>
      entries (restore_tracker a (persistWasteEntries wall (Entries ks t) s)) k = entries (restore_tracker a s) k"
proof -
  let ?s = "persistWasteEntries wall (Entries ks t) s"
  have ok: "entries_ok (entries t)" "distinct (map fst (T_waste s))" using assms(1) by (simp_all add: kept_def)
  note E = Entries_inj [OF ok(1) assms(2)]
  have inj: "inj_on entry_pair (set (Entries ks t))" using E by (auto simp: inj_on_def entry_key_pair)
  note K = kept_persist [OF assms, of wall]
  note R = restored_row [OF persist_keys(1) [OF ok(2), of wall "Entries ks t"] kept_inj [OF K], where a = a]
  note R0 = restored_row [OF ok(2) kept_inj [OF assms(1)], where a = a]
  show "entries (restore_tracker a ?s) k = None" if "entries t k = None"
  proof (rule R(2))
    show "k \<notin> pair_key ` fst ` set (T_waste ?s)" using K that unfolding kept_def by force
  qed
  assume k: "entries t k = Some e"
  then have e: "e \<in> set (Entries ks t)" "pair_key (entry_pair e) = k"
    using ok(1) E by (auto simp: ran_def entries_ok_def entry_key_pair)
  note P = persist_own [OF inj e(1), of wall s]
  show "storable e \<Longrightarrow> entries (restore_tracker a ?s) k = Some e"
    using R(1) [of "entry_pair e"] P entry_row_storable [of e wall] scan_stored [where e = e and a = a] e(2) by simp
  assume "refused e"
  then have P': "map_of (T_waste ?s) (entry_pair e) = map_of (T_waste s) (entry_pair e)" using P entry_row_refused by simp
  show "entries (restore_tracker a ?s) k = entries (restore_tracker a s) k"
  proof (cases "map_of (T_waste s) (entry_pair e)")
    case None
    have "k \<notin> pair_key ` fst ` set (T_waste s')" if "kept (entries t) s'" "map_of (T_waste s') (entry_pair e) = None" for s'
    proof
      note kept = that(1)
      assume "k \<in> pair_key ` fst ` set (T_waste s')"
      then obtain p where p: "p \<in> fst ` set (T_waste s')" "k = pair_key p" by blast
      then obtain e' where "entries t k = Some e'" "entry_pair e' = p" using kept unfolding kept_def by blast
      then show False using p that(2) k by (simp add: map_of_eq_None_iff)
    qed
    then show ?thesis using R(2) [of k] R0(2) [of k] K assms(1) None P' by metis
  next
    case (Some c)
    then show ?thesis using R(1) [of "entry_pair e" c] R0(1) [of "entry_pair e" c] P' e(2) by simp
  qed
qed

subsection \<open>The life of the waste list\<close>

text \<open>
  A tracker and its table from the first start of the daemon on: scans, entries written back, what others write to the table without adding or
  removing rows (other tables, the waste commands), and restarts.
\<close>

inductive waste_life :: "tracker \<Rightarrow> store \<Rightarrow> bool" where
  start: "waste_life NewTracker empty_store"
| scan: "waste_life t s \<Longrightarrow> Observe c now t = (t', r) \<Longrightarrow> waste_life t' s"
| persist: "waste_life t s \<Longrightarrow> iter_order (entries t) ks \<Longrightarrow> waste_life t (persistWasteEntries wall (Entries ks t) s)"
| others: "waste_life t s \<Longrightarrow> map fst (T_waste s') = map fst (T_waste s) \<Longrightarrow> waste_life t s'"
| restart: "waste_life t s \<Longrightarrow> waste_life (restore_tracker a s) s"

text \<open>An observation keeps the sensor and the resource of every entry and puts none aside.\<close>

lemma Observe_entry:
  assumes "Observe c now t = (t', r)" "entries t k = Some e"
  shows "\<exists>e'. entries t' k = Some e' \<and> entry_pair e' = entry_pair e \<and> (Te_State e \<noteq> LifecycleDismissed \<longrightarrow> Te_State e' \<noteq> LifecycleDismissed)"
proof (cases "cand_key c = k")
  case True
  then show ?thesis using assms by (auto simp: Observe_def observe_entry_def entry_pair_def Let_def split: prod.splits if_splits)
qed (use Observe_other [OF _ assms(1)] assms(2) in simp)

lemma kept_Observe: "kept (entries t) s \<Longrightarrow> Observe c now t = (t', r) \<Longrightarrow> kept (entries t') s"
  unfolding kept_def using Observe_entries Observe_entry by metis

lemma restore_entries_ok: "entries_ok (entries (restore_tracker a s))"
  using entries_ok_restore [of Map.empty] by (simp add: restore_tracker_def Restore_def NewTracker_def entries_ok_def)

lemma kept_restart: "kept m s \<Longrightarrow> kept (entries (restore_tracker a s)) s"
proof -
  assume k: "kept m s"
  have d: "distinct (map fst (T_waste s))" using k by (simp add: kept_def)
  have "\<exists>e. entries (restore_tracker a s) (pair_key p) = Some e \<and> entry_pair e = p" if p: "p \<in> fst ` set (T_waste s)" for p
  proof -
    obtain c where "map_of (T_waste s) p = Some c" using p by (metis map_of_eq_None_iff not_None_eq)
    then show ?thesis using restored_row(1) [OF d kept_inj [OF k]] entry_of_row_pair by blast
  qed
  then show ?thesis using d restore_entries_ok by (simp add: kept_def)
qed

lemma life_kept: "waste_life t s \<Longrightarrow> kept (entries t) s"
proof (induction rule: waste_life.induct)
  case start
  then show ?case by (simp add: kept_def NewTracker_def empty_store_def entries_ok_def)
next
  case (others t s s')
  then have "fst ` set (T_waste s') = fst ` set (T_waste s)" by (metis list.set_map)
  then show ?case using others by (simp add: kept_def)
qed (auto intro: kept_Observe kept_persist kept_restart)

text \<open>
  Claim C32. A restart keeps the waste list. At any moment of its life, with scans, restarts and other writers in any order, write the entries back and start
  a new process: an entry that the table can hold exactly is restored as it is, an entry that the table refuses (in particular one
  without a renotification period) is restored as the table held it before, if at all, and nothing else is restored. Nothing is said
  of an entry that is accepted but written with loss: one whose period is not in whole seconds or whose times are not in the years 0 to 9999.
\<close>

theorem restart_keeps_waste:
  assumes "waste_life t s" "iter_order (entries t) ks"
  shows "case entries t k of
      None \<Rightarrow> entries (restore_tracker a (persistWasteEntries wall (Entries ks t) s)) k = None
    | Some e \<Rightarrow> (storable e \<longrightarrow> entries (restore_tracker a (persistWasteEntries wall (Entries ks t) s)) k = Some e)
        \<and> (refused e \<longrightarrow> entries (restore_tracker a (persistWasteEntries wall (Entries ks t) s)) k = entries (restore_tracker a s) k)"
  using restored_persist [OF life_kept [OF assms(1)] assms(2)] by (auto split: option.split)

definition cand1 :: candidate where
  "cand1 = cand0\<lparr>SensorID := ''rds'', CRenotify := 0\<rparr>"

definition two_found :: tracker where
  "two_found = fst (Observe cand1 0 (fst (Observe cand0 0 NewTracker)))"

lemma two_found_entries: "entries two_found = [''elb/Idle'' \<mapsto> fresh_entry cand0 0, ''rds/Idle'' \<mapsto> fresh_entry cand1 0]"
  by (auto simp: two_found_def Observe_def NewTracker_def cand_key_def cand0_def cand1_def resourceKey_def map_get_def Let_def)

lemma cand0_storable: "storable (fresh_entry cand0 0)"
  using year4_0 by (simp add: fresh_entry_def cand0_def resourceKey_def map_get_def storable_def refused_def IsZero_def time_zero_def)

theorem restart_keeps_waste_witness:
  "entries (restore_tracker AMD64 (persistWasteEntries 0 (Entries [''rds/Idle'', ''elb/Idle''] two_found) empty_store)) ''elb/Idle'' = Some (fresh_entry cand0 0)
     \<and> entries (restore_tracker AMD64 (persistWasteEntries 0 (Entries [''rds/Idle'', ''elb/Idle''] two_found) empty_store)) ''rds/Idle'' = None"
proof -
  have l: "waste_life two_found empty_store"
    unfolding two_found_def by (metis waste_life.start waste_life.scan surj_pair fst_conv)
  have o: "iter_order (entries two_found) [''rds/Idle'', ''elb/Idle'']" by (auto simp: iter_order_def two_found_entries)
  have "refused (fresh_entry cand1 0)" by (simp add: refused_def fresh_entry_def cand1_def cand0_def)
  moreover have "entries (restore_tracker AMD64 empty_store) k = None" for k
    by (rule restored_row(2)) (simp_all add: empty_store_def)
  ultimately show ?thesis
    using restart_keeps_waste [OF l o, where k = "''elb/Idle''" and a = AMD64 and wall = 0] restart_keeps_waste [OF l o, where k = "''rds/Idle''" and a = AMD64 and wall = 0] cand0_storable
    by (simp add: two_found_entries)
qed

subsection \<open>A scan ignores what others wrote\<close>

lemma observe_all_entry:
  "observe_all send now cs t = (sent, t') \<Longrightarrow> entries t k = Some e \<Longrightarrow>
   \<exists>e'. entries t' k = Some e' \<and> entry_pair e' = entry_pair e \<and> (Te_State e \<noteq> LifecycleDismissed \<longrightarrow> Te_State e' \<noteq> LifecycleDismissed)"
proof (induction cs arbitrary: t e sent)
  case (Cons c cs)
  obtain t1 r where o: "Observe c now t = (t1, r)" by (metis surj_pair)
  obtain sent1 where a: "observe_all send now cs t1 = (sent1, t')" using Cons.prems(1) o by (auto simp: Let_def split: prod.splits)
  show ?case using Observe_entry [OF o Cons.prems(2)] Cons.IH [OF a] by metis
qed simp

lemma kept_observe_all: "observe_all send now cs t = (sent, t') \<Longrightarrow> kept (entries t) s \<Longrightarrow> kept (entries t') s"
proof (induction cs arbitrary: t sent)
  case (Cons c cs)
  obtain t1 r where o: "Observe c now t = (t1, r)" by (metis surj_pair)
  then show ?case using Cons.prems Cons.IH kept_Observe [OF Cons.prems(2) o] by (auto simp: Let_def split: prod.splits)
qed simp

lemma scan_rules_error: "snd (scan_rules a sf jd src pr now rs s) = Inl e \<Longrightarrow> e = Panic"
proof (induction rs arbitrary: s e)
  case (Cons r rs)
  obtain s1 x where r: "scan_rule a sf jd src pr now r s = (s1, x)" by force
  show ?case
  proof (cases x)
    case (Inl e1)
    then show ?thesis using Cons.prems r scan_rule_error [of a sf jd src pr now r s e1] by simp
  next
    case (Inr cs)
    then show ?thesis using Cons r by (cases "snd (scan_rules a sf jd src pr now rs s1)") (auto simp: split_beta Let_def)
  qed
qed simp

lemma runWasteScan_store:
  assumes "runWasteScan st pr we ps dm = (ps', Inr (sent, dm'))" "DM_catalog dm = Some cat" "DM_tracker dm = Some t" "0 < WasteScanIntervalSec (ST_cfg st)"
  obtains cs t' where "observe_all (SE_send we) (SE_now we) cs t = (sent, t')" "DM_tracker dm' = Some t'"
    "DM_store dm' = persistWasteEntries (SE_wall we) (Entries (SE_ord we t') t') (DM_store dm)"
    "\<And>s. runWasteScan st pr we ps (dm\<lparr>DM_store := s\<rparr>) = (ps', Inr (sent, dm\<lparr>DM_tracker := Some t',
        DM_store := persistWasteEntries (SE_wall we) (Entries (SE_ord we t') t') s\<rparr>))"
proof -
  obtain ps1 x where S: "Scan (ST_arch st) (SE_float we) (SE_attrs we) (SE_src we) (Some (iface_pricer pr)) cat (SE_now we) ps = (ps1, x)" by force
  show thesis
  proof (cases x)
    case (Inl e)
    then have "e = Panic" using scan_rules_error [of "ST_arch st" "SE_float we" "SE_attrs we" "SE_src we" "Some (iface_pricer pr)" "SE_now we" "RulesOfKind cat KindWaste" ps e] S
      by (simp add: Scan_def)
    then show ?thesis using assms S Inl by (simp add: runWasteScan_def)
  next
    case (Inr cs)
    obtain sent1 t' where "observe_all (SE_send we) (SE_now we) cs t = (sent1, t')" by force
    then show ?thesis using that [of cs t'] assms S Inr by (auto simp: runWasteScan_def)
  qed
qed

end
