(* ===== verification/Watch.thy ===== *)
theory Watch
  imports Daemon
begin

text \<open>
  The directory watcher behind the reloads (\<^verbatim>\<open>internal/watch/watch.go\<close>, \<^verbatim>\<open>internal/catalog/watch.go\<close>) as a labelled transition system: its
  goroutine, the debounce timer, the goroutines that the timer starts, and \<^verbatim>\<open>stop\<close>. Time passes by steps of its own, and a timer
  may fire late. What \<^verbatim>\<open>fsnotify\<close> and the file system answer is a parameter; closing an \<^verbatim>\<open>fsnotify\<close> watcher closes its channels.

  Main results: no event that the loop has received is lost (\<open>watch_delivers\<close>), which directories events can come from (\<open>Dir_watched_spec\<close>), callbacks are at least half a second apart on average over any run
  (\<open>watch_rate\<close>), and after \<^verbatim>\<open>stop\<close> only those start that had passed the check before (\<open>stop_quiesces\<close>).
\<close>

definition debounce :: duration where
  "debounce = 500000000"

datatype op = OpCreate | OpWrite | OpRemove | OpRename | OpChmod

record watcher =
  WT_now :: time
  WT_timer :: "time option"
  WT_expired :: nat
  WT_cleared :: nat
  WT_running :: nat
  WT_stopped :: bool
  WT_closed :: bool
  WT_loop :: bool

text \<open>
  \<open>WT_expired\<close>: goroutines of the timer that have not looked at \<^verbatim>\<open>stopped\<close> yet; \<open>WT_cleared\<close>: those that found it unset and are about to
  call \<^verbatim>\<open>onChange\<close>; \<open>WT_running\<close>: those inside it.
\<close>

subsection \<open>Starting\<close>

text \<open>The directories that are watched; \<open>elems\<close> is what \<^verbatim>\<open>os.ReadDir\<close> returns, with a flag for directories.\<close>

definition Dir_watched :: "unit res \<Rightarrow> (string \<Rightarrow> unit res) \<Rightarrow> (string \<times> bool) list \<Rightarrow> string \<Rightarrow> string list res" where
  "Dir_watched new add elems dir =
     (case new of Inl e \<Rightarrow> Inl e
      | Inr _ \<Rightarrow> (case add dir of Inl e \<Rightarrow> Inl e
        | Inr _ \<Rightarrow> Inr (dir # filter (\<lambda>d. \<not> isl (add d)) (map (\<lambda>(n, _). Join dir n) (filter snd elems)))))"

text \<open>Only the directory and those subdirectories that it has at the start: what is deeper, or made later, is not watched and its changes are no events.\<close>

lemma Dir_watched_spec:
  assumes "Dir_watched new add elems dir = Inr ds"
  shows "set ds = insert dir {Join dir n | n. (n, True) \<in> set elems \<and> \<not> isl (add (Join dir n))}"
  using assms by (fastforce simp: Dir_watched_def split: sum.splits)

definition Dir_start :: "time \<Rightarrow> watcher" where
  "Dir_start now = \<lparr>WT_now = now, WT_timer = None, WT_expired = 0, WT_cleared = 0, WT_running = 0, WT_stopped = False, WT_closed = False, WT_loop = True\<rparr>"

subsection \<open>Steps\<close>

definition relevant :: "op list \<Rightarrow> string \<Rightarrow> bool" where
  "relevant ops name \<longleftrightarrow> list_ex (\<lambda>p. p \<in> set ops) [OpCreate, OpWrite, OpRemove, OpRename] \<and> is_yaml name"

datatype watch_label = Pass duration | FileEvent "op list" string | ClosedEvent | WatchError | CtxDone | StopCall
  | Expire | Check | CallBack | Return

text \<open>
  One step, \<open>None\<close> if it is not possible. A closed channel yields zero events, which the loop skips; an error is dropped. A new event
  replaces the pending timer, and a timer that has fired cannot be stopped any more.
\<close>

fun watch_step :: "watch_label \<Rightarrow> watcher \<Rightarrow> watcher option" where
  "watch_step (Pass d) w = (if 0 \<le> d then Some (w\<lparr>WT_now := WT_now w + d\<rparr>) else None)"
| "watch_step (FileEvent ops name) w =
     (if \<not> WT_loop w \<or> WT_closed w then None
      else Some (if relevant ops name then w\<lparr>WT_timer := Some (WT_now w + debounce)\<rparr> else w))"
| "watch_step ClosedEvent w = (if WT_loop w \<and> WT_closed w then Some w else None)"
| "watch_step WatchError w = (if WT_loop w then Some w else None)"
| "watch_step CtxDone w = (if WT_loop w then Some (w\<lparr>WT_stopped := True, WT_closed := True, WT_loop := False\<rparr>) else None)"
| "watch_step StopCall w = Some (w\<lparr>WT_stopped := True, WT_closed := True\<rparr>)"
| "watch_step Expire w = (case WT_timer w of None \<Rightarrow> None
     | Some t \<Rightarrow> if t \<le> WT_now w then Some (w\<lparr>WT_timer := None, WT_expired := Suc (WT_expired w)\<rparr>) else None)"
| "watch_step Check w = (case WT_expired w of 0 \<Rightarrow> None
     | Suc n \<Rightarrow> Some (if WT_stopped w then w\<lparr>WT_expired := n\<rparr> else w\<lparr>WT_expired := n, WT_cleared := Suc (WT_cleared w)\<rparr>))"
| "watch_step CallBack w = (case WT_cleared w of 0 \<Rightarrow> None | Suc n \<Rightarrow> Some (w\<lparr>WT_cleared := n, WT_running := Suc (WT_running w)\<rparr>))"
| "watch_step Return w = (case WT_running w of 0 \<Rightarrow> None | Suc n \<Rightarrow> Some (w\<lparr>WT_running := n\<rparr>))"

inductive watch_run :: "watcher \<Rightarrow> watch_label list \<Rightarrow> watcher \<Rightarrow> bool" where
  rest: "watch_run w [] w"
| move: "watch_run w ls w' \<Longrightarrow> watch_step l w' = Some w'' \<Longrightarrow> watch_run w (ls @ [l]) w''"

fun_cases ExpireE: "watch_step Expire w = Some w'" and CheckE: "watch_step Check w = Some w'"
  and CallBackE: "watch_step CallBack w = Some w'" and ReturnE: "watch_step Return w = Some w'"

lemma watch_run_append: "watch_run w' ls' w'' \<Longrightarrow> watch_run w ls w' \<Longrightarrow> watch_run w (ls @ ls') w''"
  by (induction rule: watch_run.induct) (auto simp flip: append_assoc intro: watch_run.move)

lemma watch_run_step: "watch_step l w = Some w' \<Longrightarrow> watch_run w [l] w'"
  using watch_run.move [OF watch_run.rest] by force

lemma watch_run_snoc: "watch_run w (ls @ [l]) w'' \<longleftrightarrow> (\<exists>w'. watch_run w ls w' \<and> watch_step l w' = Some w'')"
  by (auto elim: watch_run.cases intro: watch_run.move)

lemma watch_run_split: "watch_run w (ls @ ls') w'' \<Longrightarrow> \<exists>w'. watch_run w ls w' \<and> watch_run w' ls' w''"
proof (induction ls' arbitrary: w'' rule: rev_induct)
  case Nil
  then show ?case using watch_run.rest by auto
next
  case (snoc l ls')
  then obtain w1 where "watch_run w (ls @ ls') w1" "watch_step l w1 = Some w''"
    using watch_run_snoc [of w "ls @ ls'"] by auto
  then show ?case using snoc.IH watch_run.move by blast
qed

text \<open>Running a list of steps.\<close>

fun watch_exec :: "watch_label list \<Rightarrow> watcher \<Rightarrow> watcher option" where
  "watch_exec [] w = Some w"
| "watch_exec (l # ls) w = Option.bind (watch_step l w) (watch_exec ls)"

lemma watch_exec_run: "watch_exec ls w = Some w' \<Longrightarrow> watch_run w ls w'"
proof (induction ls arbitrary: w)
  case Nil
  then show ?case by (simp add: watch_run.rest)
next
  case (Cons l ls)
  then obtain w1 where "watch_step l w = Some w1" "watch_run w1 ls w'" by (auto simp: bind_eq_Some_conv)
  then show ?case using watch_run_append [OF _ watch_run_step] by fastforce
qed

lemma yaml_write: "relevant [OpWrite] ''a.yaml''" "\<not> relevant [OpChmod] ''a.yaml''"
  by (simp_all add: relevant_def is_yaml_def Ext_def Let_def)

subsection \<open>No event is lost\<close>

definition pending :: "watcher \<Rightarrow> bool" where
  "pending w \<longleftrightarrow> WT_timer w \<noteq> None \<or> 0 < WT_expired w \<or> 0 < WT_cleared w"

lemma stopped_stays: "watch_step l w = Some w' \<Longrightarrow> WT_stopped w \<Longrightarrow> WT_stopped w'"
  by (cases l) (auto split: if_splits option.splits nat.splits)

lemma pending_step: "watch_step l w = Some w' \<Longrightarrow> pending w \<Longrightarrow> WT_stopped w' \<or> l = CallBack \<or> pending w'"
  by (cases l) (auto simp: pending_def split: if_splits option.splits nat.splits)

lemma pending_run: "watch_run w ls w' \<Longrightarrow> pending w \<Longrightarrow> WT_stopped w' \<or> CallBack \<in> set ls \<or> pending w'"
proof (induction rule: watch_run.induct)
  case (move w ls w' l w'')
  then show ?case using pending_step stopped_stays by fastforce
qed simp

text \<open>What remains to be done for a call-back: at most waiting, expiring, checking and calling.\<close>

definition to_call :: "watcher \<Rightarrow> watch_label list" where
  "to_call w = (if 0 < WT_cleared w then [CallBack] else if 0 < WT_expired w then [Check, CallBack]
     else case WT_timer w of None \<Rightarrow> [] | Some t \<Rightarrow> [Pass (max 0 (t - WT_now w)), Expire, Check, CallBack])"

lemma to_call_runs: "pending w \<Longrightarrow> \<not> WT_stopped w \<Longrightarrow> \<exists>w'. watch_run w (to_call w) w' \<and> WT_running w' = Suc (WT_running w)"
proof -
  have c: "\<exists>w'. watch_run w [CallBack] w' \<and> WT_running w' = Suc (WT_running w)" if "0 < WT_cleared w" for w
    using that by (intro exI [of _ "w\<lparr>WT_cleared := WT_cleared w - 1, WT_running := Suc (WT_running w)\<rparr>"]) (auto intro!: watch_run_step split: nat.splits)
  have k: "\<exists>w'. watch_run w [Check, CallBack] w' \<and> WT_running w' = Suc (WT_running w)" if "0 < WT_expired w" "\<not> WT_stopped w" for w
  proof -
    let ?w = "w\<lparr>WT_expired := WT_expired w - 1, WT_cleared := Suc (WT_cleared w)\<rparr>"
    have "watch_run w [Check] ?w" using that by (intro watch_run_step) (auto split: nat.splits)
    moreover obtain w' where "watch_run ?w [CallBack] w'" "WT_running w' = Suc (WT_running ?w)" using c [of ?w] by auto
    ultimately show ?thesis using watch_run_append by fastforce
  qed
  assume p: "pending w" "\<not> WT_stopped w"
  show ?thesis
  proof (cases "0 < WT_cleared w \<or> 0 < WT_expired w")
    case True
    then show ?thesis using c k p by (auto simp: to_call_def)
  next
    case False
    then obtain t where t: "WT_timer w = Some t" using p by (auto simp: pending_def)
    let ?d = "max 0 (t - WT_now w)" and ?w1 = "w\<lparr>WT_now := WT_now w + max 0 (t - WT_now w)\<rparr>"
    let ?w2 = "?w1\<lparr>WT_timer := None, WT_expired := Suc (WT_expired w)\<rparr>"
    have "watch_run w [Pass ?d] ?w1" by (rule watch_run_step) simp
    moreover have "watch_run ?w1 [Expire] ?w2" using t by (intro watch_run_step) simp
    moreover obtain w' where "watch_run ?w2 [Check, CallBack] w'" "WT_running w' = Suc (WT_running ?w2)" using k [of ?w2] p by auto
    ultimately have "watch_run w ([Pass ?d] @ [Expire] @ [Check, CallBack]) w'" by (blast intro: watch_run_append)
    then show ?thesis using False t \<open>WT_running w' = Suc (WT_running ?w2)\<close> by (auto simp: to_call_def)
  qed
qed

definition waits :: "watch_label list \<Rightarrow> duration" where
  "waits ls = sum_list (map (\<lambda>l. case l of Pass d \<Rightarrow> d | _ \<Rightarrow> 0) ls)"

lemma timer_ahead: "watch_run (Dir_start now) ls w \<Longrightarrow> WT_timer w = Some t \<Longrightarrow> t \<le> WT_now w + debounce"
proof (induction "Dir_start now" ls w arbitrary: t rule: watch_run.induct)
  case rest
  then show ?case by (simp add: Dir_start_def)
next
  case (move ls w' l w'')
  then show ?case by (cases l) (force split: if_splits option.splits nat.splits)+
qed

text \<open>
  Claim C26. No event that the loop has received is lost: as long as the watcher is not stopped, every run in which an event on a definition file was received
  contains a call-back after it, or can be continued by one within half a second, without any further event. (Whether a change of a
  file becomes an event is not said; see \<open>Dir_watched_spec\<close> and \<open>errors_dropped\<close>.)
\<close>

theorem watch_delivers:
  assumes "watch_run (Dir_start now) (us @ FileEvent ops name # vs) w" "relevant ops name" "\<not> WT_stopped w"
  shows "CallBack \<in> set vs \<or>
    (\<exists>ls w'. watch_run w ls w' \<and> CallBack \<in> set ls \<and> set ls \<subseteq> {Expire, Check, CallBack} \<union> range Pass \<and> waits ls \<le> debounce)"
proof -
  obtain w1 where w1: "watch_run (Dir_start now) (us @ [FileEvent ops name]) w1" "watch_run w1 vs w"
    using watch_run_split [of "Dir_start now" "us @ [FileEvent ops name]" vs w] assms(1) by auto
  then obtain w0 where "watch_step (FileEvent ops name) w0 = Some w1" using watch_run_snoc by blast
  then have "pending w1" using assms(2) by (auto simp: pending_def split: if_splits)
  show ?thesis
  proof (cases "CallBack \<in> set vs")
    case False
    then have p: "pending w" using pending_run [OF w1(2) \<open>pending w1\<close>] assms(3) by blast
    from to_call_runs [OF p assms(3)] obtain w' where r: "watch_run w (to_call w) w'" by blast
    have "WT_timer w = Some t \<Longrightarrow> t \<le> WT_now w + debounce" for t using timer_ahead [OF assms(1)] by simp
    then have "waits (to_call w) \<le> debounce" by (auto simp: to_call_def waits_def debounce_def split: option.splits)
    moreover have "CallBack \<in> set (to_call w)" "set (to_call w) \<subseteq> {Expire, Check, CallBack} \<union> range Pass"
      using p by (auto simp: to_call_def pending_def split: option.splits)
    ultimately show ?thesis using r by blast
  qed simp
qed

definition saved :: "watch_label list" where
  "saved = [FileEvent [OpWrite] ''a.yaml'', Pass 100000000, FileEvent [OpChmod] ''a.yaml'']"

lemma saved_run: "watch_run (Dir_start 0) saved ((Dir_start 0)\<lparr>WT_timer := Some debounce, WT_now := 100000000\<rparr>)"
  by (rule watch_exec_run) (simp add: saved_def Dir_start_def yaml_write)

theorem watch_delivers_witness:
  "\<exists>ls w'. watch_run ((Dir_start 0)\<lparr>WT_timer := Some debounce, WT_now := 100000000\<rparr>) ls w' \<and> CallBack \<in> set ls"
proof -
  have "\<not> WT_stopped ((Dir_start 0)\<lparr>WT_timer := Some debounce, WT_now := 100000000\<rparr>)" by (simp add: Dir_start_def)
  with watch_delivers [of 0 "[]" "[OpWrite]" "''a.yaml''" "[Pass 100000000, FileEvent [OpChmod] ''a.yaml'']"] saved_run yaml_write(1)
  have "CallBack \<in> set [Pass 100000000, FileEvent [OpChmod] ''a.yaml''] \<or>
    (\<exists>ls w'. watch_run ((Dir_start 0)\<lparr>WT_timer := Some debounce, WT_now := 100000000\<rparr>) ls w' \<and> CallBack \<in> set ls \<and>
       set ls \<subseteq> {Expire, Check, CallBack} \<union> range Pass \<and> waits ls \<le> debounce)"
    unfolding saved_def append_Nil by blast
  then show ?thesis by auto
qed

text \<open>An error of \<^verbatim>\<open>fsnotify\<close>, such as an overflow of its queue, which means that events were lost, leads to nothing.\<close>

lemma errors_dropped: "watch_step WatchError w = Some w' \<Longrightarrow> w' = w"
  by (simp split: if_splits)

subsection \<open>How often\<close>

definition times_of :: "watch_label \<Rightarrow> watch_label list \<Rightarrow> nat" where
  "times_of l ls = length (filter (\<lambda>k. k = l) ls)"

lemma times_of_simps [simp]: "times_of l [] = 0" "times_of l (xs @ ys) = times_of l xs + times_of l ys"
  "times_of l (k # xs) = (if k = l then 1 else 0) + times_of l xs"
  by (simp_all add: times_of_def)

text \<open>Expiries are half a second apart; every call-back comes from an expiry of its own.\<close>

lemma rate_inv:
  "watch_run (Dir_start now) ls w \<Longrightarrow> now \<le> WT_now w
    \<and> int (times_of Expire ls) * debounce \<le> WT_now w - now
    \<and> (\<forall>t. WT_timer w = Some t \<longrightarrow> int (times_of Expire ls) * debounce + debounce \<le> t - now)
    \<and> times_of CallBack ls + WT_expired w + WT_cleared w \<le> times_of Expire ls
    \<and> WT_running w + times_of Return ls = times_of CallBack ls"
proof (induction "Dir_start now" ls w rule: watch_run.induct)
  case rest
  then show ?case by (simp add: Dir_start_def)
next
  case (move ls w l w')
  show ?case
  proof (cases l)
    case Expire
    then obtain t where t: "WT_timer w = Some t" "t \<le> WT_now w" "w' = w\<lparr>WT_timer := None, WT_expired := Suc (WT_expired w)\<rparr>"
      using move(3) by (auto split: option.splits if_splits)
    then have "int (times_of Expire ls) * debounce + debounce \<le> t - now" using move(2) by blast
    then show ?thesis using move(2) t Expire by (simp add: distrib_right)
  qed (use move(2,3) in \<open>auto split: if_splits option.splits nat.splits\<close>)
qed

text \<open>
  Claim C39. Call-backs are rare: whatever happens to the files, a run contains at most one call-back per half second of its length, and no
  call-back without an expiry of the timer of its own; so a burst of changes within half a second is at most one reload.
\<close>

theorem watch_rate:
  assumes "watch_run (Dir_start now) ls w"
  shows "int (times_of CallBack ls) * debounce \<le> WT_now w - now \<and> times_of Return ls \<le> times_of CallBack ls"
proof -
  note I = rate_inv [OF assms]
  then have "int (times_of CallBack ls) * debounce \<le> int (times_of Expire ls) * debounce"
    by (intro mult_right_mono) (simp_all add: debounce_def)
  then show ?thesis using I by linarith
qed

theorem watch_rate_witness: "int (times_of CallBack saved) * debounce \<le> 100000000"
  using watch_rate [OF saved_run] by (simp add: Dir_start_def)

text \<open>Nothing keeps two call-backs apart: the next one may start while a slow one is still running.\<close>

lemma callbacks_overlap: "\<exists>ls w. watch_run (Dir_start 0) ls w \<and> WT_running w = 2"
proof -
  let ?e = "[FileEvent [OpWrite] ''a.yaml'', Pass debounce, Expire, Check, CallBack]"
  have s: "\<exists>w'. watch_run w ?e w' \<and> WT_running w' = Suc (WT_running w) \<and> \<not> WT_stopped w' \<and> WT_loop w' \<and> \<not> WT_closed w' \<and> WT_expired w' = 0 \<and> WT_cleared w' = 0"
    if "\<not> WT_stopped w" "WT_loop w" "\<not> WT_closed w" "WT_expired w = 0" "WT_cleared w = 0" for w
  proof -
    have "watch_run w ?e (w\<lparr>WT_timer := None, WT_now := WT_now w + debounce, WT_running := Suc (WT_running w)\<rparr>)"
      by (rule watch_exec_run) (use that in \<open>simp add: yaml_write, simp add: debounce_def\<close>)
    then show ?thesis using that
      by (intro exI [of _ "w\<lparr>WT_timer := None, WT_now := WT_now w + debounce, WT_running := Suc (WT_running w)\<rparr>"]) simp
  qed
  obtain w1 where 1: "watch_run (Dir_start 0) ?e w1" "WT_running w1 = 1" "\<not> WT_stopped w1 \<and> WT_loop w1 \<and> \<not> WT_closed w1 \<and> WT_expired w1 = 0 \<and> WT_cleared w1 = 0"
    using s [of "Dir_start 0"] by (auto simp: Dir_start_def)
  obtain w2 where "watch_run w1 ?e w2" "WT_running w2 = 2" using s [of w1] 1 by auto
  then show ?thesis using watch_run_append 1(1) by blast
qed

subsection \<open>Stopping\<close>

lemma stop_inv: "watch_run w ls w' \<Longrightarrow> WT_stopped w \<Longrightarrow> WT_stopped w' \<and> WT_cleared w' + times_of CallBack ls = WT_cleared w"
proof (induction rule: watch_run.induct)
  case (move w ls w' l w'')
  then show ?case by (cases l) (auto split: if_splits option.splits nat.splits)
qed simp

text \<open>
  Claim C27. Stopping is final: after \<^verbatim>\<open>stop\<close> has returned, or the context was cancelled, the only call-backs that still start are those whose
  goroutine had found the watcher running before; none of them starts twice, and none is started by a later change.
\<close>

theorem stop_quiesces:
  assumes "watch_step l w0 = Some w" "l = StopCall \<or> l = CtxDone" "watch_run w ls w'"
  shows "times_of CallBack ls \<le> WT_cleared w0 \<and> (WT_cleared w0 = 0 \<longrightarrow> CallBack \<notin> set ls)"
proof -
  have "WT_stopped w" "WT_cleared w = WT_cleared w0" using assms(1,2) by (auto split: if_splits)
  then have "times_of CallBack ls \<le> WT_cleared w0" using stop_inv [OF assms(3)] by simp
  then show ?thesis by (auto simp: times_of_def filter_empty_conv)
qed

theorem stop_quiesces_witness: "times_of CallBack [Pass debounce, Expire, Check] = 0"
proof -
  let ?w = "(Dir_start 0)\<lparr>WT_timer := Some debounce, WT_stopped := True, WT_closed := True\<rparr>"
  have s: "watch_step StopCall ((Dir_start 0)\<lparr>WT_timer := Some debounce\<rparr>) = Some ?w" by simp
  have "watch_run ?w [Pass debounce, Expire, Check] (?w\<lparr>WT_now := debounce, WT_timer := None\<rparr>)"
    by (rule watch_exec_run) (simp add: Dir_start_def debounce_def)
  from stop_quiesces [OF s _ this] show ?thesis by (simp add: Dir_start_def)
qed

text \<open>
  A call-back can nevertheless start after \<^verbatim>\<open>stop\<close> has returned, and the loop of a watcher that is stopped while its context lives
  never ends: it goes on reading from the closed channel.
\<close>

lemma callback_after_stop: "\<exists>us vs w. watch_run (Dir_start 0) (us @ StopCall # vs) w \<and> CallBack \<in> set vs"
proof -
  have "watch_run (Dir_start 0) ([FileEvent [OpWrite] ''a.yaml'', Pass debounce, Expire, Check] @ StopCall # [CallBack])
      ((Dir_start 0)\<lparr>WT_now := debounce, WT_running := 1, WT_stopped := True, WT_closed := True\<rparr>)"
    by (rule watch_exec_run) (simp add: Dir_start_def yaml_write, simp add: debounce_def)
  then show ?thesis by (metis list.set_intros(1))
qed

lemma stop_spins: "watch_step StopCall w = Some w' \<Longrightarrow> WT_loop w \<Longrightarrow> watch_run w' (replicate n ClosedEvent) w'"
proof (induction n)
  case 0
  then show ?case by (simp add: watch_run.rest)
next
  case (Suc n)
  then have "watch_step ClosedEvent w' = Some w'" by auto
  then have "watch_run w' (replicate n ClosedEvent @ [ClosedEvent]) w'" using Suc watch_run.move by blast
  then show ?case by (simp add: replicate_append_same)
qed

subsection \<open>The reload of the rules\<close>

text \<open>\<^verbatim>\<open>Loader.Watch\<close>: the call-back loads the directory and hands on what it has loaded; a failed load is only logged.\<close>

definition Loader_Watch :: "(catalog \<times> (string \<times> string) list) res \<Rightarrow> (catalog \<Rightarrow> 'a \<Rightarrow> 'a) \<Rightarrow> 'a \<Rightarrow> 'a" where
  "Loader_Watch loaded onChange x = (case loaded of Inl _ \<Rightarrow> x | Inr (cat, quarantined) \<Rightarrow> onChange cat x)"

lemma rules_changed_watch:
  "rules_changed st ue dm = Loader_Watch (load_catalog st ue) (\<lambda>cat dm. snd (reload_sensors st ue (dm\<lparr>DM_catalog := Some cat\<rparr>))) dm"
  by (simp add: rules_changed_def Loader_Watch_def)

end
