(* ===== verification/Flags.thy ===== *)
theory Flags
  imports GoStrings
begin

text \<open>
  The arguments of the command lines: \<^verbatim>\<open>flag.FlagSet.Parse\<close> of the standard library, as the commands of \<^verbatim>\<open>cmd/sentinel\<close> and
  \<^verbatim>\<open>cmd/sentinel-gen\<close> use it. Reading an integer (\<^verbatim>\<open>strconv.ParseInt\<close> with base 0) is a parameter.
\<close>

datatype flag_kind = TextFlag | IntFlag | BoolFlag

text \<open>\<^verbatim>\<open>strconv.ParseBool\<close>.\<close>

definition ParseBool :: "string \<Rightarrow> bool option" where
  "ParseBool s =
     (if s \<in> {''1'', ''t'', ''T'', ''TRUE'', ''true'', ''True''} then Some True
      else if s \<in> {''0'', ''f'', ''F'', ''FALSE'', ''false'', ''False''} then Some False
      else None)"

definition flag_ok :: "(string \<Rightarrow> int option) \<Rightarrow> flag_kind \<Rightarrow> string \<Rightarrow> bool" where
  "flag_ok pint k v = (case k of TextFlag \<Rightarrow> True | IntFlag \<Rightarrow> pint v \<noteq> None | BoolFlag \<Rightarrow> ParseBool v \<noteq> None)"

definition flag_name :: "string \<Rightarrow> string" where
  "flag_name a = (if HasPrefix a ''--'' then drop 2 a else drop 1 a)"

text \<open>
  The values that were given, in order, and the arguments that are left: parsing ends at the first argument that is no flag. A value
  is checked when its flag is read.
\<close>

fun parse_flags :: "(string \<Rightarrow> int option) \<Rightarrow> (string \<times> flag_kind) list \<Rightarrow> string list \<Rightarrow> ((string \<times> string) list \<times> string list) res" where
  "parse_flags pint fl [] = Inr ([], [])"
| "parse_flags pint fl (a # as) =
     (if length a < 2 \<or> hd a \<noteq> CHR ''-'' then Inr ([], a # as)
      else if a = ''--'' then Inr ([], as)
      else let n = flag_name a; name = takeWhile (\<lambda>c. c \<noteq> CHR ''='') n in
        if n = [] \<or> hd n = CHR ''-'' \<or> hd n = CHR ''='' then Inl (Err a)
        else case map_of fl name of
            None \<Rightarrow> Inl (Err (if name = ''h'' \<or> name = ''help'' then ''help'' else a))
          | Some k \<Rightarrow>
              if CHR ''='' \<in> set n then
                (let v = drop (length name + 1) n in
                 if \<not> flag_ok pint k v then Inl (Err a) else res_bind (parse_flags pint fl as) (\<lambda>(fs, rest). Inr ((name, v) # fs, rest)))
              else if k = BoolFlag then res_bind (parse_flags pint fl as) (\<lambda>(fs, rest). Inr ((name, ''true'') # fs, rest))
              else (case as of [] \<Rightarrow> Inl (Err a)
                | v # as' \<Rightarrow> if \<not> flag_ok pint k v then Inl (Err a) else res_bind (parse_flags pint fl as') (\<lambda>(fs, rest). Inr ((name, v) # fs, rest))))"

text \<open>The exit code of a failed parse; asking for help is not a failure.\<close>

definition flag_exit :: "gerr \<Rightarrow> int" where
  "flag_exit e = (if e = Err ''help'' then 0 else 2)"

text \<open>Later flags overwrite earlier ones.\<close>

definition flag_value :: "(string \<times> string) list \<Rightarrow> string \<Rightarrow> string \<Rightarrow> string" where
  "flag_value fs n dflt = (case map_of (rev fs) n of None \<Rightarrow> dflt | Some v \<Rightarrow> v)"

definition flag_int :: "(string \<Rightarrow> int option) \<Rightarrow> (string \<times> string) list \<Rightarrow> string \<Rightarrow> int \<Rightarrow> int" where
  "flag_int pint fs n dflt = (case map_of (rev fs) n of None \<Rightarrow> dflt | Some v \<Rightarrow> (case pint v of None \<Rightarrow> dflt | Some k \<Rightarrow> k))"

definition flag_bool :: "(string \<times> string) list \<Rightarrow> string \<Rightarrow> bool \<Rightarrow> bool" where
  "flag_bool fs n dflt = (case map_of (rev fs) n of None \<Rightarrow> dflt | Some v \<Rightarrow> (case ParseBool v of None \<Rightarrow> dflt | Some b \<Rightarrow> b))"

text \<open>A parse returns only values of flags that exist, each of the kind of its flag.\<close>

lemma parse_flags_ok:
  "parse_flags pint fl as = Inr (fs, rest) \<Longrightarrow> list_all (\<lambda>(n, v). \<exists>k. map_of fl n = Some k \<and> flag_ok pint k v) fs"
proof (induction pint fl as arbitrary: fs rest rule: parse_flags.induct)
  case (2 pint fl a as)
  define n where "n = flag_name a"
  define name where "name = takeWhile (\<lambda>c. c \<noteq> CHR ''='') n"
  show ?case
  proof (cases "fs = []")
    case False
    then have a: "\<not> (length a < 2 \<or> hd a \<noteq> CHR ''-'')" "a \<noteq> ''--''" "\<not> (n = [] \<or> hd n = CHR ''-'' \<or> hd n = CHR ''='')"
      using 2(4) by (auto simp: n_def name_def Let_def split: if_splits)
    then obtain k where k: "map_of fl name = Some k"
      using 2(4) by (cases "map_of fl name") (simp_all add: n_def name_def Let_def)
    show ?thesis
      using 2(4) a k 2(1-3) [OF a(1,2) n_def name_def a(3) k]
      by (auto simp: n_def [symmetric] name_def [symmetric] Let_def res_bind_Inr flag_ok_def ParseBool_def split: if_splits list.splits)
  qed simp
qed simp

end
