(* ===== verification/Api.thy ===== *)
theory Api
  imports Daemon Flags
begin

text \<open>
  What the daemon shows and what the command line does: the read-only JSON endpoints and the metrics text (\<^verbatim>\<open>cmd/sentinel/api.go\<close>), the
  waste commands (\<^verbatim>\<open>waste_cli.go\<close>), the status table (\<^verbatim>\<open>status.go\<close>) and the database path (\<^verbatim>\<open>main.go\<close>). A reply is data instead of JSON
  text; the encoder refuses a number that is not finite, and then nothing is written. The number formats \<^verbatim>\<open>%v\<close>, \<^verbatim>\<open>%.4g\<close> and
  \<^verbatim>\<open>%q\<close> and \<^verbatim>\<open>strconv.ParseInt\<close> with base 0 are parameters.

  Main results: the remaining budget is a percentage (\<open>remaining_bounds\<close>), one infinite value blanks the whole status reply
  (\<open>status_infinite\<close>), and a command called as its usage text says is refused (\<open>usage_refused\<close>).
\<close>

datatype 'a reply = Json 'a | NoBody | HttpError int string | Panicked

definition finite_float :: "f64 \<Rightarrow> bool" where
  "finite_float x = (case x of Fin _ \<Rightarrow> True | _ \<Rightarrow> False)"

definition encode :: "f64 list \<Rightarrow> 'a \<Rightarrow> 'a reply" where
  "encode xs a = (if list_all finite_float xs then Json a else NoBody)"

definition opt_list :: "'a option \<Rightarrow> 'a list" where
  "opt_list x = (case x of None \<Rightarrow> [] | Some a \<Rightarrow> [a])"

subsection \<open>Metrics\<close>

definition metric_text :: "(string \<Rightarrow> string) \<Rightarrow> metric \<Rightarrow> string" where
  "metric_text q = (\<lambda>(name, labels). name @ ''{'' @ join '','' (map (\<lambda>(k, v). k @ ''='' @ q v) labels) @ ''}'')"

definition metrics_Set :: "metric \<Rightarrow> f64 \<Rightarrow> (metric \<rightharpoonup> f64) \<Rightarrow> metric \<rightharpoonup> f64" where
  "metrics_Set k v m = m(k \<mapsto> v)"

definition renderText :: "(string \<Rightarrow> string) \<Rightarrow> (f64 \<Rightarrow> string) \<Rightarrow> metric list \<Rightarrow> (metric \<rightharpoonup> f64) \<Rightarrow> string" where
  "renderText q fv ks m = concat (map (\<lambda>k. metric_text q k @ '' '' @ fv (the (m k)) @ [CHR 0x0A]) (sort_key (metric_text q) ks))"

subsection \<open>Status and accuracy\<close>

record state_json =
  J_SensorID :: string
  J_State :: string
  J_LastValue :: f64
  J_UpdatedAt :: string

definition state_to_json :: "sensor_state \<Rightarrow> state_json" where
  "state_to_json s = \<lparr>J_SensorID = SS_ID s, J_State = SS_State s, J_LastValue = SS_Value s, J_UpdatedAt = fmt_nano (SS_UpdatedAt s)\<rparr>"

definition statusJSON :: "daemon \<Rightarrow> (string \<rightharpoonup> state_json) reply" where
  "statusJSON dm =
     (let rows = map state_to_json (eachState dm); states = foldl (\<lambda>m r. m(J_SensorID r \<mapsto> r)) Map.empty rows
      in encode (map J_LastValue rows) states)"

definition accuracy_row :: "time \<Rightarrow> daemon \<Rightarrow> sensor_runner \<Rightarrow> (string \<times> nat \<times> f64 option) list" where
  "accuracy_row since dm r =
     (case ListPredictions (RN_id r) since (DM_store dm) of Inl _ \<Rightarrow> []
      | Inr ps \<Rightarrow> [(RN_id r, length ps, if ps = [] then None else P_EtaAggressive (last ps))])"

definition accuracyJSON :: "time \<Rightarrow> daemon \<Rightarrow> (string \<times> (string \<times> nat \<times> f64 option) list) reply" where
  "accuracyJSON now dm =
     (let since = now - 7 * 24 * hour; rows = concat (map (accuracy_row since dm) (DM_sensors dm))
      in encode (concat (map (\<lambda>(i, n, e). opt_list e) rows)) (fmt_secs since @ ''Z'', rows))"

subsection \<open>One sensor\<close>

definition slo_days :: "string \<Rightarrow> int" where
  "slo_days v = (if v = [] then 30 else case Atoi v of None \<Rightarrow> 30 | Some n \<Rightarrow> if n > 0 \<and> n \<le> 365 then n else 30)"

definition prediction_floats :: "prediction \<Rightarrow> f64 list" where
  "prediction_floats p = opt_list (P_EtaAggressive p) @ opt_list (P_EtaConservative p) @ [P_Actual p] @ opt_list (P_Ceiling p) @ opt_list (P_Util p)"

definition sloDetail :: "string \<Rightarrow> string \<Rightarrow> time \<Rightarrow> store \<Rightarrow> (string \<times> sensor_state option \<times> prediction list) reply" where
  "sloDetail path days_arg now s =
     (let i = TrimPrefix path ''/api/slo/'' in
      if i = [] then HttpError 400 ''missing sensor id''
      else let st = GetState i s in
        (case ListPredictions i (now - slo_days days_arg * (24 * hour)) s of
           Inl e \<Rightarrow> HttpError 500 (err_text e)
         | Inr preds \<Rightarrow> encode (concat (map (\<lambda>x. [SS_Value x, SS_Util x]) (opt_list st)) @ concat (map prediction_floats preds)) (i, st, preds)))"

definition remaining_budget :: "f64 \<Rightarrow> f64" where
  "remaining_budget u =
     (let r = fmul (fsub (Fin 1) u) (Fin 100); r = fdiv (math_Round (fmul r (Fin 100))) (Fin 100)
      in if flt r (Fin 0) then Fin 0 else if flt (Fin 100) r then Fin 100 else r)"

record budget_json =
  B_Mode :: string
  B_State :: string
  B_Remaining :: f64
  B_EtaHours :: "f64 option"
  B_Confirmed :: string
  B_AsOf :: string

definition eta_hours :: "string \<Rightarrow> time \<Rightarrow> store \<Rightarrow> f64 option" where
  "eta_hours i now s =
     (case ListPredictions i (now - 24 * hour) s of Inl _ \<Rightarrow> None
      | Inr ps \<Rightarrow> if ps = [] then None else map_option (\<lambda>e. fdiv e (Fin 3600)) (P_EtaConservative (last ps)))"

definition budgetStatusJSON :: "string \<Rightarrow> time \<Rightarrow> store \<Rightarrow> budget_json reply" where
  "budgetStatusJSON path now s =
     (let i = TrimPrefix path ''/api/budget-status/'' in
      if i = [] \<or> CHR ''/'' \<in> set i then HttpError 400 ''slo_id''
      else case GetState i s of None \<Rightarrow> HttpError 404 i
        | Some st \<Rightarrow>
            (let remain = remaining_budget (SS_Util st); eta = eta_hours i now s
             in encode (remain # opt_list eta)
                  \<lparr>B_Mode = ''notify'', B_State = SS_State st, B_Remaining = remain, B_EtaHours = eta,
                   B_Confirmed = fmt_date (SS_UpdatedAt st), B_AsOf = fmt_rfc3339 (SS_UpdatedAt st)\<rparr>))"

subsection \<open>Cost and waste\<close>

definition lastConfirmed :: "daily_spend list \<Rightarrow> string" where
  "lastConfirmed spends = (if spends = [] then [] else fmt_date (DS_Date (last spends)))"

record cost_json =
  K_Confirmed :: string
  K_Mtd :: f64
  K_Eom :: eom_projection
  K_Spends :: "daily_spend list"
  K_Estimate :: "(estimate_result \<times> actual_vs_estimate) option"

definition estimate_floats :: "estimate_result \<times> actual_vs_estimate \<Rightarrow> f64 list" where
  "estimate_floats = (\<lambda>(e, v). ER_Total e # concat (map (\<lambda>l. [EL_Quantity l, EL_UnitPrice l, EL_Cost l]) (ER_Lines e))
     @ [AE_Actual v, AE_Estimate v, AE_Delta v] @ opt_list (AE_DeltaPct v))"

text \<open>\<open>None\<close>: no billing source, and the reply says so.\<close>

definition costJSON :: "settings \<Rightarrow> 's pricer option \<Rightarrow> billing \<Rightarrow> time \<Rightarrow> 's \<Rightarrow> daemon \<Rightarrow> 's \<times> cost_json option reply" where
  "costJSON st pr bill now ps dm =
     (if \<not> ST_billing st then (ps, Json None)
      else case bill (date_time (Year now) (Month now) 1) now of
          Inl e \<Rightarrow> (ps, HttpError 502 (err_text e))
        | Inr spends \<Rightarrow>
            (let mtd = fsum (map DS_Cost spends);
                 rates = EstimateRates mtd (Day now) (recentTail spends 7);
                 eom = ProjectEOM (ST_arch st) mtd now rates;
                 (ps', est) = (case pr of
                     Some quote \<Rightarrow> if ST_costMap st \<noteq> [] then (let (q, r) = EstimateSpend quote (estimateLines st dm) ps in (q, Some r)) else (ps, None)
                   | None \<Rightarrow> (ps, None))
             in (case est of
                   Some (Inl e) \<Rightarrow> (ps', Panicked)
                 | Some (Inr r) \<Rightarrow> (let k = (r, CompareActualVsEstimate mtd (Some r)) in
                     (ps', encode (mtd # Aggressive eom # Conservative eom # map DS_Cost spends @ estimate_floats k)
                        (Some \<lparr>K_Confirmed = lastConfirmed spends, K_Mtd = mtd, K_Eom = eom, K_Spends = spends, K_Estimate = Some k\<rparr>)))
                 | None \<Rightarrow> (ps', encode (mtd # Aggressive eom # Conservative eom # map DS_Cost spends)
                        (Some \<lparr>K_Confirmed = lastConfirmed spends, K_Mtd = mtd, K_Eom = eom, K_Spends = spends, K_Estimate = None\<rparr>)))))"

definition wasteJSON :: "settings \<Rightarrow> 's pricer option \<Rightarrow> 's waste_env \<Rightarrow> 's \<Rightarrow> daemon \<Rightarrow> 's \<times> candidate list reply" where
  "wasteJSON st pr env ps dm =
     (case DM_catalog dm of None \<Rightarrow> (ps, Json [])
      | Some cat \<Rightarrow>
          (case Scan (ST_arch st) (SE_float env) (SE_attrs env) (SE_src env) (Some (iface_pricer pr)) cat (SE_now env) ps of
             (ps', Inl Panic) \<Rightarrow> (ps', Panicked)
           | (ps', Inl (Err e)) \<Rightarrow> (ps', HttpError 500 e)
           | (ps', Inr cs) \<Rightarrow> (ps', encode (concat (map (\<lambda>c. [IdleDays c, WastedCost c, SavingMonthly c]) cs)) cs)))"

subsection \<open>The waste commands\<close>

definition loadTracker :: "arch \<Rightarrow> store \<Rightarrow> tracker" where
  "loadTracker a s = Restore (entriesFromStore (AllWasteEntries a s)) NewTracker"

fun syncTracker :: "time \<Rightarrow> tentry list \<Rightarrow> store \<Rightarrow> int \<times> store" where
  "syncTracker wall [] s = (0, s)"
| "syncTracker wall (e # es) s = (case SetWasteEntry wall (entryToStore e) s of Inl _ \<Rightarrow> (1, s) | Inr s' \<Rightarrow> syncTracker wall es s')"

text \<open>The database is chosen by two flags of every command.\<close>

definition store_flags :: "(string \<times> flag_kind) list" where
  "store_flags = [(''config'', TextFlag), (''db'', TextFlag)]"

text \<open>The exit code and the database. \<open>ks\<close> is the iteration order of the entries, \<open>pint\<close> reads an integer.\<close>

definition wasteDismiss :: "arch \<Rightarrow> (string \<Rightarrow> int option) \<Rightarrow> (tracker \<Rightarrow> string list) \<Rightarrow> time \<Rightarrow> string list \<Rightarrow> store \<Rightarrow> int \<times> store" where
  "wasteDismiss a pint ks now args s =
     (case parse_flags pint ([(''days'', IntFlag), (''reason'', TextFlag)] @ store_flags) args of
        Inl e \<Rightarrow> (flag_exit e, s)
      | Inr (fs, ids) \<Rightarrow>
          (case ids of [i] \<Rightarrow>
             (let days = flag_int pint fs ''days'' 0; until = (if days > 0 then AddDate now 0 0 days else time_zero); t = loadTracker a s in
              case Dismiss (ks t) i (flag_value fs ''reason'' []) until t of
                Inl _ \<Rightarrow> (1, s)
              | Inr t' \<Rightarrow> syncTracker now (Entries (ks t') t') s)
           | _ \<Rightarrow> (2, s)))"

definition wasteResolve :: "arch \<Rightarrow> (string \<Rightarrow> int option) \<Rightarrow> (tracker \<Rightarrow> string list) \<Rightarrow> time \<Rightarrow> string list \<Rightarrow> store \<Rightarrow> int \<times> store" where
  "wasteResolve a pint ks now args s =
     (case parse_flags pint store_flags args of
        Inl e \<Rightarrow> (flag_exit e, s)
      | Inr (fs, ids) \<Rightarrow>
          (case ids of [i] \<Rightarrow>
             (let t = loadTracker a s in
              case Tracker_Resolve (ks t) i t of
                Inl _ \<Rightarrow> (1, s)
              | Inr t' \<Rightarrow> syncTracker now (Entries (ks t') t') s)
           | _ \<Rightarrow> (2, s)))"

definition waste_note :: "waste_entry \<Rightarrow> string" where
  "waste_note e =
     (if W_State e = ''dismissed'' then
        (if \<not> IsZero (W_DismissUntil e)
         then utf8 [229, 190, 169, 230, 180, 187, 230, 150, 188, 32] @ fmt_date (W_DismissUntil e)
              @ (if W_DismissReason e \<noteq> [] then utf8 [239, 188, 154] @ W_DismissReason e else [])
         else W_DismissReason e)
      else if W_State e = ''resolved'' then utf8 [229, 183, 178, 231, 181, 144, 230, 161, 136] else [])"

definition countResolved :: "waste_entry list \<Rightarrow> nat" where
  "countResolved es = length (filter (\<lambda>e. W_State e = ''resolved'') es)"

definition waste_row :: "waste_entry \<Rightarrow> string list" where
  "waste_row e = [W_Sensor e, W_Resource e, W_State e, fmt_date (W_FirstSeen e), ''$'' @ fmt_fixed 2 (W_TotalUSD e), waste_note e]"

definition wasteList :: "arch \<Rightarrow> (f64 list \<Rightarrow> f64) \<Rightarrow> store \<Rightarrow> string list list \<times> nat \<times> f64" where
  "wasteList a total_of s =
     (let es = AllWasteEntries a s in (map waste_row es, countResolved es, ResolvedWasteSaving total_of s))"

definition runWasteCLI :: "arch \<Rightarrow> (string \<Rightarrow> int option) \<Rightarrow> (tracker \<Rightarrow> string list) \<Rightarrow> time \<Rightarrow> string list \<Rightarrow> store \<Rightarrow> int \<times> store" where
  "runWasteCLI a pint ks now args s =
     (case args of [] \<Rightarrow> (2, s)
      | sub # rest \<Rightarrow>
          if sub = ''list'' then ((case parse_flags pint store_flags rest of Inl e \<Rightarrow> flag_exit e | Inr _ \<Rightarrow> 0), s)
          else if sub = ''dismiss'' then wasteDismiss a pint ks now rest s
          else if sub = ''resolve'' then wasteResolve a pint ks now rest s
          else (2, s))"

subsection \<open>The status table and the database path\<close>

definition status_row :: "(f64 \<Rightarrow> string) \<Rightarrow> string \<times> string \<times> f64 \<times> time \<Rightarrow> string" where
  "status_row g4 = (\<lambda>(i, st, v, t). i @ '' | '' @ st @ '' | '' @ g4 v @ '' | '' @ fmt_date t @ '' '' @ take 5 (fmt_clock (sec_of_day t)))"

definition runStatus :: "(f64 \<Rightarrow> string) \<Rightarrow> store \<Rightarrow> string list" where
  "runStatus g4 s = map (status_row g4) (AllStates s)"

text \<open>\<^verbatim>\<open>filepath.Clean\<close> of a relative path, element by element, the last one first.\<close>

fun clean_elems :: "string list \<Rightarrow> string list \<Rightarrow> string list" where
  "clean_elems acc [] = rev acc"
| "clean_elems acc (e # es) =
     (if e = [] \<or> e = ''.'' then clean_elems acc es
      else if e = ''..'' \<and> acc \<noteq> [] \<and> hd acc \<noteq> ''..'' then clean_elems (tl acc) es
      else clean_elems (e # acc) es)"

definition resolveDBPath :: "string \<Rightarrow> string" where
  "resolveDBPath p =
     (if HasPrefix p ''/'' then p
      else let es = clean_elems [] (split_at (CHR ''/'') p []) in if es = [] then ''.'' else join ''/'' es)"

subsection \<open>The remaining budget\<close>

definition ascending :: "(f64 \<Rightarrow> f64) \<Rightarrow> bool" where
  "ascending g \<longleftrightarrow> (\<forall>x y. fle x y \<longrightarrow> fle (g x) (g y))"

lemma ascending_rnd:
  assumes "\<And>p. g (Fin p) = rnd (r p)" "\<And>p q. p \<le> q \<Longrightarrow> r p \<le> r q" "g PInf = PInf" "g NInf = NInf"
  shows "ascending g"
proof -
  have "fle (g x) (g y)" if "fle x y" for x y
  proof (cases x)
    case (Fin p)
    show ?thesis using that Fin assms rnd_mono by (cases y) (auto simp: fle_def, (cases "rnd (r p)"; simp))
  next
    case NInf
    then show ?thesis using that assms by (cases y) (auto simp: fle_def)
  qed (use that assms in \<open>cases y; auto simp: fle_def\<close>)+
  then show ?thesis by (simp add: ascending_def)
qed

lemma ascending_scale: "0 < c \<Longrightarrow> ascending (\<lambda>x. fmul x (Fin c))"
  by (rule ascending_rnd [where r = "\<lambda>p. p * c"]) (auto simp: fmul_def finf_def fsgn_def)

lemma ascending_div: "0 < c \<Longrightarrow> ascending (\<lambda>x. fdiv x (Fin c))"
  by (rule ascending_rnd [where r = "\<lambda>p. p / c"]) (auto simp: fdiv_def finf_def fsgn_def divide_right_mono)

definition half_up :: "rat \<Rightarrow> int" where
  "half_up q = (if 0 \<le> q then \<lfloor>q + 1 / 2\<rfloor> else \<lceil>q - 1 / 2\<rceil>)"

lemma half_up_mono: "p \<le> q \<Longrightarrow> half_up p \<le> half_up q"
proof -
  assume "p \<le> q"
  then consider "0 \<le> p" "p \<le> q" | "p < 0" "0 \<le> q" | "q < 0" "p \<le> q" by linarith
  then show ?thesis
  proof cases
    case 2
    have "\<lceil>p - 1 / 2\<rceil> \<le> 0" "0 \<le> \<lfloor>q + 1 / 2\<rfloor>" using 2 by (simp_all add: ceiling_le_iff le_floor_iff)
    moreover have "half_up p = \<lceil>p - 1 / 2\<rceil>" "half_up q = \<lfloor>q + 1 / 2\<rfloor>" using 2 by (simp_all add: half_up_def)
    ultimately show ?thesis by linarith
  qed (auto simp: half_up_def intro!: floor_mono ceiling_mono)
qed

lemma ascending_round: "ascending math_Round"
  by (rule ascending_rnd [where r = "\<lambda>p. of_int (half_up p)"]) (auto simp: math_Round_Fin half_up_def [symmetric] half_up_mono, auto simp: math_Round_def)

lemma fsub_one_falls: "fle x y \<Longrightarrow> fle (fsub (Fin 1) y) (fsub (Fin 1) x)"
proof -
  assume "fle x y"
  then have "fle (fneg y) (fneg x)" by (cases x; cases y) (auto simp: fle_def fneg_def)
  moreover have "ascending (\<lambda>x. fadd (Fin 1) x)"
    by (rule ascending_rnd [where r = "\<lambda>p. 1 + p"]) (auto simp: fadd_def)
  ultimately show ?thesis by (simp add: ascending_def fsub_def)
qed

definition clamp :: "f64 \<Rightarrow> f64" where
  "clamp r = (if flt r (Fin 0) then Fin 0 else if flt (Fin 100) r then Fin 100 else r)"

lemma clamp_falls: "fle x y \<Longrightarrow> \<exists>p q. clamp x = Fin p \<and> clamp y = Fin q \<and> 0 \<le> p \<and> p \<le> q \<and> q \<le> 100"
  by (cases x; cases y) (auto simp: clamp_def fle_def)

text \<open>
  Claim C35. The remaining budget that the API reports is a percentage between 0 and 100 for every utilisation that is a number, an infinite one
  included, and it never rises when the utilisation does, whatever the roundings of the five operations.
\<close>

theorem remaining_bounds:
  assumes "fle u v"
  shows "\<exists>p q. remaining_budget v = Fin p \<and> remaining_budget u = Fin q \<and> 0 \<le> p \<and> p \<le> q \<and> q \<le> 100"
proof -
  have s: "ascending (\<lambda>x. fmul x (Fin 100))" "ascending (\<lambda>x. fdiv x (Fin 100))" by (simp_all add: ascending_scale ascending_div)
  have "fle (fmul (fsub (Fin 1) v) (Fin 100)) (fmul (fsub (Fin 1) u) (Fin 100))"
    using fsub_one_falls [OF assms] s(1) by (simp add: ascending_def)
  then have "fle (fdiv (math_Round (fmul (fmul (fsub (Fin 1) v) (Fin 100)) (Fin 100))) (Fin 100))
      (fdiv (math_Round (fmul (fmul (fsub (Fin 1) u) (Fin 100)) (Fin 100))) (Fin 100))"
    using s ascending_round unfolding ascending_def by blast
  from clamp_falls [OF this] show ?thesis by (simp add: remaining_budget_def clamp_def Let_def)
qed

theorem remaining_bounds_witness: "\<exists>p q. remaining_budget PInf = Fin p \<and> remaining_budget (Fin (1 / 4)) = Fin q \<and> 0 \<le> p \<and> p \<le> q \<and> q \<le> 100"
  by (rule remaining_bounds) simp

subsection \<open>Values that are not finite\<close>

lemma eachState_mem: "y \<in> set (eachState dm) \<longleftrightarrow> (\<exists>r \<in> set (DM_sensors dm). GetState (RN_id r) (DM_store dm) = Some y)"
proof -
  have "y \<in> set (List.map_filter f xs) \<longleftrightarrow> (\<exists>x \<in> set xs. f x = Some y)" for f :: "sensor_runner \<Rightarrow> sensor_state option" and xs
    by (induction xs) (auto simp: List.map_filter_simps split: option.splits)
  then show ?thesis by (simp add: eachState_def)
qed

definition last_by :: "('a \<Rightarrow> string) \<Rightarrow> 'a list \<Rightarrow> string \<rightharpoonup> 'a" where
  "last_by k xs = foldl (\<lambda>m x. m(k x \<mapsto> x)) Map.empty xs"

lemma last_by_mem: "x \<in> set xs \<Longrightarrow> \<exists>y \<in> set xs. k y = k x \<and> last_by k xs (k x) = Some y"
  unfolding last_by_def by (induction xs rule: rev_induct) auto

text \<open>
  One sensor with an infinite value blanks the status of all: the JSON encoder refuses the whole document and its error is dropped, so
  the reply is empty; a value that is not a number is stored as NULL and shown as 0 instead.
\<close>

lemma status_infinite:
  assumes "SetState wall st (DM_store dm) = Inr s'" "r \<in> set (DM_sensors dm)" "RN_id r = SS_ID st"
  shows "(SS_Value st = PInf \<or> SS_Value st = NInf \<longrightarrow> statusJSON (dm\<lparr>DM_store := s'\<rparr>) = NoBody)
    \<and> (SS_Value st = NaN \<longrightarrow> (\<forall>m. statusJSON (dm\<lparr>DM_store := s'\<rparr>) = Json m \<longrightarrow> map_option J_LastValue (m (SS_ID st)) = Some (Fin 0)))"
proof -
  obtain ss where g: "GetState (SS_ID st) s' = Some ss" "SS_ID ss = SS_ID st" "SS_Value ss = coalesce0 (sql_real (SS_Value st))"
    using assms(1) by (auto simp: SetState_def GetState_def Let_def update_conv' split: if_splits)
  define rows where "rows = map state_to_json (eachState (dm\<lparr>DM_store := s'\<rparr>))"
  have st: "statusJSON (dm\<lparr>DM_store := s'\<rparr>) = encode (map J_LastValue rows) (last_by J_SensorID rows)"
    by (simp add: statusJSON_def rows_def last_by_def Let_def)
  have "ss \<in> set (eachState (dm\<lparr>DM_store := s'\<rparr>))"
    using assms(2,3) g(1) by (simp add: eachState_mem) (rule bexI [of _ r], simp_all)
  then have sm: "state_to_json ss \<in> set rows" by (simp add: rows_def)
  have val: "J_LastValue x = coalesce0 (sql_real (SS_Value st))" if x: "x \<in> set rows" and j: "J_SensorID x = SS_ID st" for x
  proof -
    obtain y where y: "x = state_to_json y" "y \<in> set (eachState (dm\<lparr>DM_store := s'\<rparr>))" using x by (auto simp: rows_def)
    then obtain i where i: "GetState i s' = Some y" unfolding eachState_mem by auto
    then have "SS_ID y = i" by (auto simp: GetState_def)
    then show ?thesis using i j y(1) g by (simp add: state_to_json_def)
  qed
  show ?thesis
  proof (intro conjI impI allI)
    assume "SS_Value st = PInf \<or> SS_Value st = NInf"
    then have "\<not> finite_float (J_LastValue (state_to_json ss))"
      using g(3) by (auto simp: state_to_json_def finite_float_def sql_real_def coalesce0_def)
    then show "statusJSON (dm\<lparr>DM_store := s'\<rparr>) = NoBody" using sm unfolding st by (auto simp: encode_def list_all_iff)
  next
    fix m assume v: "SS_Value st = NaN" and "statusJSON (dm\<lparr>DM_store := s'\<rparr>) = Json m"
    then have m: "m = last_by J_SensorID rows" unfolding st by (simp add: encode_def split: if_splits)
    have "J_SensorID (state_to_json ss) = SS_ID st" using g(2) by (simp add: state_to_json_def)
    then obtain x where "m (SS_ID st) = Some x" "x \<in> set rows" "J_SensorID x = SS_ID st"
      using last_by_mem [OF sm, of J_SensorID] m by auto
    then show "map_option J_LastValue (m (SS_ID st)) = Some (Fin 0)" using val v by (simp add: sql_real_def coalesce0_def)
  qed
qed

subsection \<open>The commands\<close>

text \<open>
  The dismissal of the usage text never works: in the documented order, the resource first and the flags after it, parsing ends at the
  resource, the flags count as resources, and the command exits with the usage error without touching the database.
\<close>

lemma usage_refused:
  assumes "i \<noteq> []" "hd i \<noteq> CHR ''-''"
  shows "runWasteCLI a pint ks now (''dismiss'' # i # ''-days'' # n # rest) s = (2, s)"
proof -
  have "parse_flags pint fl (i # ''-days'' # n # rest) = Inr ([], i # ''-days'' # n # rest)" for fl using assms by simp
  then show ?thesis by (simp add: runWasteCLI_def wasteDismiss_def flag_exit_def split: option.splits)
qed

lemma usage_refused_witness: "runWasteCLI AMD64 Atoi (\<lambda>_. []) 0 [''dismiss'', ''elb-1'', ''-days'', ''7''] empty_store = (2, empty_store)"
  by (rule usage_refused) simp_all

definition wide_state :: sensor_state where
  "wide_state = \<lparr>SS_ID = ''api'', SS_State = ''critical'', SS_Value = PInf, SS_Util = Fin 1, SS_NotifyAt = time_zero, SS_UpdatedAt = time_zero\<rparr>"

lemma status_infinite_witness:
  "\<exists>s'. SetState 0 wide_state empty_store = Inr s' \<and> statusJSON ((fresh_daemon [slo_runner slo35])\<lparr>DM_store := s'\<rparr>) = NoBody"
proof -
  obtain s' where s': "SetState 0 wide_state empty_store = Inr s'" by (simp add: SetState_def wide_state_def Let_def)
  have "SetState 0 wide_state (DM_store (fresh_daemon [slo_runner slo35])) = Inr s'" using s' by (simp add: fresh_daemon_def)
  from status_infinite [OF this, of "slo_runner slo35"] show ?thesis
    using s' by (simp add: fresh_daemon_def slo_runner_def slo35_def wide_state_def)
qed

end
