(* ===== verification/Prompts.thy ===== *)
theory Prompts
  imports Api
begin

text \<open>
  The texts that \<^verbatim>\<open>sentinel-gen\<close> sends to the language model (\<^verbatim>\<open>cmd/sentinel-gen/prompts.go\<close>), as bytes.

  Main result: a prompt carries all that it was given (\<open>prompts_carry\<close>).
\<close>

definition contract :: string where
  "contract = join [CHR 0x0A]
    [utf8 [227, 128, 144] @ ''sentinel '' @ utf8 [229, 174, 154, 231, 190, 169, 230, 170, 148] @ '' schema '' @ utf8 [229, 165, 145, 231, 180, 132, 227, 128, 145],
     ''1. capacity '' @ utf8 [229, 174, 182, 230, 151, 143, 239, 188, 136] @ ''capacity_defs/*.yaml'' @ utf8 [239, 188, 137, 239, 188, 154],
     ''   sensors:'',
     ''     - id: <'' @ utf8 [229, 148, 175, 228, 184, 128, 232, 173, 152, 229, 136, 165, 239, 188, 140, 229, 191, 133, 229, 161, 171] @ ''>'',
     ''       desc: <'' @ utf8 [228, 186, 186, 232, 169, 177, 230, 143, 143, 232, 191, 176] @ ''>'',
     ''       service: <'' @ utf8 [229, 136, 134, 232, 168, 186, 231, 148, 168, 230, 156, 141, 229, 139, 153, 229, 144, 141, 239, 188, 140, 229, 143, 175, 233, 129, 184] @ ''>      # scope/cluster '' @ utf8 [228, 186, 166, 231, 130, 186, 233, 129, 184, 233, 133, 141] @ '' label'',
     ''       metric:'',
     ''         value:   <PromQL'' @ utf8 [239, 188, 154, 231, 143, 190, 229, 156, 168, 230, 182, 136, 232, 128, 151, 233, 135, 143] @ ''>    # '' @ utf8 [229, 191, 133, 229, 161, 171],
     ''         ceiling: <PromQL'' @ utf8 [239, 188, 154, 228, 184, 138, 233, 153, 144] @ ''>          # '' @ utf8 [229, 191, 133, 229, 161, 171],
     ''       horizons: [1h, 6h, 3d]            # '' @ utf8 [229, 143, 175, 233, 129, 184, 239, 188, 155, 230, 191, 128, 233, 128, 178] @ '' ETA '' @ utf8 [231, 182, 129, 229, 174, 154] @ '' 1h '' @ utf8 [231, 170, 151],
     ''   value/ceiling '' @ utf8 [233, 131, 189, 229, 191, 133, 233, 160, 136, 229, 155, 158, 229, 130, 179] @ '' instant vector'' @ utf8 [226, 128, 148, 226, 128, 148, 232, 163, 184] @ '' scalar '' @ utf8 [229, 135, 189, 229, 188, 143, 239, 188, 136, 229, 166, 130] @ '' time()'' @ utf8 [239, 188, 137],
     ''   '' @ utf8 [232, 166, 129, 229, 140, 133] @ '' vector()'' @ utf8 [227, 128, 130, 229, 188, 149, 230, 147, 142, 233, 160, 144, 230, 184, 172] @ '' value '' @ utf8 [228, 189, 149, 230, 153, 130, 232, 167, 184, 229, 143, 138] @ '' ceiling'' @ utf8 [227, 128, 130],
     ''2. slo '' @ utf8 [229, 174, 182, 230, 151, 143, 239, 188, 136] @ ''slo_defs/*.yaml'' @ utf8 [239, 188, 137, 239, 188, 154],
     ''   slos:'',
     ''     - id: <'' @ utf8 [229, 191, 133, 229, 161, 171] @ ''>'',
     ''       service: <'' @ utf8 [229, 143, 175, 233, 129, 184] @ ''>'',
     ''       sli_query: <PromQL '' @ utf8 [233, 140, 175, 232, 170, 164, 231, 142, 135, 239, 188, 140, 229, 128, 188, 229, 159, 159] @ '' [0,1]'' @ utf8 [239, 188, 140, 229, 191, 133, 229, 161, 171] @ ''>'',
     ''       objective: <'' @ utf8 [231, 153, 190, 229, 136, 134, 230, 175, 148] @ '' (0,100)'' @ utf8 [239, 188, 140, 229, 166, 130] @ '' 99.9'' @ utf8 [239, 188, 140, 229, 191, 133, 229, 161, 171] @ ''>'',
     ''       window_days: 28                   # '' @ utf8 [229, 143, 175, 233, 129, 184],
     ''3. waste '' @ utf8 [229, 174, 182, 230, 151, 143, 239, 188, 136] @ ''rules.d/*.yaml'' @ utf8 [239, 188, 140] @ ''Prometheus alert rule '' @ utf8 [230, 160, 188, 229, 188, 143, 239, 188, 137, 239, 188, 154],
     ''   - alert: <'' @ utf8 [229, 144, 141, 231, 168, 177] @ ''>'',
     ''     expr: <'' @ utf8 [229, 184, 131, 230, 158, 151, 230, 140, 129, 231, 186, 140, 230, 136, 144, 231, 171, 139, 229, 158, 139, 239, 188, 140, 229, 166, 130] @ '' max_over_time(x[14d]) <= 10>'',
     ''     for: 14d'',
     ''     labels: { sentinel_kind: waste, sentinel_sensor: <id>, notify_every: 7d }'',
     ''     annotations: { summary: '' @ [CHR 0x22] @ ''<'' @ utf8 [228, 186, 186, 232, 169, 177, 231, 144, 134, 231, 148, 177] @ ''>'' @ [CHR 0x22] @ '' }'',
     ''4. thresholds '' @ utf8 [229, 155, 155, 230, 172, 132, 231, 154, 134, 229, 143, 175, 233, 129, 184, 239, 188, 136] @ ''capacity '' @ utf8 [232, 136, 135] @ '' slo '' @ utf8 [231, 154, 134, 230, 156, 137, 239, 188, 137, 239, 188, 154] @ ''warn_eta/crit_eta/'',
     ''   soft_ratio/crit_ratio'' @ utf8 [239, 188, 140, 233, 160, 144, 232, 168, 173] @ '' 72h/6h/0.80/0.95'' @ utf8 [239, 188, 155],
     ''   '' @ utf8 [233, 169, 151, 232, 173, 137, 232, 166, 143, 229, 137, 135] @ '' soft_ratio < crit_ratio '' @ utf8 [228, 184, 148] @ '' warn_eta > crit_eta'' @ utf8 [239, 188, 140, 233, 129, 149, 229, 143, 141, 230, 156, 131, 232, 162, 171, 230, 139, 146, 231, 181, 149, 227, 128, 130],
     ''5. '' @ utf8 [229, 133, 168, 233, 131, 168, 232, 168, 187, 232, 167, 163, 231, 148, 168, 231, 185, 129, 233, 171, 148, 228, 184, 173, 230, 150, 135, 239, 188, 140, 232, 170, 170, 230, 152, 142, 230, 175, 143, 230, 162, 157] @ '' expr '' @ utf8 [231, 154, 132, 230, 165, 173, 229, 139, 153, 232, 170, 158, 230, 132, 143, 232, 136, 135, 232, 170, 191, 230, 149, 180, 233, 187, 158, 227, 128, 130],
     ''6. '' @ utf8 [228, 184, 141, 231, 162, 186, 229, 174, 154, 230, 140, 135, 230, 168, 153, 230, 152, 175, 229, 144, 166, 229, 173, 152, 229, 156, 168, 230, 153, 130, 239, 188, 140, 230, 152, 142, 231, 162, 186, 230, 168, 153, 230, 179, 168, 227, 128, 140, 229, 133, 136, 233, 169, 151, 232, 173, 137, 233, 128, 153, 230, 162, 157, 230, 159, 165, 232, 169, 162, 227, 128, 141, 239, 188, 140, 228, 184, 141, 229, 190, 151, 229, 129, 135, 232, 163, 157, 232, 131, 189, 229, 139, 149, 227, 128, 130]]"

definition generateSystem :: string where
  "generateSystem = (utf8 [228, 189, 160, 230, 152, 175] @ '' Prometheus '' @ utf8 [231, 155, 163, 230, 142, 167, 232, 168, 173, 229, 174, 154, 229, 176, 136, 229, 174, 182, 239, 188, 140, 231, 134, 159, 230, 130, 137] @ '' slo-sentinel '' @ utf8 [231, 154, 132, 229, 174, 163, 229, 145, 138, 229, 188, 143, 229, 174, 154, 231, 190, 169, 230, 170, 148, 227, 128, 130, 229, 143, 170, 232, 188, 184, 229, 135, 186] @ '' YAML'' @ utf8 [239, 188, 136] @ ''```yaml '' @ utf8 [229, 156, 141, 230, 172, 132, 239, 188, 137, 239, 188, 140, 228, 184, 166, 229, 156, 168, 230, 156, 128, 229, 190, 140, 233, 153, 132, 232, 135, 170, 230, 136, 145, 230, 170, 162, 230, 159, 165, 230, 184, 133, 229, 150, 174, 233, 128, 144, 233, 160, 133, 231, 162, 186, 232, 170, 141, 229, 165, 145, 231, 180, 132, 227, 128, 130])"

definition prompt_family :: "string \<Rightarrow> string" where
  "prompt_family kind =
     (if kind = ''capacity'' then utf8 [231, 148, 162, 229, 135, 186] @ '' capacity '' @ utf8 [229, 174, 182, 230, 151, 143, 232, 168, 173, 229, 174, 154, 239, 188, 136] @ ''sensors '' @ utf8 [229, 136, 151, 232, 161, 168, 239, 188, 137]
      else if kind = ''slo'' then utf8 [231, 148, 162, 229, 135, 186] @ '' slo '' @ utf8 [229, 174, 182, 230, 151, 143, 232, 168, 173, 229, 174, 154, 239, 188, 136] @ ''slos '' @ utf8 [229, 136, 151, 232, 161, 168, 239, 188, 137]
      else utf8 [231, 148, 162, 229, 135, 186] @ '' waste '' @ utf8 [229, 174, 182, 230, 151, 143, 232, 168, 173, 229, 174, 154, 239, 188, 136] @ ''Prometheus alert rules'' @ utf8 [239, 188, 140, 229, 184, 182] @ '' sentinel_kind: waste labels'' @ utf8 [239, 188, 137])"

definition generateUser :: "string \<Rightarrow> string \<Rightarrow> string \<Rightarrow> string" where
  "generateUser kind desc extra =
     contract
     @ ([CHR 0x0A] @ [CHR 0x0A] @ utf8 [227, 128, 144, 228, 187, 187, 229, 139, 153, 227, 128, 145])
     @ prompt_family kind
     @ ([CHR 0x0A] @ utf8 [227, 128, 144, 233, 156, 128, 230, 177, 130, 230, 143, 143, 232, 191, 176, 227, 128, 145] @ [CHR 0x0A])
     @ desc
     @ ([CHR 0x0A])
     @ (if extra = [] then [] else [CHR 0x0A] @ utf8 [227, 128, 144, 232, 163, 156, 229, 133, 133, 231, 183, 154, 231, 180, 162, 239, 188, 136, 230, 140, 135, 230, 168, 153, 229, 137, 141, 231, 182, 180, 227, 128, 129, 229, 183, 178, 231, 159, 165, 229, 186, 143, 229, 136, 151, 231, 173, 137, 239, 188, 137, 227, 128, 145] @ [CHR 0x0A] @ extra @ [CHR 0x0A])"

definition reviewSystem :: string where
  "reviewSystem = (utf8 [228, 189, 160, 230, 152, 175] @ '' sentinel '' @ utf8 [229, 174, 154, 231, 190, 169, 230, 170, 148, 231, 154, 132, 229, 154, 180, 230, 160, 188, 229, 175, 169, 230, 159, 165, 232, 128, 133, 227, 128, 130, 229, 143, 170, 228, 190, 157, 228, 184, 139, 229, 136, 151, 229, 165, 145, 231, 180, 132, 230, 170, 162, 230, 159, 165, 239, 188, 140, 228, 184, 141, 231, 140, 156, 230, 184, 172, 230, 156, 170, 230, 143, 144, 228, 190, 155, 231, 154, 132, 231, 146, 176, 229, 162, 131, 232, 179, 135, 232, 168, 138, 227, 128, 130, 232, 188, 184, 229, 135, 186, 230, 160, 188, 229, 188, 143, 239, 188, 154, 229, 149, 143, 233, 161, 140, 229, 136, 151, 232, 161, 168, 239, 188, 136, 230, 175, 143, 232, 161, 140, 227, 128, 140] @ ''- ['' @ utf8 [228, 189, 141, 231, 189, 174] @ ''] '' @ utf8 [229, 149, 143, 233, 161, 140, 239, 188, 154, 229, 187, 186, 232, 173, 176, 227, 128, 141, 239, 188, 137, 239, 188, 140, 230, 156, 128, 229, 190, 140, 228, 184, 128, 232, 161, 140, 229, 150, 174, 231, 141, 168, 232, 188, 184, 229, 135, 186] @ '' PASS '' @ utf8 [230, 136, 150] @ '' NEEDS FIX'' @ utf8 [227, 128, 130])"

definition reviewUser :: "string \<Rightarrow> string \<Rightarrow> string" where
  "reviewUser kind body =
     contract
     @ ([CHR 0x0A] @ [CHR 0x0A] @ utf8 [227, 128, 144, 229, 190, 133, 229, 175, 169, 230, 159, 165, 231, 154, 132] @ '' '')
     @ kind
     @ ('' '' @ utf8 [229, 174, 182, 230, 151, 143, 229, 174, 154, 231, 190, 169, 230, 170, 148, 227, 128, 145] @ [CHR 0x0A])
     @ body
     @ ([CHR 0x0A] @ [CHR 0x0A] @ utf8 [232, 171, 139, 233, 135, 141, 233, 187, 158, 233, 187, 158, 230, 170, 162, 230, 159, 165, 239, 188, 154, 230, 172, 132, 228, 189, 141, 230, 139, 188, 229, 173, 151, 229, 177, 164, 231, 180, 154, 227, 128, 129] @ ''PromQL '' @ utf8 [230, 152, 175, 229, 144, 166] @ '' instant vector'' @ utf8 [239, 188, 136, 232, 163, 184] @ '' scalar '' @ utf8 [233, 153, 183, 233, 152, 177, 239, 188, 137, 227, 128, 129] @ ''slo '' @ utf8 [231, 154, 132] @ '' sli_query '' @ utf8 [229, 128, 188, 229, 159, 159] @ '' [0,1] '' @ utf8 [232, 136, 135, 233, 153, 164, 233, 155, 182, 233, 152, 178, 232, 173, 183, 227, 128, 129] @ ''thresholds '' @ utf8 [231, 181, 132, 229, 144, 136, 229, 144, 136, 230, 179, 149, 230, 128, 167, 227, 128, 129] @ ''ceiling '' @ utf8 [230, 152, 175, 229, 144, 166, 229, 143, 175, 232, 131, 189, 229, 176, 143, 230, 150, 188] @ '' value'' @ utf8 [227, 128, 129, 230, 179, 162, 229, 139, 149, 229, 158, 139, 232, 179, 135, 230, 186, 144, 230, 152, 175, 229, 144, 166, 232, 170, 164, 231, 148, 168, 230, 136, 144, 233, 149, 183, 232, 170, 158, 230, 132, 143, 227, 128, 130])"

definition fixSystem :: string where
  "fixSystem = (utf8 [228, 189, 160, 230, 152, 175] @ '' sentinel '' @ utf8 [229, 174, 154, 231, 190, 169, 230, 170, 148, 228, 191, 174, 229, 190, 169, 232, 128, 133, 227, 128, 130, 230, 160, 185, 230, 147, 154, 229, 175, 169, 230, 159, 165, 229, 149, 143, 233, 161, 140, 229, 136, 151, 232, 161, 168, 228, 191, 174, 230, 173, 163] @ '' YAML'' @ utf8 [239, 188, 140, 229, 143, 170, 232, 188, 184, 229, 135, 186, 228, 191, 174, 230, 173, 163, 229, 190, 140, 229, 174, 140, 230, 149, 180] @ '' YAML'' @ utf8 [239, 188, 136] @ ''```yaml '' @ utf8 [229, 156, 141, 230, 172, 132, 239, 188, 137, 239, 188, 140, 228, 184, 141, 232, 166, 129, 232, 167, 163, 233, 135, 139, 227, 128, 130])"

definition fixUser :: "string \<Rightarrow> string \<Rightarrow> string list \<Rightarrow> string" where
  "fixUser kind body issues =
     contract
     @ ([CHR 0x0A] @ [CHR 0x0A] @ utf8 [227, 128, 144])
     @ kind
     @ ('' '' @ utf8 [229, 174, 182, 230, 151, 143, 229, 174, 154, 231, 190, 169, 230, 170, 148, 239, 188, 136, 230, 156, 137, 229, 149, 143, 233, 161, 140, 239, 188, 137, 227, 128, 145] @ [CHR 0x0A])
     @ body
     @ ([CHR 0x0A] @ [CHR 0x0A] @ utf8 [227, 128, 144, 229, 191, 133, 233, 160, 136, 228, 191, 174, 229, 190, 169, 231, 154, 132, 229, 149, 143, 233, 161, 140, 227, 128, 145] @ [CHR 0x0A])
     @ join [CHR 0x0A] issues
     @ ([CHR 0x0A])"

text \<open>What a prompt was given is part of its text.\<close>

definition carries :: "string \<Rightarrow> string \<Rightarrow> bool" where
  "carries p s \<longleftrightarrow> (\<exists>u v. p = u @ s @ v)"

lemma carries_left: "carries q s \<Longrightarrow> carries (p @ q) s"
  unfolding carries_def by (metis append.assoc)

lemma carries_right: "carries p s \<Longrightarrow> carries (p @ q) s"
  unfolding carries_def by (metis append.assoc)

lemma carries_self [simp]: "carries s s" "carries s []"
  unfolding carries_def by (metis append_Nil append_Nil2)+

lemma carries_join: "x \<in> set xs \<Longrightarrow> carries (join sep xs) x"
proof (induction sep xs rule: join.induct)
  case (3 sep a b xs)
  then have "x = a \<or> carries (join sep (b # xs)) x" by auto
  then show ?case by (auto intro: carries_left carries_right)
qed auto

text \<open>A text in the middle of a chain of texts.\<close>

lemma carries_third: "carries (a @ b @ s @ r) s" "carries r s \<Longrightarrow> carries (a @ b @ c @ d @ r) s"
  by (rule carries_left, rule carries_left, rule carries_right, rule carries_self) (rule carries_left, rule carries_left, rule carries_left, rule carries_left)

lemma prompts_carry:
  "carries (generateUser kind desc extra) desc" "carries (generateUser kind desc extra) extra"
  "carries (reviewUser kind body) kind" "carries (reviewUser kind body) body"
  "carries (fixUser kind body issues) kind" "carries (fixUser kind body issues) body"
  "i \<in> set issues \<Longrightarrow> carries (fixUser kind body issues) i"
proof -
  show "carries (generateUser kind desc extra) desc" unfolding generateUser_def
    by (rule carries_third(2), rule carries_right, rule carries_self)
  show "carries (generateUser kind desc extra) extra"
  proof (cases "extra = []")
    case False
    show ?thesis unfolding generateUser_def if_not_P [OF False]
      by (rule carries_third(2), rule carries_third(2), rule carries_left, rule carries_right, rule carries_self)
  qed simp
  show "carries (reviewUser kind body) kind" unfolding reviewUser_def by (rule carries_third(1))
  show "carries (reviewUser kind body) body" unfolding reviewUser_def
    by (rule carries_third(2), rule carries_right, rule carries_self)
  show "carries (fixUser kind body issues) kind" unfolding fixUser_def by (rule carries_third(1))
  show "carries (fixUser kind body issues) body" unfolding fixUser_def
    by (rule carries_third(2), rule carries_right, rule carries_self)
  show "i \<in> set issues \<Longrightarrow> carries (fixUser kind body issues) i" unfolding fixUser_def
    by (rule carries_third(2), rule carries_left, rule carries_left, rule carries_right, rule carries_join)
qed

end
