(* ===== verification/Gen.thy ===== *)
theory Gen
  imports Prompts
begin

text \<open>
  The tool that generates, reviews, verifies and repairs definition files (\<^verbatim>\<open>cmd/sentinel-gen\<close>): its static checks with the loaders of the
  daemon (\<^verbatim>\<open>validate.go\<close>), the live check against Prometheus, the client of the language model and the extraction of its YAML
  (\<^verbatim>\<open>llm.go\<close>), the four commands (\<^verbatim>\<open>commands.go\<close>) and the tool as a whole (\<^verbatim>\<open>main.go\<close>). Parameters: the file system, the YAML and JSON decoders,
  \<^verbatim>\<open>promtool\<close> and the HTTP answers.

  Main results: what a verified file guarantees the daemon (\<open>verified_file\<close>), that a repair without \<^verbatim>\<open>-kind\<close> never accepts what the model
  wrote last (\<open>fix_sound\<close>), what a repair can change (\<open>fix_effects\<close>), and the extraction of a fenced block
  (\<open>extractYAML_fenced\<close>).
\<close>

datatype issue_level = ERROR | WARN

record issue =
  I_Level :: issue_level
  I_Where :: string
  I_Msg :: string

definition issue_String :: "issue \<Rightarrow> string" where
  "issue_String i = ''['' @ (case I_Level i of ERROR \<Rightarrow> ''ERROR'' | WARN \<Rightarrow> ''WARN'') @ ''] '' @ I_Where i @ utf8 [239, 188, 154] @ '' '' @ I_Msg i"

definition countErrors :: "issue list \<Rightarrow> nat" where
  "countErrors iss = length (filter (\<lambda>i. I_Level i = ERROR) iss)"

definition NL :: char where
  "NL = CHR 0x0A"

definition detectKind :: "string \<Rightarrow> string" where
  "detectKind body =
     (if Contains body (NL # ''sensors:'') \<or> HasPrefix (TrimSpace body) ''sensors:'' then ''capacity''
      else if Contains body (NL # ''slos:'') \<or> HasPrefix (TrimSpace body) ''slos:''
        \<or> Contains body (NL # ''- id:'') \<and> Contains body ''sli_query'' then ''slo''
      else ''waste'')"

subsection \<open>What lies outside\<close>

text \<open>The decoded answer of an instant query: its status, its error, the type of its result and the number of series.\<close>

record prom_body =
  PB_Status :: string
  PB_Error :: string
  PB_ResultType :: string
  PB_Series :: nat

text \<open>A request to the language model; \<open>None\<close>: no \<^verbatim>\<open>Authorization\<close> header.\<close>

record llm_request =
  LR_URL :: string
  LR_Auth :: "string option"
  LR_Model :: string
  LR_System :: string
  LR_User :: string

record gen_env =
  GE_arch :: arch
  GE_caps :: "string \<Rightarrow> capdef list res"
  GE_slos :: "string \<Rightarrow> slo list res"
  GE_rules :: "string \<Rightarrow> rules_file res"
  GE_object :: "string \<Rightarrow> bool"
  GE_promtool :: promtool
  GE_now :: time
  GE_tmp :: "string res"
  GE_url :: "string \<Rightarrow> (string \<times> (string \<times> string) list) option"
  GE_get :: "string \<Rightarrow> http"
  GE_body :: "string \<Rightarrow> prom_body option"
  GE_post :: "nat \<Rightarrow> llm_request \<Rightarrow> http"
  GE_choices :: "string \<Rightarrow> string list option"
  GE_write :: "string \<Rightarrow> unit res"

subsection \<open>The static checks\<close>

text \<open>\<^verbatim>\<open>filepath.Base\<close>.\<close>

definition Base :: "string \<Rightarrow> string" where
  "Base p = (if p = [] then ''.''
     else let q = dropWhile (\<lambda>c. c = CHR ''/'') (rev p) in if q = [] then ''/'' else rev (takeWhile (\<lambda>c. c \<noteq> CHR ''/'') q))"

text \<open>The directory that holds nothing but a copy of the file, and the catalog loaded from it.\<close>

definition staged_fs :: "string \<Rightarrow> string \<Rightarrow> string \<Rightarrow> filesys" where
  "staged_fs tmp dst raw =
     \<lparr>Stat = (\<lambda>p. if p = tmp then IsDir else if p = dst then IsFile else NotExist), ReadDir = (\<lambda>_. Inr [Base dst]),
      ReadFile = (\<lambda>p. if p = dst then Inr raw else Inl (Err p))\<rparr>"

definition staged_load :: "gen_env \<Rightarrow> filesys \<Rightarrow> string \<Rightarrow> (catalog \<times> (string \<times> string) list) res res" where
  "staged_load env fs path =
     res_bind (GE_tmp env) (\<lambda>tmp. res_bind (ReadFile fs path) (\<lambda>raw.
       let dst = tmp @ ''/'' @ Base path in
       res_bind (GE_write env dst) (\<lambda>_.
         Inr (Loader_Load (GE_arch env) (staged_fs tmp dst raw) (\<lambda>_. [WalkDirectory tmp, WalkFile dst]) (GE_promtool env) (GE_rules env) tmp (GE_now env)))))"

definition threshold_issues :: "gen_env \<Rightarrow> capdef list \<Rightarrow> issue list" where
  "threshold_issues env defs =
     concat (map (\<lambda>d. case validate (Resolve (GE_arch env) (C_Thresholds d)) of Inr _ \<Rightarrow> [] | Inl e \<Rightarrow> [\<lparr>I_Level = ERROR, I_Where = C_ID d, I_Msg = err_text e\<rparr>]) defs)"

definition attr_issues :: "gen_env \<Rightarrow> rule list \<Rightarrow> issue list" where
  "attr_issues env rs =
     concat (map (\<lambda>r. let js = map_get (Labels r) ''sentinel_price_attrs'' in
       if js \<noteq> [] \<and> \<not> GE_object env js then [\<lparr>I_Level = ERROR, I_Where = ID r, I_Msg = ''sentinel_price_attrs''\<rparr>] else []) rs)"

definition staticValidate :: "gen_env \<Rightarrow> filesys \<Rightarrow> string \<Rightarrow> string \<Rightarrow> issue list res" where
  "staticValidate env fs path kind =
     (let fail = (\<lambda>m. \<lparr>I_Level = ERROR, I_Where = path, I_Msg = m\<rparr>) in
      if kind = ''capacity'' then
        (case LoadDefs fs (GE_caps env) path of Inl e \<Rightarrow> Inr [fail (err_text e)]
         | Inr defs \<Rightarrow> Inr ((if defs = [] then [fail ''sensors''] else []) @ threshold_issues env defs))
      else if kind = ''slo'' then
        (case Load (GE_arch env) fs (GE_slos env) path of Inl e \<Rightarrow> Inr [fail (err_text e)]
         | Inr slos \<Rightarrow> Inr (if slos = [] then [fail ''slos''] else []))
      else if kind = ''waste'' then
        res_bind (staged_load env fs path) (\<lambda>l. case l of Inl e \<Rightarrow> Inr [fail (err_text e)]
          | Inr (cat, quarantined) \<Rightarrow>
              (let wastes = RulesOfKind cat KindWaste
               in Inr (map (\<lambda>(p, reason). \<lparr>I_Level = ERROR, I_Where = p, I_Msg = reason\<rparr>) quarantined
                    @ (if wastes = [] then [\<lparr>I_Level = WARN, I_Where = path, I_Msg = ''sentinel_kind''\<rparr>] else [])
                    @ attr_issues env wastes)))
      else Inl (Err kind))"

subsection \<open>The live check\<close>

record live_expr =
  LE_Desc :: string
  LE_Expr :: string
  LE_ResultType :: string
  LE_Series :: nat

definition gen_truncate :: "string \<Rightarrow> nat \<Rightarrow> string" where
  "gen_truncate s n = (if length s \<le> n then s else take n s @ utf8 [226, 128, 166])"

text \<open>
  The query goes to the given address itself: its parameters, which may repeat, without any earlier \<^verbatim>\<open>query\<close>, and the expression, encoded in the order of
  their names. Eight megabytes of the answer are read.
\<close>

definition live_url :: "string \<times> (string \<times> string) list \<Rightarrow> string \<Rightarrow> string" where
  "live_url = (\<lambda>(base, params) expr.
     base @ ''?'' @ join ''&'' (map (\<lambda>(k, v). QueryEscape k @ ''='' @ QueryEscape v)
       (sort_key fst (filter (\<lambda>(k, v). k \<noteq> ''query'') params @ [(''query'', expr)]))))"

definition live_limit :: nat where
  "live_limit = 8388608"

definition liveCheckExpr :: "gen_env \<Rightarrow> string \<Rightarrow> string \<Rightarrow> live_expr res" where
  "liveCheckExpr env promURL expr =
     (case GE_url env promURL of None \<Rightarrow> Inl (Err promURL)
      | Some u \<Rightarrow>
          (case GE_get env (live_url u expr) of
             BadRequest e \<Rightarrow> Inl (Err e)
           | NetErr e \<Rightarrow> Inl (Err e)
           | Resp st data \<Rightarrow>
               let raw = take live_limit data in
               if st \<noteq> 200 then Inl (Err (dec_int st @ '': '' @ gen_truncate raw 120))
               else (case GE_body env raw of None \<Rightarrow> Inl (Err ''JSON'')
                 | Some b \<Rightarrow>
                     if PB_Status b \<noteq> ''success'' then Inl (Err (PB_Status b @ '' '' @ PB_Error b))
                     else Inr \<lparr>LE_Desc = expr, LE_Expr = expr, LE_ResultType = PB_ResultType b, LE_Series = PB_Series b\<rparr>)))"

definition collectExprs :: "gen_env \<Rightarrow> filesys \<Rightarrow> string \<Rightarrow> string \<Rightarrow> (string \<times> string) list res" where
  "collectExprs env fs kind path =
     (if kind = ''capacity'' then
        res_bind (LoadDefs fs (GE_caps env) path) (\<lambda>defs. Inr (concat (map (\<lambda>d. [(C_ID d @ '' value'', C_Value d), (C_ID d @ '' ceiling'', C_Ceiling d)]) defs)))
      else if kind = ''slo'' then
        res_bind (Load (GE_arch env) fs (GE_slos env) path) (\<lambda>slos. Inr (map (\<lambda>s. (L_ID s @ '' sli_query'', L_SLIQuery s)) slos))
      else if kind = ''waste'' then
        res_bind (staged_load env fs path) (\<lambda>l. res_bind l (\<lambda>(cat, _). Inr (map (\<lambda>r. (ID r, Expr r)) (RulesOfKind cat KindWaste))))
      else Inr [])"

definition live_ok :: "live_expr res \<Rightarrow> bool" where
  "live_ok r = (case r of Inl _ \<Rightarrow> False | Inr l \<Rightarrow> LE_ResultType l = ''vector'' \<and> LE_Series l \<noteq> 0)"

subsection \<open>The language model\<close>

record gen_config =
  GC_URL :: string
  GC_Key :: string
  GC_Model :: string

definition loadEnv :: "(string \<Rightarrow> string) \<Rightarrow> gen_config" where
  "loadEnv env = \<lparr>GC_URL = rev (dropWhile (\<lambda>c. c = CHR ''/'') (rev (env ''GEN_LLM_URL''))), GC_Key = env ''GEN_LLM_KEY'', GC_Model = env ''GEN_LLM_MODEL''\<rparr>"

definition requireLLM :: "gen_config \<Rightarrow> unit res" where
  "requireLLM c = (if GC_URL c = [] \<or> GC_Model c = [] then Inl (Err ''GEN_LLM_URL'') else Inr ())"

definition llm_request_of :: "gen_config \<Rightarrow> string \<Rightarrow> string \<Rightarrow> llm_request" where
  "llm_request_of c system user =
     \<lparr>LR_URL = GC_URL c @ ''/chat/completions'', LR_Auth = (if GC_Key c \<noteq> [] then Some (''Bearer '' @ GC_Key c) else None),
      LR_Model = GC_Model c, LR_System = system, LR_User = user\<rparr>"

definition llm_limit :: nat where
  "llm_limit = 33554432"

text \<open>\<open>i\<close> counts the requests of a run.\<close>

definition llm_complete :: "gen_env \<Rightarrow> gen_config \<Rightarrow> nat \<Rightarrow> string \<Rightarrow> string \<Rightarrow> string res" where
  "llm_complete env c i system user =
     (case GE_post env i (llm_request_of c system user) of
        BadRequest e \<Rightarrow> Inl (Err e)
      | NetErr e \<Rightarrow> Inl (Err e)
      | Resp st data \<Rightarrow>
          let raw = take llm_limit data in
          if st < 200 \<or> st \<ge> 300 then Inl (Err (dec_int st @ '': '' @ gen_truncate raw 200))
          else (case GE_choices env raw of None \<Rightarrow> Inl (Err ''JSON'')
            | Some [] \<Rightarrow> Inl (Err ''choices'')
            | Some (x # _) \<Rightarrow> Inr x))"

text \<open>The scan for the first fenced block: whether one was opened, and its lines.\<close>

fun fence_scan :: "string list \<Rightarrow> bool \<Rightarrow> bool \<Rightarrow> string list \<Rightarrow> bool \<times> string list" where
  "fence_scan [] inFence inYAML buf = (inYAML, buf)"
| "fence_scan (line # lines) inFence inYAML buf =
     (let t = TrimSpace line in
      if \<not> inFence \<and> (t = ''```yaml'' \<or> t = ''```yml'') then fence_scan lines True True buf
      else if inFence \<and> t = ''```'' then (inYAML, buf)
      else fence_scan lines inFence inYAML (if inFence then buf @ [line] else buf))"

definition content_line :: "string \<Rightarrow> bool" where
  "content_line line \<longleftrightarrow> (let t = TrimSpace line in
     t \<noteq> [] \<and> \<not> HasPrefix t (utf8 [239, 188, 136]) \<and> \<not> HasPrefix t (utf8 [228, 187, 165, 228, 184, 139, 230, 152, 175]))"

definition extractYAML :: "string \<Rightarrow> string" where
  "extractYAML txt =
     (let lines = split_at NL txt []; (inYAML, buf) = fence_scan lines False False []
      in if inYAML \<and> buf \<noteq> [] then join [NL] buf else join [NL] (buf @ filter content_line lines))"

subsection \<open>The commands\<close>

type_synonym files = "string \<rightharpoonup> string"

definition fs_of :: "files \<Rightarrow> filesys" where
  "fs_of m = \<lparr>Stat = (\<lambda>p. if m p = None then NotExist else IsFile), ReadDir = (\<lambda>_. Inr []), ReadFile = (\<lambda>p. opt_res p (m p))\<rparr>"

definition write_file :: "gen_env \<Rightarrow> string \<Rightarrow> string \<Rightarrow> files \<Rightarrow> files res" where
  "write_file env p b m = res_bind (GE_write env p) (\<lambda>_. Inr (m(p \<mapsto> b)))"

definition kind_or :: "string \<Rightarrow> string \<Rightarrow> string" where
  "kind_or kind body = (if kind = [] then detectKind body else kind)"

text \<open>\<open>Inr (Some t)\<close>: the text is printed instead of written.\<close>

definition cmdGenerate :: "gen_env \<Rightarrow> gen_config \<Rightarrow> string \<Rightarrow> string \<Rightarrow> string \<Rightarrow> string \<Rightarrow> files \<Rightarrow> string option res \<times> files" where
  "cmdGenerate env c kind desc out extra m =
     (case requireLLM c of Inl e \<Rightarrow> (Inl e, m)
      | Inr _ \<Rightarrow>
          if desc = [] then (Inl (Err ''-desc''), m)
          else (case llm_complete env c 0 generateSystem (generateUser kind desc extra) of
              Inl e \<Rightarrow> (Inl e, m)
            | Inr txt \<Rightarrow>
                (let y = extractYAML txt in
                 if TrimSpace y = [] then (Inl (Err ''YAML''), m)
                 else if out = [] then (Inr (Some y), m)
                 else (case write_file env out y m of Inl e \<Rightarrow> (Inl e, m) | Inr m' \<Rightarrow> (Inr None, m')))))"

definition cmdReview :: "gen_env \<Rightarrow> gen_config \<Rightarrow> string \<Rightarrow> string \<Rightarrow> bool \<Rightarrow> filesys \<Rightarrow> unit res" where
  "cmdReview env c file kind useLLM fs =
     (if file = [] then Inl (Err ''-file'')
      else res_bind (ReadFile fs file) (\<lambda>body.
        let k = kind_or kind body in
        res_bind (staticValidate env fs file k) (\<lambda>iss.
          let errs = countErrors iss;
              errs = (if useLLM \<and> GC_URL c \<noteq> [] then
                  (case llm_complete env c 0 reviewSystem (reviewUser k body) of
                     Inl _ \<Rightarrow> errs
                   | Inr txt \<Rightarrow> if Contains txt ''NEEDS FIX'' then errs + 1 else errs)
                else errs)
          in if errs > 0 then Inl (Err ''review'') else Inr ())))"

definition cmdVerify :: "gen_env \<Rightarrow> string \<Rightarrow> string \<Rightarrow> string \<Rightarrow> filesys \<Rightarrow> unit res" where
  "cmdVerify env file prom kind fs =
     (if file = [] \<or> prom = [] then Inl (Err ''-file'')
      else res_bind (ReadFile fs file) (\<lambda>body.
        let k = kind_or kind body in
        res_bind (staticValidate env fs file k) (\<lambda>iss.
          if countErrors iss > 0 then Inl (Err ''static'')
          else res_bind (collectExprs env fs k file) (\<lambda>exprs.
            if exprs = [] then Inl (Err ''expr'')
            else let failed = length (filter (\<lambda>(_, x). \<not> live_ok (liveCheckExpr env prom x)) exprs)
              in if failed > 0 then Inl (Err ''verify'') else Inr ()))))"

text \<open>The rounds of a repair; \<open>Inr True\<close>: the file passed at the start of a round.\<close>

fun fix_rounds :: "gen_env \<Rightarrow> gen_config \<Rightarrow> string \<Rightarrow> string \<Rightarrow> nat \<Rightarrow> nat \<Rightarrow> files \<Rightarrow> bool res \<times> nat \<times> files" where
  "fix_rounds env c file kind 0 i m = (Inr False, i, m)"
| "fix_rounds env c file kind (Suc n) i m =
     (case m file of None \<Rightarrow> (Inl (Err file), i, m)
      | Some body \<Rightarrow>
          (let k = kind_or kind body;
               iss = (case staticValidate env (fs_of m) file k of Inr iss \<Rightarrow> iss | Inl e \<Rightarrow> [\<lparr>I_Level = ERROR, I_Where = file, I_Msg = err_text e\<rparr>])
           in if countErrors iss = 0 then (Inr True, i, m)
              else (case llm_complete env c i fixSystem (fixUser k body (map issue_String iss)) of
                  Inl e \<Rightarrow> (Inl e, Suc i, m)
                | Inr txt \<Rightarrow>
                    (let fixed = extractYAML txt in
                     if TrimSpace fixed = [] then (Inl (Err ''YAML''), Suc i, m)
                     else (case write_file env (file @ ''.bak'') body m of Inl e \<Rightarrow> (Inl e, Suc i, m)
                       | Inr m \<Rightarrow> (case write_file env file fixed m of Inl e \<Rightarrow> (Inl e, Suc i, m)
                         | Inr m \<Rightarrow> fix_rounds env c file kind n (Suc i) m))))))"

definition cmdFix :: "gen_env \<Rightarrow> gen_config \<Rightarrow> string \<Rightarrow> string \<Rightarrow> int \<Rightarrow> files \<Rightarrow> unit res \<times> nat \<times> files" where
  "cmdFix env c file kind maxRounds m =
     (if file = [] then (Inl (Err ''-file''), 0, m)
      else case requireLLM c of Inl e \<Rightarrow> (Inl e, 0, m)
        | Inr _ \<Rightarrow>
            (case fix_rounds env c file kind (nat maxRounds) 0 m of
               (Inl e, i, m) \<Rightarrow> (Inl e, i, m)
             | (Inr True, i, m) \<Rightarrow> (Inr (), i, m)
             | (Inr False, i, m) \<Rightarrow>
                 (case staticValidate env (fs_of m) file kind of Inl e \<Rightarrow> (Inl e, i, m)
                  | Inr iss \<Rightarrow> (if countErrors iss > 0 then Inl (Err ''fix'') else Inr (), i, m))))"

text \<open>The exit code of a command.\<close>

definition gen_exit :: "'a res \<Rightarrow> int" where
  "gen_exit r = (case r of Inl _ \<Rightarrow> 1 | Inr _ \<Rightarrow> 0)"

text \<open>The flags of the commands, and the tool as a whole: its exit code and the files it leaves.\<close>

definition generate_flags :: "(string \<times> flag_kind) list" where
  "generate_flags = [(''kind'', TextFlag), (''desc'', TextFlag), (''out'', TextFlag), (''extra'', TextFlag)]"

definition review_flags :: "(string \<times> flag_kind) list" where
  "review_flags = [(''file'', TextFlag), (''kind'', TextFlag), (''llm'', BoolFlag)]"

definition verify_flags :: "(string \<times> flag_kind) list" where
  "verify_flags = [(''file'', TextFlag), (''prom'', TextFlag), (''kind'', TextFlag)]"

definition fix_flags :: "(string \<times> flag_kind) list" where
  "fix_flags = [(''file'', TextFlag), (''kind'', TextFlag), (''rounds'', IntFlag)]"

definition gen_flags :: "string \<Rightarrow> (string \<times> flag_kind) list" where
  "gen_flags cmd =
     (if cmd = ''generate'' then generate_flags else if cmd = ''review'' then review_flags else if cmd = ''verify'' then verify_flags else fix_flags)"

definition fixMaxRounds :: int where
  "fixMaxRounds = 3"

definition gen_main :: "(string \<Rightarrow> int option) \<Rightarrow> gen_env \<Rightarrow> (string \<Rightarrow> string) \<Rightarrow> string list \<Rightarrow> files \<Rightarrow> int \<times> files" where
  "gen_main pint env getenv args m =
     (case args of [] \<Rightarrow> (2, m)
      | cmd # rest \<Rightarrow>
          if cmd \<notin> {''generate'', ''review'', ''verify'', ''fix''} then (2, m)
          else (case parse_flags pint (gen_flags cmd) rest of
              Inl e \<Rightarrow> (flag_exit e, m)
            | Inr (fl, _) \<Rightarrow>
                (let c = loadEnv getenv; v = flag_value fl in
                 if cmd = ''generate'' then
                   (let (r, m') = cmdGenerate env c (v ''kind'' ''capacity'') (v ''desc'' []) (v ''out'' []) (v ''extra'' []) m in (gen_exit r, m'))
                 else if cmd = ''review'' then (gen_exit (cmdReview env c (v ''file'' []) (v ''kind'' []) (flag_bool fl ''llm'' True) (fs_of m)), m)
                 else if cmd = ''verify'' then (gen_exit (cmdVerify env (v ''file'' []) (v ''prom'' []) (v ''kind'' []) (fs_of m)), m)
                 else (let (r, i, m') = cmdFix env c (v ''file'' []) (v ''kind'' []) (flag_int pint fl ''rounds'' fixMaxRounds) m in (gen_exit r, m')))))"

text \<open>The exit codes are those of the usage text: 0, 1 for problems and 2 for a wrong call, which changes no file.\<close>

lemma gen_exit_codes [simp]: "gen_exit r \<noteq> 2" "gen_exit r = 0 \<or> gen_exit r = 1"
  by (cases r; simp add: gen_exit_def)+

lemma gen_main_codes: "fst (gen_main pint env getenv args m) \<in> {0, 1, 2} \<and> (fst (gen_main pint env getenv args m) = 2 \<longrightarrow> snd (gen_main pint env getenv args m) = m)"
proof (cases args)
  case (Cons cmd rest)
  show ?thesis
  proof (cases "parse_flags pint (gen_flags cmd) rest")
    case (Inl e)
    then show ?thesis by (simp add: Cons gen_main_def flag_exit_def)
  next
    case (Inr q)
    then show ?thesis by (simp add: Cons gen_main_def split_beta Let_def)
  qed
qed (simp add: gen_main_def)

subsection \<open>What a verified file guarantees\<close>

lemma countErrors_0: "countErrors iss = 0 \<longleftrightarrow> list_all (\<lambda>i. I_Level i = WARN) iss"
  by (auto simp: countErrors_def filter_empty_conv list_all_iff) (metis issue_level.exhaust)

lemma countErrors_append [simp]: "countErrors (xs @ ys) = countErrors xs + countErrors ys"
  by (simp add: countErrors_def)

lemma threshold_issues_0: "countErrors (threshold_issues env defs) = 0 \<longleftrightarrow> list_all (\<lambda>d. validate (Resolve (GE_arch env) (C_Thresholds d)) = Inr ()) defs"
  by (induction defs) (auto simp: threshold_issues_def countErrors_def split: sum.splits)

lemma attr_issues_0: "countErrors (attr_issues env rs) = 0 \<longleftrightarrow>
    list_all (\<lambda>r. let js = map_get (Labels r) ''sentinel_price_attrs'' in js = [] \<or> GE_object env js) rs"
  by (induction rs) (auto simp: attr_issues_def countErrors_def Let_def)

lemma quarantine_issues_0: "countErrors (map (\<lambda>(p, reason). \<lparr>I_Level = ERROR, I_Where = p, I_Msg = reason\<rparr>) qs) = 0 \<longleftrightarrow> qs = []"
  by (cases qs) (auto simp: countErrors_def)

lemma static_kind: "staticValidate env fs path k = Inr iss \<Longrightarrow> k \<in> {''capacity'', ''slo'', ''waste''}"
  by (simp add: staticValidate_def Let_def split: if_splits)

text \<open>The static checks by kind.\<close>

lemma static_ok_capacity:
  "staticValidate env fs path ''capacity'' = Inr iss \<Longrightarrow> countErrors iss = 0 \<Longrightarrow>
   \<exists>defs. LoadDefs fs (GE_caps env) path = Inr defs \<and> defs \<noteq> [] \<and> list_all (\<lambda>d. validate (Resolve (GE_arch env) (C_Thresholds d)) = Inr ()) defs"
  by (auto simp: staticValidate_def Let_def threshold_issues_0 split: sum.splits if_splits) (auto simp: countErrors_def)

lemma static_ok_slo:
  "staticValidate env fs path ''slo'' = Inr iss \<Longrightarrow> countErrors iss = 0 \<Longrightarrow> \<exists>slos. Load (GE_arch env) fs (GE_slos env) path = Inr slos \<and> slos \<noteq> []"
  by (auto simp: staticValidate_def Let_def split: sum.splits if_splits) (auto simp: countErrors_def)

lemma static_ok_waste:
  assumes "staticValidate env fs path ''waste'' = Inr iss" "countErrors iss = 0"
  shows "\<exists>cat. staged_load env fs path = Inr (Inr (cat, [])) \<and>
     list_all (\<lambda>r. let js = map_get (Labels r) ''sentinel_price_attrs'' in js = [] \<or> GE_object env js) (RulesOfKind cat KindWaste)"
proof -
  obtain l where l: "staged_load env fs path = Inr l"
    using assms(1) by (auto simp: staticValidate_def Let_def res_bind_Inr)
  show ?thesis
  proof (cases l)
    case (Inl e)
    then show ?thesis using assms l by (auto simp: staticValidate_def Let_def countErrors_def)
  next
    case (Inr p)
    obtain cat qs where p: "p = (cat, qs)" by force
    have "countErrors (map (\<lambda>(p, reason). \<lparr>I_Level = ERROR, I_Where = p, I_Msg = reason\<rparr>) qs) + countErrors (attr_issues env (RulesOfKind cat KindWaste)) \<le> countErrors iss"
      using assms(1) l Inr p by (auto simp: staticValidate_def Let_def)
    then show ?thesis using assms(2) l Inr p by (simp add: quarantine_issues_0 attr_issues_0)
  qed
qed

lemma LoadDefs_checked: "LoadDefs fs u path = Inr defs \<Longrightarrow> list_all (\<lambda>d. C_ID d \<noteq> [] \<and> C_Value d \<noteq> [] \<and> C_Ceiling d \<noteq> []) defs"
  using load_defs_checked [of fs u check_def path defs] by (auto simp: LoadDefs_def check_def_def list_all_iff split: if_splits)

lemma cmdVerify_ok:
  assumes "cmdVerify env file prom kind fs = Inr ()"
  obtains body iss exprs where "ReadFile fs file = Inr body" "staticValidate env fs file (kind_or kind body) = Inr iss" "countErrors iss = 0"
    "collectExprs env fs (kind_or kind body) file = Inr exprs" "exprs \<noteq> []" "list_all (\<lambda>(_, x). live_ok (liveCheckExpr env prom x)) exprs"
proof -
  from assms obtain body where b: "ReadFile fs file = Inr body" "res_bind (staticValidate env fs file (kind_or kind body)) (\<lambda>iss.
          if countErrors iss > 0 then Inl (Err ''static'')
          else res_bind (collectExprs env fs (kind_or kind body) file) (\<lambda>exprs.
            if exprs = [] then Inl (Err ''expr'')
            else let failed = length (filter (\<lambda>(_, x). \<not> live_ok (liveCheckExpr env prom x)) exprs)
              in if failed > 0 then Inl (Err ''verify'') else Inr ())) = Inr ()"
    by (auto simp: cmdVerify_def res_bind_Inr Let_def split: if_splits)
  then obtain iss exprs where e: "staticValidate env fs file (kind_or kind body) = Inr iss" "countErrors iss = 0"
    "collectExprs env fs (kind_or kind body) file = Inr exprs" "exprs \<noteq> []" "filter (\<lambda>(_, x). \<not> live_ok (liveCheckExpr env prom x)) exprs = []"
    by (auto simp: res_bind_Inr Let_def split: if_splits)
  moreover have "list_all (\<lambda>(_, x). live_ok (liveCheckExpr env prom x)) exprs"
    using e(5) by (auto simp: filter_empty_conv list_all_iff)
  ultimately show ?thesis using that b(1) by blast
qed

text \<open>Prometheus has answered an expression with a vector that is not empty.\<close>

definition asked_ok :: "gen_env \<Rightarrow> string \<Rightarrow> string \<Rightarrow> bool" where
  "asked_ok env prom x \<longleftrightarrow> (\<exists>u raw b. GE_url env prom = Some u \<and> GE_get env (live_url u x) = Resp 200 raw \<and> GE_body env (take live_limit raw) = Some b
     \<and> PB_Status b = ''success'' \<and> PB_ResultType b = ''vector'' \<and> 0 < PB_Series b)"

lemma live_asked: "live_ok (liveCheckExpr env prom x) \<longleftrightarrow> asked_ok env prom x"
  by (auto simp: live_ok_def liveCheckExpr_def asked_ok_def Let_def split: option.splits http.splits)

text \<open>
  Claim C25. A file that \<^verbatim>\<open>verify\<close> calls ready is one the daemon can use: its kind is known, the daemon's own loader accepts it and finds something
  in it, every sensor can be built and has thresholds the engine accepts (every objective is well formed, no rule is quarantined),
  and Prometheus has answered each of its expressions with a non-empty vector.
\<close>

theorem verified_file:
  assumes "cmdVerify env file prom kind fs = Inr ()"
  shows "\<exists>body. ReadFile fs file = Inr body \<and> kind_or kind body \<in> {''capacity'', ''slo'', ''waste''}
    \<and> (kind_or kind body = ''capacity'' \<longrightarrow> (\<exists>defs. LoadDefs fs (GE_caps env) file = Inr defs \<and> defs \<noteq> []
         \<and> list_all (\<lambda>d. \<not> isl (New d) \<and> validate (Resolve (GE_arch env) (C_Thresholds d)) = Inr () \<and> asked_ok env prom (C_Value d) \<and> asked_ok env prom (C_Ceiling d)) defs))
    \<and> (kind_or kind body = ''slo'' \<longrightarrow> (\<exists>slos. Load (GE_arch env) fs (GE_slos env) file = Inr slos \<and> slos \<noteq> []
         \<and> list_all (\<lambda>s. slo_ok (GE_arch env) s \<and> asked_ok env prom (L_SLIQuery s)) slos))
    \<and> (kind_or kind body = ''waste'' \<longrightarrow> (\<exists>cat. staged_load env fs file = Inr (Inr (cat, [])) \<and> RulesOfKind cat KindWaste \<noteq> []
         \<and> list_all (\<lambda>r. asked_ok env prom (Expr r)) (RulesOfKind cat KindWaste)))"
proof -
  obtain body iss exprs where v: "ReadFile fs file = Inr body" "staticValidate env fs file (kind_or kind body) = Inr iss" "countErrors iss = 0"
    "collectExprs env fs (kind_or kind body) file = Inr exprs" "exprs \<noteq> []" "list_all (\<lambda>(_, x). asked_ok env prom x) exprs"
    using cmdVerify_ok [OF assms, unfolded live_asked] by metis
  have cap: "\<exists>defs. LoadDefs fs (GE_caps env) file = Inr defs \<and> defs \<noteq> []
         \<and> list_all (\<lambda>d. \<not> isl (New d) \<and> validate (Resolve (GE_arch env) (C_Thresholds d)) = Inr () \<and> asked_ok env prom (C_Value d) \<and> asked_ok env prom (C_Ceiling d)) defs"
    if k: "kind_or kind body = ''capacity''"
  proof -
    obtain defs where d: "LoadDefs fs (GE_caps env) file = Inr defs" "defs \<noteq> []" "list_all (\<lambda>d. validate (Resolve (GE_arch env) (C_Thresholds d)) = Inr ()) defs"
      using static_ok_capacity v(2,3) k by metis
    moreover have "list_all (\<lambda>d. asked_ok env prom (C_Value d) \<and> asked_ok env prom (C_Ceiling d)) defs"
      using v(4,6) k d(1) by (auto simp: collectExprs_def list_all_iff)
    ultimately show ?thesis using LoadDefs_checked [OF d(1)] by (auto simp: list_all_iff New_def)
  qed
  have slo: "\<exists>slos. Load (GE_arch env) fs (GE_slos env) file = Inr slos \<and> slos \<noteq> [] \<and> list_all (\<lambda>s. slo_ok (GE_arch env) s \<and> asked_ok env prom (L_SLIQuery s)) slos"
    if k: "kind_or kind body = ''slo''"
  proof -
    obtain slos where s: "Load (GE_arch env) fs (GE_slos env) file = Inr slos" "slos \<noteq> []" using static_ok_slo v(2,3) k by metis
    moreover have "list_all (\<lambda>s. asked_ok env prom (L_SLIQuery s)) slos" using v(4,6) k s(1) by (auto simp: collectExprs_def list_all_iff)
    moreover have "list_all (slo_ok (GE_arch env)) slos"
      using load_defs_checked [OF s(1) [unfolded Load_def]] check_slo_ok by (auto simp: list_all_iff)
    ultimately show ?thesis by (auto simp: list_all_iff)
  qed
  have waste: "\<exists>cat. staged_load env fs file = Inr (Inr (cat, [])) \<and> RulesOfKind cat KindWaste \<noteq> [] \<and> list_all (\<lambda>r. asked_ok env prom (Expr r)) (RulesOfKind cat KindWaste)"
    if k: "kind_or kind body = ''waste''"
  proof -
    obtain cat where c: "staged_load env fs file = Inr (Inr (cat, []))" using static_ok_waste v(2,3) k by metis
    then show ?thesis using v(4,5,6) k by (auto simp: collectExprs_def list_all_iff)
  qed
  show ?thesis using v(1) static_kind [OF v(2)] cap slo waste by blast
qed

subsection \<open>Repairs\<close>

lemma missing_file: "m file = None \<Longrightarrow> staticValidate env (fs_of m) file k = Inr iss \<Longrightarrow> countErrors iss \<noteq> 0"
  by (auto simp: staticValidate_def LoadDefs_def Load_def load_defs_def def_paths_def fs_of_def staged_load_def opt_res_def countErrors_def res_bind_Inr Let_def
      split: if_splits sum.splits)

lemma fix_rounds_passed:
  "fix_rounds env c file kind n i m = (Inr True, j, m') \<Longrightarrow>
   \<exists>body iss. m' file = Some body \<and> staticValidate env (fs_of m') file (kind_or kind body) = Inr iss \<and> countErrors iss = 0 \<and> j < i + n"
proof (induction n arbitrary: i m)
  case (Suc n)
  then show ?case
    by (auto simp: Let_def countErrors_def split: option.splits sum.splits if_splits dest!: Suc.IH) 
qed simp

lemma fix_rounds_effects:
  "fix_rounds env c file kind n i m = (r, j, m') \<Longrightarrow>
   i \<le> j \<and> j \<le> i + n \<and> (\<forall>p. p \<noteq> file \<and> p \<noteq> file @ ''.bak'' \<longrightarrow> m' p = m p) \<and> (j = i \<longrightarrow> m' = m)"
proof (induction n arbitrary: i m)
  case (Suc n)
  then show ?case
    by (auto simp: Let_def write_file_def res_bind_Inr split: option.splits sum.splits if_splits dest!: Suc.IH)
qed simp

text \<open>
  Claim C34. A repair that reports success leaves a file that passes the static checks, for the given kind or for the one its text suggests; and
  without \<^verbatim>\<open>-kind\<close> it can only succeed by the check at the start of a round, so that the last permitted repair is never accepted: if the
  rounds are used up the command fails on the unknown empty kind, however good the file is by then.
\<close>

theorem fix_sound:
  assumes "cmdFix env c file kind rounds m = (r, i, m')"
  shows "(r = Inr () \<longrightarrow> (\<exists>body iss. m' file = Some body \<and> staticValidate env (fs_of m') file (kind_or kind body) = Inr iss \<and> countErrors iss = 0)
            \<and> (kind = [] \<longrightarrow> int i < rounds))
    \<and> (kind = [] \<longrightarrow> (\<exists>j m1. fix_rounds env c file kind (nat rounds) 0 m = (Inr False, j, m1)) \<longrightarrow> r \<noteq> Inr ())"
proof -
  obtain q j m1 where f: "fix_rounds env c file kind (nat rounds) 0 m = (q, j, m1)" by (metis prod_cases3)
  have nokind: "\<not> (\<exists>iss. staticValidate env fs path [] = Inr iss)" for fs path by (simp add: staticValidate_def Let_def)
  consider (early) "r \<noteq> Inr ()" | (passed) "q = Inr True" "r = Inr ()" "i = j" "m' = m1"
    | (last) iss where "q = Inr False" "m' = m1" "r = Inr ()" "staticValidate env (fs_of m1) file kind = Inr iss" "countErrors iss = 0"
  proof (cases "file = [] \<or> requireLLM c \<noteq> Inr ()")
    case True
    have "r \<noteq> Inr ()"
    proof (cases "requireLLM c")
      case (Inl e)
      then show ?thesis using assms by (auto simp: cmdFix_def split: if_splits)
    qed (use True assms in \<open>auto simp: cmdFix_def split: if_splits\<close>)
    then show ?thesis by (rule early)
  next
    case False
    then show ?thesis using assms f early passed last by (auto simp: cmdFix_def split: if_splits sum.splits bool.splits)
  qed
  then show ?thesis
  proof cases
    case early
    then show ?thesis using f by auto
  next
    case passed
    then show ?thesis using fix_rounds_passed [OF f [unfolded passed]] f by auto
  next
    case last
    then have "kind \<noteq> []" using nokind by metis
    moreover obtain body where "m1 file = Some body" using missing_file last(4,5) by blast
    ultimately show ?thesis using last by (auto simp: kind_or_def)
  qed
qed

text \<open>
  A repair is bounded and local: it asks the model at most as often as rounds are allowed, it touches no file but the one to repair and
  its backup, and it changes nothing if it did not ask.
\<close>

lemma fix_effects:
  assumes "cmdFix env c file kind rounds m = (r, i, m')"
  shows "i \<le> nat rounds \<and> (\<forall>p. p \<noteq> file \<and> p \<noteq> file @ ''.bak'' \<longrightarrow> m' p = m p) \<and> (i = 0 \<longrightarrow> m' = m)"
proof -
  obtain q j m1 where f: "fix_rounds env c file kind (nat rounds) 0 m = (q, j, m1)" by (metis prod_cases3)
  have "(i, m') = (j, m1) \<or> (i, m') = (0, m)"
    using assms f by (auto simp: cmdFix_def split: if_splits sum.splits bool.splits)
  then show ?thesis using fix_rounds_effects [OF f] by auto
qed

text \<open>
  A waste file without a YAML extension passes whatever it holds: its copy is skipped by the loader, and what is left is a warning.
\<close>

lemma unnamed_waste_passes:
  assumes "GE_tmp env = Inr tmp" "ReadFile fs file = Inr body" "GE_write env (tmp @ ''/'' @ Base file) = Inr ()" "\<not> is_yaml (tmp @ ''/'' @ Base file)"
    and "file \<noteq> []"
  shows "cmdReview env c file ''waste'' False fs = Inr ()"
proof -
  let ?dst = "tmp @ ''/'' @ Base file"
  have "staged_load env fs file = Inr (Inr (\<lparr>Groups = [], Version = upstreamVersion (staged_fs tmp ?dst body) tmp, LoadedAt = GE_now env\<rparr>, []))"
    using assms by (simp add: staged_load_def Loader_Load_def staged_fs_def Let_def)
  then have "staticValidate env fs file ''waste'' = Inr [\<lparr>I_Level = WARN, I_Where = file, I_Msg = ''sentinel_kind''\<rparr>]"
    by (simp add: staticValidate_def RulesOfKind_def attr_issues_def Let_def)
  then show ?thesis using assms by (simp add: cmdReview_def kind_or_def countErrors_def Let_def)
qed

subsection \<open>The extraction of YAML\<close>

lemma split_at_line: "NL \<notin> set l \<Longrightarrow> split_at NL (l @ NL # r) cur = (cur @ l) # split_at NL r []"
  by (induction l arbitrary: cur) auto

lemma split_at_last: "NL \<notin> set l \<Longrightarrow> split_at NL l cur = [cur @ l]"
  by (induction l arbitrary: cur) auto

lemma split_join: "ls \<noteq> [] \<Longrightarrow> list_all (\<lambda>l. NL \<notin> set l) ls \<Longrightarrow> split_at NL (join [NL] ls) [] = ls"
proof (induction ls)
  case (Cons l ls)
  then show ?case by (cases ls) (auto simp: split_at_line split_at_last)
qed simp

definition opens :: "string \<Rightarrow> bool" where
  "opens line \<longleftrightarrow> TrimSpace line = ''```yaml'' \<or> TrimSpace line = ''```yml''"

definition closes :: "string \<Rightarrow> bool" where
  "closes line \<longleftrightarrow> TrimSpace line = ''```''"

lemma scan_before: "list_all (\<lambda>l. \<not> opens l) ls \<Longrightarrow> fence_scan (ls @ rest) False y buf = fence_scan rest False y buf"
  by (induction ls) (auto simp: opens_def Let_def)

lemma scan_inside: "list_all (\<lambda>l. \<not> closes l) ls \<Longrightarrow> fence_scan (ls @ rest) True y buf = fence_scan rest True y (buf @ ls)"
  by (induction ls arbitrary: buf) (auto simp: closes_def Let_def)

text \<open>
  Claim C37. The YAML that the model put into a fence is taken out exactly: an answer with text before, a block opened as YAML, and anything after
  the line that closes it, yields the lines of the block and nothing else.
\<close>

theorem extractYAML_fenced:
  assumes "list_all (\<lambda>l. NL \<notin> set l) (before @ fo # block @ cl # after)" "list_all (\<lambda>l. \<not> opens l) before" "opens fo"
    and "list_all (\<lambda>l. \<not> closes l) block" "closes cl" "block \<noteq> []"
  shows "extractYAML (join [NL] (before @ fo # block @ cl # after)) = join [NL] block"
proof -
  have "fence_scan (fo # block @ cl # after) False False [] = fence_scan (block @ cl # after) True True []"
    using assms(3) by (simp add: opens_def Let_def)
  also have "\<dots> = (True, block)"
    unfolding scan_inside [OF assms(4)] using assms(5) by (simp add: closes_def opens_def Let_def)
  finally have "fence_scan (before @ fo # block @ cl # after) False False [] = (True, block)"
    by (simp only: scan_before [OF assms(2)])
  moreover have "split_at NL (join [NL] (before @ fo # block @ cl # after)) [] = before @ fo # block @ cl # after"
    using assms(1) by (intro split_join) simp_all
  ultimately show ?thesis using assms(6) by (simp add: extractYAML_def Let_def)
qed

theorem extractYAML_fenced_witness:
  "extractYAML (''Here:'' @ NL # ''```yaml'' @ NL # ''slos:'' @ NL # ''- id: api'' @ NL # ''``` '' @ NL # ''done'') = ''slos:'' @ NL # ''- id: api''"
proof -
  have "extractYAML (join [NL] ([''Here:''] @ ''```yaml'' # [''slos:'', ''- id: api''] @ ''``` '' # [''done''])) = join [NL] [''slos:'', ''- id: api'']"
    by (rule extractYAML_fenced) (simp_all add: opens_def closes_def TrimSpace_def is_space_def NL_def)
  then show ?thesis by simp
qed

subsection \<open>Concrete runs\<close>

definition gen_env0 :: "string \<Rightarrow> gen_env" where
  "gen_env0 reply = \<lparr>GE_arch = AMD64, GE_caps = (\<lambda>b. if b = ''sensors: good'' then Inr [def0] else Inl (Err ''yaml'')), GE_slos = (\<lambda>_. Inr []), GE_rules = (\<lambda>_. Inr []), GE_object = (\<lambda>_. True), GE_promtool = None,
     GE_now = 0, GE_tmp = Inr ''/tmp'', GE_url = (\<lambda>u. Some (u, [])), GE_get = (\<lambda>_. Resp 200 []),
     GE_body = (\<lambda>_. Some \<lparr>PB_Status = ''success'', PB_Error = [], PB_ResultType = ''vector'', PB_Series = 1\<rparr>),
     GE_post = (\<lambda>_ _. Resp 200 []), GE_choices = (\<lambda>_. Some [reply]), GE_write = (\<lambda>_. Inr ())\<rparr>"

definition llm0 :: gen_config where
  "llm0 = \<lparr>GC_URL = ''u'', GC_Key = [], GC_Model = ''m''\<rparr>"

lemma static_good: "staticValidate (gen_env0 y) (fs_of m) file ''capacity'' = (case m file of None \<Rightarrow> Inr [\<lparr>I_Level = ERROR, I_Where = file, I_Msg = ''sensors''\<rparr>]
    | Some b \<Rightarrow> Inr (if b = ''sensors: good'' then [] else [\<lparr>I_Level = ERROR, I_Where = file, I_Msg = ''yaml''\<rparr>]))"
  by (auto simp: staticValidate_def LoadDefs_def load_defs_def def_paths_def fs_of_def gen_env0_def opt_res_def check_def_def def0_def threshold_issues_def
      Resolve_def validate_default err_text_def Let_def split: option.splits)

theorem verified_file_witness:
  "cmdVerify (gen_env0 []) ''f'' ''http://p'' ''capacity'' (fs_of [''f'' \<mapsto> ''sensors: good'']) = Inr ()
     \<and> (\<exists>defs. LoadDefs (fs_of [''f'' \<mapsto> ''sensors: good'']) (GE_caps (gen_env0 [])) ''f'' = Inr defs \<and> defs \<noteq> [])"
proof -
  have "LoadDefs (fs_of [''f'' \<mapsto> ''sensors: good'']) (GE_caps (gen_env0 [])) ''f'' = Inr [def0]"
    by (simp add: LoadDefs_def load_defs_def def_paths_def fs_of_def gen_env0_def opt_res_def check_def_def def0_def)
  then have v: "cmdVerify (gen_env0 []) ''f'' ''http://p'' ''capacity'' (fs_of [''f'' \<mapsto> ''sensors: good'']) = Inr ()"
    by (simp add: cmdVerify_def static_good kind_or_def countErrors_def collectExprs_def live_ok_def liveCheckExpr_def Let_def)
      (simp add: fs_of_def gen_env0_def opt_res_def)
  from verified_file [OF v] show ?thesis using v by (auto simp: kind_or_def)
qed

abbreviation bad_file :: files where
  "bad_file \<equiv> [''f'' \<mapsto> ''sensors: bad'']"

lemma rounds_one: "kind = [] \<or> kind = ''capacity'' \<Longrightarrow>
    fix_rounds (gen_env0 ''sensors: good'') llm0 ''f'' kind 1 0 bad_file = (Inr False, 1, [''f'' \<mapsto> ''sensors: good'', ''f.bak'' \<mapsto> ''sensors: bad''])"
proof -
  assume "kind = [] \<or> kind = ''capacity''"
  then have k: "kind_or kind ''sensors: bad'' = ''capacity''"
    by (auto simp: kind_or_def detectKind_def TrimSpace_def is_space_def HasPrefix_def)
  have "extractYAML ''sensors: good'' = ''sensors: good''" by code_simp
  moreover have "TrimSpace ''sensors: good'' \<noteq> []" by (simp add: TrimSpace_def is_space_def)
  moreover have "llm_complete (gen_env0 ''sensors: good'') llm0 0 x y = Inr ''sensors: good''" for x y by (simp add: llm_complete_def gen_env0_def Let_def)
  moreover have "write_file (gen_env0 ''sensors: good'') p b m = Inr (m(p \<mapsto> b))" for p b m by (simp add: write_file_def gen_env0_def)
  ultimately show ?thesis using k by (simp add: static_good countErrors_def Let_def fun_upd_twist)
qed

theorem fix_sound_witness:
  "fst (cmdFix (gen_env0 ''sensors: good'') llm0 ''f'' ''capacity'' 1 bad_file) = Inr ()
     \<and> fst (cmdFix (gen_env0 ''sensors: good'') llm0 ''f'' [] 1 bad_file) \<noteq> Inr ()"
proof -
  have "requireLLM llm0 = Inr ()" by (simp add: requireLLM_def llm0_def)
  then have "fst (cmdFix (gen_env0 ''sensors: good'') llm0 ''f'' ''capacity'' 1 bad_file) = Inr ()"
    using rounds_one [of "''capacity''"] by (simp add: cmdFix_def static_good countErrors_def)
  moreover obtain r i m' where c: "cmdFix (gen_env0 ''sensors: good'') llm0 ''f'' [] 1 bad_file = (r, i, m')" by (metis prod_cases3)
  have "r \<noteq> Inr ()" using fix_sound [OF c] rounds_one [of "[]"] by (simp del: fix_rounds.simps)
  ultimately show ?thesis by (simp add: c)
qed

lemma fix_effects_witness:
  "\<exists>r i m'. cmdFix (gen_env0 ''sensors: good'') llm0 ''f'' ''capacity'' 3 [''f'' \<mapsto> ''sensors: bad'', ''g'' \<mapsto> ''x''] = (r, i, m') \<and> i \<le> 3 \<and> m' ''g'' = Some ''x''"
proof -
  obtain r i m' where c: "cmdFix (gen_env0 ''sensors: good'') llm0 ''f'' ''capacity'' 3 [''f'' \<mapsto> ''sensors: bad'', ''g'' \<mapsto> ''x''] = (r, i, m')" by (metis prod_cases3)
  then show ?thesis using fix_effects [OF c] by auto
qed

end
