(* ===== verification/Ui.thy ===== *)
theory Ui
  imports Api
begin

text \<open>
  The read-only web pages (\<^verbatim>\<open>cmd/sentinel-ui/main.go\<close>): the configuration, the helpers that write numbers and times, the five pages and the
  forwarded status. A page reads one reply of the daemon; the JSON codec and the network are parameters, and so are the number
  formats \<^verbatim>\<open>%.4g\<close>, \<^verbatim>\<open>%v\<close> and \<^verbatim>\<open>strconv.FormatFloat (v, 'f', -1, 64)\<close> and the order of maps.

  Main results: how digits are grouped (\<open>thousandSep_groups\<close>), which replies crash the cost page (\<open>cost_page_panics\<close>), that the waste page
  shows neither sensor nor rule nor age (\<open>waste_page_blank\<close>), and that no address with an IPv6 host counts as local
  (\<open>loopback_hosts\<close>).
\<close>

subsection \<open>Configuration\<close>

record uiConfig =
  UC_SentinelAPI :: string
  UC_ListenAddr :: string

definition ui_defaults :: uiConfig where
  "ui_defaults = \<lparr>UC_SentinelAPI = ''http://127.0.0.1:9099'', UC_ListenAddr = ''127.0.0.1:9098''\<rparr>"

definition loadUIConfig :: "filesys \<Rightarrow> (string \<Rightarrow> (string \<rightharpoonup> string) option) \<Rightarrow> string \<Rightarrow> uiConfig" where
  "loadUIConfig fs unmarshal path =
     (if path = [] then ui_defaults
      else case ReadFile fs path of Inl _ \<Rightarrow> ui_defaults
        | Inr b \<Rightarrow> (case unmarshal b of None \<Rightarrow> ui_defaults
          | Some raw \<Rightarrow> \<lparr>UC_SentinelAPI = setStr (UC_SentinelAPI ui_defaults) (map_get raw ''sentinel_api''),
              UC_ListenAddr = setStr (UC_ListenAddr ui_defaults) (map_get raw ''listen_addr'')\<rparr>))"

definition isLoopbackAddr :: "string \<Rightarrow> bool" where
  "isLoopbackAddr addr =
     (let host = (if CHR '':'' \<in> set addr then takeWhile (\<lambda>c. c \<noteq> CHR '':'') addr else addr)
      in host = ''127.0.0.1'' \<or> host = ''localhost'' \<or> host = ''[::1]'')"

subsection \<open>Numbers and times\<close>

definition ui_humanDur :: "f64 option \<Rightarrow> string" where
  "ui_humanDur sec =
     (case sec of None \<Rightarrow> (utf8 [231, 132, 161, 230, 136, 144, 233, 149, 183, 232, 183, 161, 232, 177, 161])
      | Some s \<Rightarrow>
          if flt s (Fin 0) then (utf8 [229, 183, 178, 232, 182, 138, 233, 129, 142, 229, 164, 169, 232, 138, 177, 230, 157, 191])
          else if flt s (Fin 7200) then (utf8 [231, 180, 132] @ '' '') @ fmt_fixed 0 (fdiv (if flt s (Fin 0) then Fin 0 else s) (Fin 60)) @ ('' '' @ utf8 [229, 136, 134, 233, 144, 152, 229, 190, 140, 232, 167, 184, 233, 160, 130])
          else if flt s (Fin 172800) then (utf8 [231, 180, 132] @ '' '') @ fmt_fixed 1 (fdiv s (Fin 3600)) @ ('' '' @ utf8 [229, 176, 143, 230, 153, 130, 229, 190, 140, 232, 167, 184, 233, 160, 130])
          else (utf8 [231, 180, 132] @ '' '') @ fmt_fixed 1 (fdiv s (Fin 86400)) @ ('' '' @ utf8 [229, 164, 169, 229, 190, 140, 232, 167, 184, 233, 160, 130]))"

text \<open>The loop over the digits before the point.\<close>

definition group_digits :: "string \<Rightarrow> string" where
  "group_digits s = concat (map (\<lambda>i. (if 0 < i \<and> (length s - i) mod 3 = 0 then [CHR '','', s ! i] else [s ! i])) [0..<length s])"

definition cut_point :: "string \<Rightarrow> string \<times> string" where
  "cut_point s = (takeWhile (\<lambda>c. c \<noteq> CHR ''.'') s, drop (Suc (length (takeWhile (\<lambda>c. c \<noteq> CHR ''.'') s))) s)"

definition thousandSep :: "(f64 \<Rightarrow> string) \<Rightarrow> f64 \<Rightarrow> string" where
  "thousandSep ff v =
     (let s = ff v; neg = HasPrefix s ''-''; s = TrimPrefix s ''-''; (intPart, frac) = cut_point s;
          out = group_digits intPart; out = (if frac \<noteq> [] then out @ ''.'' @ frac else out)
      in if neg then ''-'' @ out else out)"

text \<open>\<open>parse\<close> is \<^verbatim>\<open>time.Parse\<close> with \<^verbatim>\<open>RFC3339\<close>.\<close>

definition fmtGMT8 :: "(string \<Rightarrow> time option) \<Rightarrow> string \<Rightarrow> string" where
  "fmtGMT8 parse s =
     (case parse s of None \<Rightarrow> s
      | Some t \<Rightarrow> (let l = t + 8 * hour in fmt_date l @ '' '' @ fmt_clock (sec_of_day l)))"

definition stateIcon :: "string \<Rightarrow> string" where
  "stateIcon s = (if s = ''warning'' then (utf8 [226, 154, 160, 239, 184, 143]) else if s = ''critical'' then (utf8 [240, 159, 148, 180]) else (utf8 [226, 156, 133]))"

definition ptrVal :: "f64 option \<Rightarrow> f64" where
  "ptrVal p = (case p of None \<Rightarrow> Fin (- 1) | Some x \<Rightarrow> x)"

subsection \<open>Pages\<close>

definition page :: "string \<Rightarrow> string \<Rightarrow> string" where
  "page title body =
     (''<!DOCTYPE html><html><head><meta charset='utf-8'><title>'') @ title @ ('' '' @ utf8 [226, 128, 148] @ '' sentinel</title></head>'' @ [CHR 0x0A] @ ''<body>'' @ [CHR 0x0A] @ ''<h1>'' @ utf8 [240, 159, 148, 141] @ '' slo-sentinel</h1>'' @ [CHR 0x0A] @ ''<nav><a href='/'>'' @ utf8 [231, 184, 189, 232, 161, 168] @ ''</a> | <a href='/accuracy'>'' @ utf8 [229, 145, 189, 228, 184, 173, 231, 142, 135] @ ''</a> | <a href='/cost'>'' @ utf8 [230, 136, 144, 230, 156, 172] @ ''</a> | <a href='/waste'>'' @ utf8 [231, 152, 166, 232, 186, 171, 229, 189, 177] @ ''</a></nav>'' @ [CHR 0x0A] @ ''<hr/><h2>'')
     @ title @ (''</h2>'' @ [CHR 0x0A]) @ body @ ([CHR 0x0A] @ ''</body></html>'')"

datatype web = Page string | WebError int string | WebPanic

text \<open>The exchange with the daemon, and the body of its answer.\<close>

definition fetchJSON :: "string \<Rightarrow> http \<Rightarrow> (string \<Rightarrow> 'a option) \<Rightarrow> 'a res" where
  "fetchJSON url answer decode =
     (case answer of BadRequest e \<Rightarrow> Inl (Err e)
      | NetErr e \<Rightarrow> Inl (Err e)
      | Resp st b \<Rightarrow> if st \<noteq> 200 then Inl (Err (''HTTP '' @ dec_int st @ '' from '' @ url)) else opt_res ''json'' (decode b))"

text \<open>The guard of every page, and the reply when the daemon does not answer; \<open>m\<close> is the method of the request.\<close>

definition on_get :: "string \<Rightarrow> web \<Rightarrow> web" where
  "on_get m w = (if m \<noteq> ''GET'' then WebError 405 (''method not allowed'' @ utf8 [239, 188, 136, 229, 148, 175, 232, 174, 128] @ '' UI'' @ utf8 [239, 188, 137]) else w)"

definition with_reply :: "string \<Rightarrow> 'a res \<Rightarrow> ('a \<Rightarrow> web) \<Rightarrow> web" where
  "with_reply what r k = (case r of Inl e \<Rightarrow> WebError 502 (what @ err_text e) | Inr x \<Rightarrow> k x)"

definition index_row :: "(f64 \<Rightarrow> string) \<Rightarrow> (string \<Rightarrow> time option) \<Rightarrow> string \<Rightarrow> state_json \<Rightarrow> string" where
  "index_row g4 parse i st =
     (''<tr><td><a href='/slo/'') @ i @ ([CHR 0x27] @ ''>'') @ i @ ''</a></td><td>'' @ stateIcon (J_State st) @ '' '' @ J_State st @ ''</td><td>'' @ g4 (J_LastValue st)
     @ ''</td><td>'' @ fmtGMT8 parse (J_UpdatedAt st) @ ''</td></tr>'' @ [CHR 0x0A]"

text \<open>\<open>ks\<close>: the order in which the map of states is visited.\<close>

definition handleIndex :: "(f64 \<Rightarrow> string) \<Rightarrow> (string \<Rightarrow> time option) \<Rightarrow> string list \<Rightarrow> string \<Rightarrow> (string \<rightharpoonup> state_json) res \<Rightarrow> web" where
  "handleIndex g4 parse ks m reply =
     on_get m (with_reply (''sentinel API '' @ utf8 [231, 132, 161, 230, 179, 149, 233, 128, 163, 231, 183, 154, 239, 188, 154]) reply (\<lambda>states.
       Page (page (utf8 [230, 132, 159, 230, 184, 172, 231, 184, 189, 232, 161, 168]) ((''<table border='1' cellpadding='4'><tr><th>'' @ utf8 [230, 132, 159, 230, 184, 172] @ ''</th><th>'' @ utf8 [231, 139, 128, 230, 133, 139] @ ''</th><th>'' @ utf8 [230, 156, 128, 229, 190, 140, 229, 128, 188] @ ''</th><th>'' @ utf8 [230, 155, 180, 230, 150, 176, 230, 153, 130, 233, 150, 147] @ ''</th></tr>'' @ [CHR 0x0A])
         @ concat (map (\<lambda>i. case states i of None \<Rightarrow> [] | Some st \<Rightarrow> index_row g4 parse i st) ks) @ ''</table>''))))"

record prediction_json =
  PJ_PredictedAt :: string
  PJ_EtaAggressive :: "f64 option"
  PJ_EtaConservative :: "f64 option"
  PJ_Actual :: f64
  PJ_CatalogVersion :: string
  PJ_Util :: "f64 option"

definition detail_row :: "(f64 \<Rightarrow> string) \<Rightarrow> (string \<Rightarrow> time option) \<Rightarrow> prediction_json \<Rightarrow> string" where
  "detail_row ff parse p =
     ''<tr><td>'' @ fmtGMT8 parse (PJ_PredictedAt p) @ ''</td><td>'' @ ui_humanDur (PJ_EtaAggressive p) @ ''</td><td>'' @ ui_humanDur (PJ_EtaConservative p)
     @ ''</td><td>'' @ thousandSep ff (PJ_Actual p) @ ''</td><td>''
     @ (case PJ_Util p of None \<Rightarrow> (utf8 [226, 128, 148]) | Some u \<Rightarrow> fmt_fixed 1 (fmul u (Fin 100)) @ ''%'') @ ''</td></tr>'' @ [CHR 0x0A]"

definition catalog_note :: "prediction_json list \<Rightarrow> string" where
  "catalog_note ps =
     (let v = foldl (\<lambda>v p. if PJ_CatalogVersion p \<noteq> [] then PJ_CatalogVersion p else v) [] ps
      in if v \<noteq> [] then (''<p style='' @ [CHR 0x22] @ ''color:#888;font-size:small'' @ [CHR 0x22] @ ''>'' @ utf8 [231, 155, 174, 233, 140, 132, 231, 137, 136, 230, 156, 172, 239, 188, 154]) @ v @ ''</p>'' else [])"

definition handleSloDetail :: "(f64 \<Rightarrow> string) \<Rightarrow> (string \<Rightarrow> time option) \<Rightarrow> string \<Rightarrow> string \<Rightarrow> (string \<Rightarrow> (string option \<times> prediction_json list) res) \<Rightarrow> web" where
  "handleSloDetail ff parse m path reply =
     on_get m (let i = TrimPrefix path ''/slo/'' in
       if i = [] \<or> CHR ''/'' \<in> set i then WebError 400 ''invalid sensor id''
       else with_reply (utf8 [230, 159, 165, 232, 169, 162, 229, 164, 177, 230, 149, 151, 239, 188, 154]) (reply i) (\<lambda>(st, ps).
         Page (page ((utf8 [230, 132, 159, 230, 184, 172, 232, 169, 179, 230, 131, 133, 239, 188, 154]) @ i) (''<h2>'' @ i @ (''</h2><p>'' @ utf8 [231, 139, 128, 230, 133, 139, 239, 188, 154]) @ (case st of None \<Rightarrow> ''unknown'' | Some s \<Rightarrow> s) @ ''</p>''
           @ (''<table border='1' cellpadding='4'><tr><th>'' @ utf8 [233, 160, 144, 230, 184, 172, 230, 153, 130, 233, 150, 147] @ ''</th><th>'' @ utf8 [230, 191, 128, 233, 128, 178, 233, 160, 144, 228, 188, 176, 239, 188, 136] @ ''1 '' @ utf8 [229, 176, 143, 230, 153, 130, 233, 128, 159, 231, 142, 135, 239, 188, 137] @ ''</th><th>'' @ utf8 [231, 169, 169, 229, 129, 165, 233, 160, 144, 228, 188, 176, 239, 188, 136, 230, 156, 128, 233, 149, 183, 231, 170, 151, 233, 128, 159, 231, 142, 135, 239, 188, 137] @ ''</th><th>'' @ utf8 [231, 149, 182, 228, 184, 139, 231, 148, 168, 233, 135, 143] @ ''</th><th>'' @ utf8 [231, 149, 182, 228, 184, 139, 228, 189, 191, 231, 148, 168, 231, 142, 135] @ ''</th></tr>'' @ [CHR 0x0A])
           @ concat (map (detail_row ff parse) ps) @ ''</table>'' @ catalog_note ps))))"

definition handleAccuracy :: "(f64 \<Rightarrow> string) \<Rightarrow> (string \<Rightarrow> time option) \<Rightarrow> string \<Rightarrow> (string \<times> (string \<times> nat \<times> f64 option) list) res \<Rightarrow> web" where
  "handleAccuracy fv parse m reply =
     on_get m (with_reply (utf8 [230, 159, 165, 232, 169, 162, 229, 164, 177, 230, 149, 151, 239, 188, 154]) reply (\<lambda>(since, rows).
       Page (page (utf8 [233, 160, 144, 230, 184, 172, 229, 145, 189, 228, 184, 173, 231, 181, 177, 232, 168, 136, 239, 188, 136, 232, 191, 145] @ '' 7 '' @ utf8 [229, 164, 169, 239, 188, 137]) ((''<p>'' @ utf8 [232, 179, 135, 230, 150, 153, 232, 181, 183, 229, 167, 139, 239, 188, 154]) @ fmtGMT8 parse since @ (''</p><table border='1' cellpadding='4'><tr><th>'' @ utf8 [230, 132, 159, 230, 184, 172] @ ''</th><th>'' @ utf8 [233, 160, 144, 230, 184, 172, 231, 173, 134, 230, 149, 184] @ ''</th><th>'' @ utf8 [230, 156, 128, 232, 191, 145, 230, 191, 128, 233, 128, 178] @ '' ETA(s)</th></tr>'' @ [CHR 0x0A])
         @ concat (map (\<lambda>(i, n, e). ''<tr><td>'' @ i @ ''</td><td>'' @ dec n @ ''</td><td>'' @ fv (ptrVal e) @ '' s</td></tr>'' @ [CHR 0x0A]) rows) @ ''</table>''))))"

text \<open>\<open>None\<close>: billing is not enabled, and \<open>hint\<close> says how to enable it.\<close>

definition handleCost :: "string \<Rightarrow> string \<Rightarrow> cost_json option res \<Rightarrow> web" where
  "handleCost m hint reply =
     on_get m (with_reply (utf8 [230, 159, 165, 232, 169, 162, 229, 164, 177, 230, 149, 151, 239, 188, 154]) reply (\<lambda>p. case p of
         None \<Rightarrow> Page (page (utf8 [231, 135, 159, 233, 129, 139, 230, 136, 144, 230, 156, 172]) ((''<p>'' @ utf8 [226, 154, 160, 239, 184, 143] @ '' '' @ utf8 [229, 184, 179, 229, 139, 153, 228, 190, 134, 230, 186, 144, 230, 156, 170, 229, 149, 159, 231, 148, 168, 227, 128, 130]) @ hint @ ''</p>''))
       | Some c \<Rightarrow>
           (let body = (''<p>'' @ utf8 [230, 156, 172, 230, 156, 136, 231, 180, 175, 231, 169, 141, 239, 188, 154] @ ''$'') @ fmt_fixed 2 (K_Mtd c) @ (utf8 [239, 188, 136, 229, 184, 179, 229, 139, 153, 231, 162, 186, 232, 170, 141, 232, 135, 179] @ '' '') @ K_Confirmed c @ (utf8 [239, 188, 137] @ ''</p><p>'' @ utf8 [230, 156, 136, 229, 186, 149, 230, 142, 168, 228, 188, 176, 239, 188, 154] @ ''<b>$'')
                  @ fmt_fixed 2 (Conservative (K_Eom c)) @ (''</b>'' @ utf8 [239, 188, 136, 231, 136, 134, 233, 135, 143, 230, 131, 133, 229, 162, 131] @ '' $'') @ fmt_fixed 2 (Aggressive (K_Eom c)) @ (utf8 [239, 188, 137] @ ''</p>'')
            in case K_Estimate c of
                Some (e, v) \<Rightarrow>
                  if flt (Fin 0) (ER_Total e) then
                    (case AE_DeltaPct v of None \<Rightarrow> WebPanic
                     | Some pct \<Rightarrow> Page (page (utf8 [231, 135, 159, 233, 129, 139, 230, 136, 144, 230, 156, 172]) (body @ (''<p>'' @ utf8 [230, 142, 168, 228, 188, 176, 239, 188, 136, 231, 148, 168, 233, 135, 143, 195, 151, 229, 150, 174, 229, 131, 185, 239, 188, 137, 239, 188, 154] @ ''$'') @ fmt_fixed 2 (ER_Total e)
                         @ (if ER_Stale e then (utf8 [239, 188, 136, 233, 131, 168, 229, 136, 134, 229, 150, 174, 229, 131, 185, 231, 130, 186, 233, 129, 142, 230, 156, 159, 229, 191, 171, 229, 143, 150, 239, 188, 137]) else []) @ (utf8 [239, 189, 156] @ ''actual'' @ utf8 [226, 136, 146] @ ''estimate '' @ utf8 [229, 183, 174, 233, 161, 141] @ '' $'') @ fmt_fixed 2 (AE_Delta v) @ (utf8 [239, 188, 136]) @ fmt_fixed 1 pct @ (''%'' @ utf8 [239, 188, 137] @ ''</p>''))))
                  else Page (page (utf8 [231, 135, 159, 233, 129, 139, 230, 136, 144, 230, 156, 172]) body)
              | None \<Rightarrow> Page (page (utf8 [231, 135, 159, 233, 129, 139, 230, 136, 144, 230, 156, 172]) body))))"

subsection \<open>The waste page\<close>

text \<open>
  A candidate as the JSON object the daemon writes, with the names of the fields as keys, since they have no tags; and the fields
  the page reads from it. A key is matched up to the case of its letters, and a field without a key keeps its zero value.
\<close>

datatype jvalue = JText string | JFloat f64 | JInt int | JMap "string \<rightharpoonup> string" | JBool bool

definition candidate_object :: "candidate \<Rightarrow> (string \<times> jvalue) list" where
  "candidate_object c =
     [(''SensorID'', JText (SensorID c)), (''AlertName'', JText (AlertName c)), (''Reason'', JText (CReason c)), (''Window'', JInt (CWindow c)),
      (''IdleDays'', JFloat (IdleDays c)), (''WastedCost'', JFloat (WastedCost c)), (''Renotify'', JInt (CRenotify c)), (''Labels'', JMap (CLabels c)),
      (''SavingMonthly'', JFloat (SavingMonthly c)), (''Currency'', JText (CCurrency c)), (''PriceUnit'', JText (PriceUnit c)),
      (''PriceStale'', JBool (PriceStale c)), (''PriceError'', JText (PriceError c))]"

definition json_key :: "(string \<times> jvalue) list \<Rightarrow> string \<Rightarrow> jvalue option" where
  "json_key obj tag = map_option snd (find (\<lambda>(k, v). lower k = lower tag) obj)"

definition text_field :: "(string \<times> jvalue) list \<Rightarrow> string \<Rightarrow> string" where
  "text_field obj tag = (case json_key obj tag of Some (JText s) \<Rightarrow> s | _ \<Rightarrow> [])"

definition float_field :: "(string \<times> jvalue) list \<Rightarrow> string \<Rightarrow> f64" where
  "float_field obj tag = (case json_key obj tag of Some (JFloat x) \<Rightarrow> x | _ \<Rightarrow> Fin 0)"

record candidate_view =
  CV_SensorID :: string
  CV_AlertName :: string
  CV_Reason :: string
  CV_IdleDays :: f64

definition candidate_view_of :: "(string \<times> jvalue) list \<Rightarrow> candidate_view" where
  "candidate_view_of obj =
     \<lparr>CV_SensorID = text_field obj ''sensor_id'', CV_AlertName = text_field obj ''alert_name'', CV_Reason = text_field obj ''reason'',
      CV_IdleDays = float_field obj ''idle_days''\<rparr>"

definition waste_page_row :: "candidate_view \<Rightarrow> string" where
  "waste_page_row c =
     ''<tr><td>'' @ CV_SensorID c @ ''</td><td>'' @ CV_AlertName c @ ''</td><td>'' @ fmt_fixed 0 (CV_IdleDays c) @ ('' '' @ utf8 [229, 164, 169] @ ''</td><td>'') @ CV_Reason c @ ''</td></tr>'' @ [CHR 0x0A]"

definition handleWaste :: "string \<Rightarrow> (string \<times> (string \<times> jvalue) list list) res \<Rightarrow> web" where
  "handleWaste m reply =
     on_get m (with_reply (utf8 [230, 159, 165, 232, 169, 162, 229, 164, 177, 230, 149, 151, 239, 188, 154]) reply (\<lambda>(note, cs).
       if note \<noteq> [] then Page (page (utf8 [231, 152, 166, 232, 186, 171, 229, 189, 177, 239, 188, 143, 230, 174, 173, 229, 177, 141, 232, 179, 135, 230, 186, 144]) (''<p>'' @ note @ ''</p>''))
       else Page (page (utf8 [231, 152, 166, 232, 186, 171, 229, 189, 177, 239, 188, 143, 230, 174, 173, 229, 177, 141, 232, 179, 135, 230, 186, 144, 229, 128, 153, 233, 129, 184]) ((''<p>'' @ utf8 [229, 133, 177] @ '' '') @ dec (length cs) @ ('' '' @ utf8 [229, 128, 139, 229, 128, 153, 233, 129, 184] @ ''</p><table border='1' cellpadding='4'><tr><th>'' @ utf8 [230, 132, 159, 230, 184, 172] @ ''</th><th>'' @ utf8 [232, 166, 143, 229, 137, 135] @ ''</th><th>'' @ utf8 [233, 150, 146, 231, 189, 174, 229, 164, 169, 230, 149, 184] @ ''</th><th>'' @ utf8 [232, 170, 170, 230, 152, 142] @ ''</th></tr>'' @ [CHR 0x0A])
         @ concat (map (\<lambda>ob. waste_page_row (candidate_view_of ob)) cs) @ ''</table>''))))"

text \<open>The forwarded status: the status code of the daemon's answer with an empty body.\<close>

definition proxyTo :: "http \<Rightarrow> int \<times> string" where
  "proxyTo answer = (case answer of BadRequest e \<Rightarrow> (500, e) | NetErr e \<Rightarrow> (502, e) | Resp st b \<Rightarrow> (st, []))"

subsection \<open>Addresses\<close>

text \<open>
  The warning about an exposed address goes by the text before the first colon: only \<^verbatim>\<open>127.0.0.1\<close> and \<^verbatim>\<open>localhost\<close> count as local, and no
  address with an IPv6 host ever does, not even the loopback address that the code lists.
\<close>

lemma loopback_hosts:
  "(isLoopbackAddr addr \<longleftrightarrow> takeWhile (\<lambda>c. c \<noteq> CHR '':'') addr \<in> {''127.0.0.1'', ''localhost''}) \<and> \<not> isLoopbackAddr (''[::1]'' @ port)"
proof -
  let ?h = "\<lambda>a. takeWhile (\<lambda>c. c \<noteq> CHR '':'') a"
  have "(if CHR '':'' \<in> set addr then ?h addr else addr) = ?h addr" by (auto intro!: takeWhile_eq_all_conv [THEN iffD2, symmetric])
  then have h: "isLoopbackAddr addr \<longleftrightarrow> ?h addr = ''127.0.0.1'' \<or> ?h addr = ''localhost'' \<or> ?h addr = ''[::1]''"
    unfolding isLoopbackAddr_def Let_def by (simp only:)
  have "CHR '':'' \<notin> set (?h addr)" by (auto dest: set_takeWhileD)
  then have "?h addr \<noteq> ''[::1]''" by force
  then show ?thesis using h by (simp add: isLoopbackAddr_def)
qed

subsection \<open>Digits in groups\<close>

text \<open>The loop from the back of the text: what stands before a rest of the digits.\<close>

fun grouped :: "bool \<Rightarrow> string \<Rightarrow> string" where
  "grouped first [] = []"
| "grouped first (c # cs) = (if \<not> first \<and> length (c # cs) mod 3 = 0 then [CHR '','', c] else [c]) @ grouped False cs"

lemma grouped_loop:
  "concat (map (\<lambda>i. if 0 < k + i \<and> (length s - i) mod 3 = 0 then [CHR '','', s ! i] else [s ! i]) [0..<length s]) = grouped (k = 0) s"
proof (induction s arbitrary: k)
  case (Cons c s)
  have "[0..<length (c # s)] = 0 # map Suc [0..<length s]" by (simp add: upt_conv_Cons map_Suc_upt del: upt_Suc)
  then have "concat (map (\<lambda>i. if 0 < k + i \<and> (length (c # s) - i) mod 3 = 0 then [CHR '','', (c # s) ! i] else [(c # s) ! i]) [0..<length (c # s)])
      = (if 0 < k \<and> length (c # s) mod 3 = 0 then [CHR '','', c] else [c])
        @ concat (map (\<lambda>i. if 0 < Suc k + i \<and> (length s - i) mod 3 = 0 then [CHR '','', s ! i] else [s ! i]) [0..<length s])"
    by (simp add: comp_def nth_Cons_Suc del: upt_Suc cong: if_cong)
  then show ?case using Cons [of "Suc k"] by (simp del: upt_Suc)
qed simp

lemma group_digits_grouped: "group_digits s = grouped True s"
  using grouped_loop [of 0 s] by (simp add: group_digits_def)

lemma filter_grouped: "CHR '','' \<notin> set s \<Longrightarrow> filter (\<lambda>c. c \<noteq> CHR '','') (grouped b s) = s"
  by (induction b s rule: grouped.induct) auto

lemma grouped_rest: "length s mod 3 = 0 \<Longrightarrow> \<exists>cs. grouped False s = concat (map (\<lambda>d. CHR '','' # d) cs) \<and> (\<forall>d \<in> set cs. length d = 3)"
proof (induction "length s" arbitrary: s rule: less_induct)
  case less
  show ?case
  proof (cases s)
    case Nil
    then show ?thesis by (intro exI [of _ "[]"]) simp
  next
    case (Cons a s1)
    then obtain b c r where s: "s = a # b # c # r" using less.prems by (cases s1; cases "tl s1") (auto simp: mod_Suc)
    have r: "length r mod 3 = 0" using less.prems s by (simp add: mod_Suc split: if_splits)
    then obtain cs where "grouped False r = concat (map (\<lambda>d. CHR '','' # d) cs)" "\<forall>d \<in> set cs. length d = 3" using less.hyps [of r] s by auto
    moreover have "grouped False s = CHR '','' # [a, b, c] @ grouped False r" using r by (simp add: s mod_Suc)
    ultimately show ?thesis by (intro exI [of _ "[a, b, c] # cs"]) simp
  qed
qed

lemma join_groups: "join [x] (d # ds) = d @ concat (map (\<lambda>e. x # e) ds)"
  by (induction ds arbitrary: d) auto

lemma grouped_first:
  assumes "s \<noteq> []"
  shows "\<exists>c cs. grouped True s = join [CHR '',''] (c # cs) \<and> 1 \<le> length c \<and> length c \<le> 3 \<and> (\<forall>d \<in> set cs. length d = 3)"
proof -
  have plain: "grouped True (c @ r) = c @ grouped False r" if c: "c \<noteq> []" "length c \<le> 3" and r: "length r mod 3 = 0" for c r
  proof -
    have "grouped False (d @ r) = d @ grouped False r" if "length d < 3" for d
    proof (cases d)
      case (Cons a d1)
      then show ?thesis using that r by (cases d1; cases "tl d1") (auto simp: mod_Suc)
    qed simp
    note rest = this
    obtain a d where "c = a # d" using c(1) by (cases c) auto
    then show ?thesis using rest [of d] c(2) by simp
  qed
  define k where "k = (if length s mod 3 = 0 then 3 else length s mod 3)"
  have k: "1 \<le> k" "k \<le> 3" "k \<le> length s" "(length s - k) mod 3 = 0"
    using assms mod_less_eq_dividend [of "length s" 3] unfolding k_def by (auto simp: mod_eq_0_iff_dvd minus_mod_eq_mult_div dvd_imp_le Suc_le_eq mod_greater_zero_iff_not_dvd)
  obtain cs where cs: "grouped False (drop k s) = concat (map (\<lambda>d. CHR '','' # d) cs)" "\<forall>d \<in> set cs. length d = 3"
    using grouped_rest [of "drop k s"] k by auto
  have "take k s \<noteq> []" "length (take k s) \<le> 3" using k assms by auto
  from plain [OF this, of "drop k s"] have "grouped True s = take k s @ grouped False (drop k s)" using k by simp
  then show ?thesis using cs k by (intro exI [of _ "take k s"] exI [of _ cs]) (simp add: join_groups)
qed

text \<open>
  Grouping only inserts commas: without them the digits of the number are back, and between the commas stand groups of exactly three
  digits, the first one of one to three.
\<close>

lemma thousandSep_groups:
  assumes "s \<noteq> []" "CHR '','' \<notin> set s"
  shows "filter (\<lambda>c. c \<noteq> CHR '','') (group_digits s) = s
    \<and> (\<exists>c cs. group_digits s = join [CHR '',''] (c # cs) \<and> 1 \<le> length c \<and> length c \<le> 3 \<and> list_all (\<lambda>d. length d = 3) cs)"
  using filter_grouped [OF assms(2)] grouped_first [OF assms(1)] by (simp add: group_digits_grouped list_all_iff)

lemma thousandSep_groups_witness:
  "filter (\<lambda>c. c \<noteq> CHR '','') (group_digits ''1234567'') = ''1234567'' \<and> group_digits ''1234567'' = ''1,234,567''"
  using thousandSep_groups [of "''1234567''"] by (simp add: group_digits_def upt_rec)

lemma fmtGMT8_nano: "year4 t \<Longrightarrow> fmtGMT8 parse_nano (fmt_nano t) = fmt_date (t + 8 * hour) @ '' '' @ fmt_clock (sec_of_day (t + 8 * hour))"
  by (simp add: fmtGMT8_def parse_nano_fmt Let_def)

subsection \<open>The cost page\<close>

lemma small_total: "finite_float x \<Longrightarrow> \<not> flt (rnd (1 / 1000000000)) x \<longleftrightarrow> fle x (rnd (1 / 1000000000))"
proof -
  assume "finite_float x"
  moreover have "Fin 0 \<le> rnd (1 / 1000000000) \<and> rnd (1 / 1000000000) \<le> Fin 1"
    using rnd_mono [of "1 / 1000000000" 1] rnd_nonneg [of "1 / 1000000000"] by simp
  then obtain q where "rnd (1 / 1000000000) = Fin q" by (metis Fin_between)
  ultimately show ?thesis by (cases x) (auto simp: finite_float_def fle_def)
qed

text \<open>
  Which replies of the daemon crash the cost page: exactly those with an estimate that is positive but not above the bound of \<^verbatim>\<open>1e-9\<close> from
  which the daemon gives a percentage; the page then follows a nil pointer. Every other reply is shown.
\<close>

lemma cost_page_panics:
  assumes "costJSON st pr bill now ps dm = (ps', Json (Some c))"
  shows "handleCost ''GET'' hint (Inr (Some c)) = WebPanic \<longleftrightarrow>
    (\<exists>e v. K_Estimate c = Some (e, v) \<and> flt (Fin 0) (ER_Total e) \<and> fle (ER_Total e) (rnd (1 / 1000000000)))"
proof (cases "K_Estimate c")
  case None
  then show ?thesis by (simp add: handleCost_def on_get_def with_reply_def Let_def)
next
  case (Some p)
  obtain e v where p: "p = (e, v)" by (cases p)
  have "finite_float (ER_Total e) \<and> (\<exists>mtd. v = CompareActualVsEstimate mtd (Some e))"
    using assms Some p by (auto simp: costJSON_def encode_def estimate_floats_def Let_def split: if_splits sum.splits option.splits prod.splits)
  then show ?thesis using Some p small_total
    by (auto simp: handleCost_def on_get_def with_reply_def CompareActualVsEstimate_def Let_def split: option.splits if_splits)
qed

text \<open>One sensor with the value 1 and a price of 2 to the power of minus 34.\<close>

definition tiny_settings :: settings where
  "tiny_settings = plain_settings\<lparr>ST_costMap := [\<lparr>U_Sensor = ''cpu'', U_Service = [], U_Family = ''vm'', U_Attrs = Map.empty\<rparr>]\<rparr>"

definition tiny_pricer :: "unit pricer" where
  "tiny_pricer fam attrs s = (s, Inr \<lparr>UnitPrice = Fin (1 / 17179869184), Currency = ''USD'', Unit = [], QSource = [], Stale = False\<rparr>)"

definition tiny_daemon :: daemon where
  "tiny_daemon = (fresh_daemon [])\<lparr>DM_store := empty_store\<lparr>T_states := [(''cpu'', \<lparr>c_state = ''normal'', c_value = Some (Fin 1), c_util = None, c_notify = None, c_updated = []\<rparr>)]\<rparr>\<rparr>"

lemma cost_page_panics_witness:
  "\<exists>c. costJSON tiny_settings (Some tiny_pricer) (\<lambda>_ _. Inr []) 0 () tiny_daemon = ((), Json (Some c)) \<and> handleCost ''GET'' [] (Inr (Some c)) = WebPanic"
proof -
  have m: "daysInMonth AMD64 0 = 31" "Day 0 = 1" by code_simp+
  have tiny: "rnd (1 / 17179869184) = Fin (1 / 17179869184)" "rnd (- (1 / 17179869184)) = Fin (- (1 / 17179869184))" "fle (Fin (1 / 17179869184)) (rnd (1 / 1000000000))"
    "flt (rnd (1 / 1000000000)) (Fin (1 / 17179869184)) = False" by code_simp+
  obtain c where c: "costJSON tiny_settings (Some tiny_pricer) (\<lambda>_ _. Inr []) 0 () tiny_daemon = ((), Json (Some c))"
    "map_option (ER_Total \<circ> fst) (K_Estimate c) = Some (Fin (1 / 17179869184))"
    by (simp add: costJSON_def tiny_settings_def plain_settings_def tiny_daemon_def tiny_pricer_def fresh_daemon_def empty_store_def estimateLines_def
        EstimateSpend_def estimate_line_def blank_line_def GetState_def encode_def estimate_floats_def fsum_def m tiny of_i64_def rnd_of_int EstimateRates_def
        ProjectEOM_def recentTail_def CompareActualVsEstimate_def opt_list_def finite_float_def coalesce0_def Let_def)
  then show ?thesis using cost_page_panics [OF c(1), of "[]"] tiny by force
qed

subsection \<open>The waste page\<close>

lemma lower_names:
  "lower ''SensorID'' = ''sensorid''" "lower ''AlertName'' = ''alertname''" "lower ''Reason'' = ''reason''" "lower ''Window'' = ''window''"
  "lower ''IdleDays'' = ''idledays''" "lower ''WastedCost'' = ''wastedcost''" "lower ''Renotify'' = ''renotify''" "lower ''Labels'' = ''labels''"
  "lower ''SavingMonthly'' = ''savingmonthly''" "lower ''Currency'' = ''currency''" "lower ''PriceUnit'' = ''priceunit''" "lower ''PriceStale'' = ''pricestale''"
  "lower ''PriceError'' = ''priceerror''" "lower ''sensor_id'' = ''sensor_id''" "lower ''alert_name'' = ''alert_name''" "lower ''reason'' = ''reason''"
  "lower ''idle_days'' = ''idle_days''"
  by code_simp+

lemma candidate_view_blank:
  "candidate_view_of (candidate_object c) = \<lparr>CV_SensorID = [], CV_AlertName = [], CV_Reason = CReason c, CV_IdleDays = Fin 0\<rparr>"
  by (simp add: candidate_view_of_def candidate_object_def text_field_def float_field_def json_key_def lower_names)

text \<open>
  The waste page loses what it should show: for every list of candidates that the daemon sends, each row has an empty sensor, an empty
  rule and an age of zero days, and only the reason is the candidate's; candidates with the same reasons give the same page.
\<close>

lemma waste_page_blank:
  assumes "map CReason cs = map CReason ds"
  shows "map (candidate_view_of \<circ> candidate_object) cs
      = map (\<lambda>r. \<lparr>CV_SensorID = [], CV_AlertName = [], CV_Reason = r, CV_IdleDays = Fin 0\<rparr>) (map CReason cs)
    \<and> handleWaste m (Inr (note, map candidate_object cs)) = handleWaste m (Inr (note, map candidate_object ds))"
proof -
  have "map (candidate_view_of \<circ> candidate_object) xs = map (\<lambda>r. \<lparr>CV_SensorID = [], CV_AlertName = [], CV_Reason = r, CV_IdleDays = Fin 0\<rparr>) (map CReason xs)" for xs
    by (simp add: candidate_view_blank)
  note view = this
  have "map (\<lambda>ob. waste_page_row (candidate_view_of ob)) (map candidate_object xs)
      = map (\<lambda>r. waste_page_row \<lparr>CV_SensorID = [], CV_AlertName = [], CV_Reason = r, CV_IdleDays = Fin 0\<rparr>) (map CReason xs)" for xs
    by (simp add: candidate_view_blank)
  moreover have "length cs = length ds" using assms by (metis length_map)
  ultimately have "handleWaste m (Inr (note, map candidate_object cs)) = handleWaste m (Inr (note, map candidate_object ds))"
    using assms by (simp add: handleWaste_def with_reply_def del: map_map)
  then show ?thesis using view by blast
qed

lemma waste_page_blank_witness:
  "handleWaste ''GET'' (Inr ([], [candidate_object cand0])) = handleWaste ''GET'' (Inr ([], [candidate_object (cand0\<lparr>SensorID := ''other'', IdleDays := Fin 90\<rparr>)]))"
  using waste_page_blank [of "[cand0]" "[cand0\<lparr>SensorID := ''other'', IdleDays := Fin 90\<rparr>]"] by simp

subsection \<open>The status page\<close>

text \<open>The reply of the daemon as HTTP: \<open>enc\<close> writes the JSON text.\<close>

definition reply_http :: "('a \<Rightarrow> string) \<Rightarrow> 'a reply \<Rightarrow> http" where
  "reply_http enc r = (case r of Json x \<Rightarrow> Resp 200 (enc x) | NoBody \<Rightarrow> Resp 200 [] | HttpError c m \<Rightarrow> Resp c m | Panicked \<Rightarrow> NetErr ''EOF'')"

text \<open>One infinite value takes the whole status page away; a status that can be encoded is shown.\<close>

lemma index_of_status:
  assumes "dec_states [] = None" "\<And>x. dec_states (enc x) = Some x"
  shows "(\<exists>msg. handleIndex g4 parse ks ''GET'' (fetchJSON url (reply_http enc (statusJSON dm)) dec_states) = WebError 502 msg) \<longleftrightarrow> statusJSON dm = NoBody"
proof -
  have "statusJSON dm = NoBody \<or> (\<exists>m. statusJSON dm = Json m)" by (simp add: statusJSON_def encode_def Let_def)
  then show ?thesis
    using assms by (auto simp: handleIndex_def on_get_def with_reply_def fetchJSON_def reply_http_def opt_res_def)
qed

end
