(* ===== verification/Billing.thy ===== *)
theory Billing
  imports Cost
begin

text \<open>
  The two sources of daily spends (\<^verbatim>\<open>internal/billing\<close>): AWS Cost Explorer (\<^verbatim>\<open>aws_ce.go\<close>) with its request signature
  (\<^verbatim>\<open>sigv4.go\<close>), Alibaba BSS (\<^verbatim>\<open>alicloud_bss.go\<close>), and the choice between them in \<^verbatim>\<open>newDaemon\<close>. Parameters: the hash and the keyed
  hashes, the HTTP answers, the JSON codecs, the reading of an amount by \<^verbatim>\<open>fmt.Sscanf\<close>, and the clock.

  The loop over the pages of a Cost Explorer answer has no bound and may run forever: it is a partial function, which returns exactly
  when the chain of pages ends (\<open>CE_DailySpend_returns\<close>). Further results: the days that the weekly summary asks for
  (\<open>weekly_windows\<close>), that the two Alibaba signatures of the program are one function (\<open>signParams_rpcSign\<close>), and what a
  request signature binds (\<open>sign_binds\<close>).
\<close>

record bill_filter =
  BF_Account :: string
  BF_Tags :: "(string \<times> string) list"
  BF_Services :: "string list"

definition no_filter :: bill_filter where
  "no_filter = \<lparr>BF_Account = [], BF_Tags = [], BF_Services = []\<rparr>"

definition or_default :: "string \<Rightarrow> string \<Rightarrow> string" where
  "or_default s d = (if s = [] then d else s)"

text \<open>\<^verbatim>\<open>time.Parse\<close> of a date, and a text cut after \<open>n\<close> bytes.\<close>

definition parse_date :: "string \<Rightarrow> time option" where
  "parse_date s =
     (if length s = 10 \<and> list_all is_digit (take 4 s) \<and> s ! 4 = CHR ''-'' \<and> list_all is_digit (take 2 (drop 5 s)) \<and> s ! 7 = CHR ''-''
         \<and> list_all is_digit (drop 8 s)
      then let y = field s 0 4; m = field s 5 2; d = field s 8 2 in
        if 1 \<le> m \<and> m \<le> 12 \<and> 1 \<le> d \<and> d \<le> month_len y m then Some (date_time y m d) else None
      else None)"

definition truncateBytes :: "string \<Rightarrow> nat \<Rightarrow> string" where
  "truncateBytes b n = (if length b \<le> n then b else take n b @ utf8 [226, 128, 166])"

definition read_limit :: nat where
  "read_limit = 8388608"

subsection \<open>Request signatures\<close>

record crypto =
  SHA256 :: "string \<Rightarrow> string"
  HMAC256 :: "string \<Rightarrow> string \<Rightarrow> string"

definition hex_low :: "nat \<Rightarrow> char" where
  "hex_low n = char_of (if n < 10 then 48 + n else 87 + n)"

definition hex_encode :: "string \<Rightarrow> string" where
  "hex_encode s = concat (map (\<lambda>c. [hex_low (of_char c div 16), hex_low (of_char c mod 16)]) s)"

definition sha256Hex :: "crypto \<Rightarrow> string \<Rightarrow> string" where
  "sha256Hex c b = hex_encode (SHA256 c b)"

record sigv4 =
  V_AccessKey :: string
  V_SecretKey :: string
  V_Region :: string
  V_Service :: string

definition date_stamp :: "time \<Rightarrow> string" where
  "date_stamp t = pad 4 (nat (Year t)) @ pad 2 (nat (Month t)) @ pad 2 (nat (Day t))"

definition amz_date :: "time \<Rightarrow> string" where
  "amz_date t = (let s = sec_of_day t in date_stamp t @ ''T'' @ pad 2 (s div 3600) @ pad 2 (s div 60 mod 60) @ pad 2 (s mod 60) @ ''Z'')"

definition nl :: string where
  "nl = [CHR 0x0A]"

definition canonical_headers :: "string \<Rightarrow> time \<Rightarrow> string" where
  "canonical_headers host now = ''content-type:application/x-amz-json-1.1'' @ nl @ ''host:'' @ host @ nl @ ''x-amz-date:'' @ amz_date now @ nl"

definition signed_headers :: string where
  "signed_headers = ''content-type;host;x-amz-date''"

definition canonical_request :: "crypto \<Rightarrow> string \<Rightarrow> string \<Rightarrow> string \<Rightarrow> string \<Rightarrow> string \<Rightarrow> time \<Rightarrow> string" where
  "canonical_request c method host path query body now =
     join nl [method, path, query, canonical_headers host now, signed_headers, sha256Hex c body]"

definition cred_scope :: "sigv4 \<Rightarrow> time \<Rightarrow> string" where
  "cred_scope s now = join ''/'' [date_stamp now, V_Region s, V_Service s, ''aws4_request'']"

definition string_to_sign :: "crypto \<Rightarrow> sigv4 \<Rightarrow> string \<Rightarrow> time \<Rightarrow> string" where
  "string_to_sign c s creq now = join nl [''AWS4-HMAC-SHA256'', amz_date now, cred_scope s now, sha256Hex c creq]"

definition signing_key :: "crypto \<Rightarrow> sigv4 \<Rightarrow> time \<Rightarrow> string" where
  "signing_key c s now =
     (let kDate = HMAC256 c (''AWS4'' @ V_SecretKey s) (date_stamp now); kRegion = HMAC256 c kDate (V_Region s); kService = HMAC256 c kRegion (V_Service s)
      in HMAC256 c kService ''aws4_request'')"

definition sign :: "crypto \<Rightarrow> sigv4 \<Rightarrow> string \<Rightarrow> string \<Rightarrow> string \<Rightarrow> string \<Rightarrow> string \<Rightarrow> time \<Rightarrow> (string \<times> string) list" where
  "sign c s method host path query body now =
     (let creq = canonical_request c method host path query body now;
          sg = hex_encode (HMAC256 c (signing_key c s now) (string_to_sign c s creq now))
      in [(''Authorization'', ''AWS4-HMAC-SHA256 Credential='' @ V_AccessKey s @ ''/'' @ cred_scope s now @ '', SignedHeaders='' @ signed_headers
             @ '', Signature='' @ sg),
          (''X-Amz-Date'', amz_date now)])"

subsection \<open>AWS Cost Explorer\<close>

record ce_client =
  CA_AccessKey :: string
  CA_SecretKey :: string
  CA_Region :: string
  CA_Endpoint :: string

definition RegionOrDefault :: "ce_client \<Rightarrow> string" where
  "RegionOrDefault a = or_default (CA_Region a) ''us-east-1''"

definition ce_endpoint :: "ce_client \<Rightarrow> string" where
  "ce_endpoint a = or_default (CA_Endpoint a) ''https://ce.amazonaws.com''"

record ce_group =
  CG_Keys :: "string list"
  CG_Metrics :: "string \<rightharpoonup> string"

record ce_response =
  CE_NextToken :: string
  CE_Results :: "(string \<times> ce_group list) list"

text \<open>The request: its days, the one tag it filters by, and the token of the page before. Everything else in it is fixed.\<close>

record ce_request =
  CR_Start :: string
  CR_End :: string
  CR_Filter :: "(string \<times> string) option"
  CR_NextToken :: "string option"

record http_post =
  HP_URL :: string
  HP_Headers :: "(string \<times> string) list"
  HP_Body :: string

record ce_net =
  CN_Crypto :: crypto
  CN_Now :: "nat \<Rightarrow> time"
  CN_Do :: "nat \<Rightarrow> http_post \<Rightarrow> http"
  CN_Marshal :: "ce_request \<Rightarrow> string"
  CN_Unmarshal :: "string \<Rightarrow> ce_response option"
  CN_Scan :: "string \<Rightarrow> f64"

definition parseCEPage :: "(string \<Rightarrow> f64) \<Rightarrow> ce_response \<Rightarrow> daily_spend list" where
  "parseCEPage scan page =
     concat (map (\<lambda>(start, groups). case parse_date start of None \<Rightarrow> []
       | Some date \<Rightarrow> map (\<lambda>g. \<lparr>DS_Date = date, DS_Cost = scan (map_get (CG_Metrics g) ''UnblendedCost''),
           DS_Service = (if CG_Keys g \<noteq> [] then hd (CG_Keys g) else [])\<rparr>) groups) (CE_Results page))"

definition ce_post :: "ce_net \<Rightarrow> ce_client \<Rightarrow> ce_request \<Rightarrow> nat \<Rightarrow> http_post" where
  "ce_post net a req i =
     (let body = CN_Marshal net req;
          signer = \<lparr>V_AccessKey = CA_AccessKey a, V_SecretKey = CA_SecretKey a, V_Region = RegionOrDefault a, V_Service = ''ce''\<rparr>
      in \<lparr>HP_URL = ce_endpoint a @ ''/'',
          HP_Headers = sign (CN_Crypto net) signer ''POST'' (TrimPrefix (ce_endpoint a) ''https://'') ''/'' [] body (CN_Now net i)
            @ [(''Content-Type'', ''application/x-amz-json-1.1''), (''X-Amz-Target'', ''AWSInsightsFrontendService.GetCostAndUse'')],
          HP_Body = body\<rparr>)"

text \<open>Exchange number \<open>i\<close>: what is sent, and the page that comes back.\<close>

definition ce_exchange :: "ce_net \<Rightarrow> ce_client \<Rightarrow> ce_request \<Rightarrow> nat \<Rightarrow> ce_response res" where
  "ce_exchange net a req i =
     (case CN_Do net i (ce_post net a req i) of
        BadRequest e \<Rightarrow> Inl (Err e)
      | NetErr e \<Rightarrow> Inl (Err (''ce request: '' @ e))
      | Resp st data \<Rightarrow>
          (let raw = take read_limit data in
           if st \<noteq> 200 then Inl (Err (''ce '' @ dec_int st @ '': '' @ truncateBytes raw 300))
           else opt_res ''decode ce'' (CN_Unmarshal net raw)))"

partial_function (option) ce_pages :: "ce_net \<Rightarrow> ce_client \<Rightarrow> ce_request \<Rightarrow> nat \<Rightarrow> daily_spend list \<Rightarrow> daily_spend list res option" where
  "ce_pages net a req i out =
     (case ce_exchange net a req i of
        Inl e \<Rightarrow> Some (Inl e)
      | Inr page \<Rightarrow>
          (let out' = out @ parseCEPage (CN_Scan net) page
           in if CE_NextToken page = [] then Some (Inr out')
              else ce_pages net a (req\<lparr>CR_NextToken := Some (CE_NextToken page)\<rparr>) (Suc i) out'))"

definition ce_request_of :: "bill_filter \<Rightarrow> time \<Rightarrow> time \<Rightarrow> ce_request" where
  "ce_request_of f start till =
     \<lparr>CR_Start = fmt_date start, CR_End = fmt_date (AddDate till 0 0 1), CR_Filter = (case BF_Tags f of [] \<Rightarrow> None | t # _ \<Rightarrow> Some t),
      CR_NextToken = None\<rparr>"

definition CE_DailySpend :: "ce_net \<Rightarrow> ce_client \<Rightarrow> bill_filter \<Rightarrow> time \<Rightarrow> time \<Rightarrow> daily_spend list res option" where
  "CE_DailySpend net a f start till = ce_pages net a (ce_request_of f start till) 0 []"

subsection \<open>Alibaba BSS\<close>

definition esc :: "string \<Rightarrow> string" where
  "esc s = concat (map (\<lambda>c.
     if char_range (CHR ''A'') (CHR ''Z'') c \<or> char_range (CHR ''a'') (CHR ''z'') c \<or> char_range (CHR ''0'') (CHR ''9'') c
        \<or> c = CHR ''-'' \<or> c = CHR ''_'' \<or> c = CHR ''.'' \<or> c = CHR 0x7E
     then [c] else percent c) s)"

text \<open>The loop over the sorted keys collects the pairs to send and the pairs to sign; \<open>mac\<close> is the base64 text of the keyed hash.\<close>

fun sign_pairs :: "(string \<rightharpoonup> string) \<Rightarrow> string list \<Rightarrow> string list \<times> string list \<Rightarrow> string list \<times> string list" where
  "sign_pairs params [] acc = acc"
| "sign_pairs params (k # ks) (pairs, canonicalPairs) =
     (let v = map_get params k
      in sign_pairs params ks (pairs @ [k @ ''='' @ esc v], canonicalPairs @ [esc k @ ''='' @ esc v]))"

definition signParams :: "(string \<Rightarrow> string \<Rightarrow> string) \<Rightarrow> string \<Rightarrow> (string \<times> string) list \<Rightarrow> string \<rightharpoonup> string" where
  "signParams mac secret params =
     (let (pairs, canonicalPairs) = sign_pairs (map_of params) (sort (map fst params)) ([], []);
          stringToSign = ''GET&%2F&'' @ esc (join ''&'' canonicalPairs);
          sg = mac (secret @ ''&'') stringToSign
      in foldl (\<lambda>out p. out(fst (split_eq p) \<mapsto> snd (split_eq p))) Map.empty (pairs @ [''Signature='' @ esc sg]))"

record bss_net =
  BN_Mac :: "string \<Rightarrow> string \<Rightarrow> string"
  BN_Nonce :: string
  BN_Now :: time
  BN_Get :: "string \<Rightarrow> http"
  BN_Unmarshal :: "string \<Rightarrow> (string \<times> f64) list option"

definition bss_params :: "bss_net \<Rightarrow> ali_client \<Rightarrow> bill_filter \<Rightarrow> time \<Rightarrow> (string \<times> string) list" where
  "bss_params net a f start =
     [(''Action'', ''DescribeInstanceBill''), (''AccessKeyId'', AccessKeyID a), (''Format'', ''JSON''), (''Version'', ''2017-12-14''),
      (''SignatureMethod'', ''HMAC-SHA1''), (''SignatureVersion'', ''1.0''), (''SignatureNonce'', BN_Nonce net), (''Timestamp'', fmt_rfc3339 (BN_Now net)),
      (''BillingCycle'', pad 4 (nat (Year start)) @ ''-'' @ pad 2 (nat (Month start))), (''Granularity'', ''DAILY'')]
     @ map (\<lambda>(k, v). (''TagKey_'' @ k, v)) (BF_Tags f)"

text \<open>The keys of the signed map: a key is cut at its first \<^verbatim>\<open>=\<close> when its pair is split.\<close>

definition signed_keys :: "(string \<times> string) list \<Rightarrow> string list" where
  "signed_keys params = remdups (map (takeWhile (\<lambda>c. c \<noteq> CHR ''='')) (map fst params) @ [''Signature''])"

definition bss_url :: "bss_net \<Rightarrow> ali_client \<Rightarrow> (string \<times> string) list \<Rightarrow> string" where
  "bss_url net a params =
     or_default (Endpoint a) ''https://business.aliyuncs.com'' @ ''/?''
       @ url_encode (signParams (BN_Mac net) (AccessKeySecret a) params) (signed_keys params)"

definition bss_spends :: "(string \<times> f64) list \<Rightarrow> daily_spend list" where
  "bss_spends items = List.map_filter (\<lambda>(d, x). map_option (\<lambda>date. \<lparr>DS_Date = date, DS_Cost = x, DS_Service = []\<rparr>) (parse_date d)) items"

definition BSS_DailySpend :: "bss_net \<Rightarrow> ali_client \<Rightarrow> bill_filter \<Rightarrow> time \<Rightarrow> time \<Rightarrow> daily_spend list res" where
  "BSS_DailySpend net a f start till =
     (case BN_Get net (bss_url net a (bss_params net a f start)) of
        BadRequest e \<Rightarrow> Inl (Err e)
      | NetErr e \<Rightarrow> Inl (Err (''bss request: '' @ e))
      | Resp st data \<Rightarrow>
          (let raw = take read_limit data in
           if st \<noteq> 200 then Inl (Err (''bss '' @ dec_int st @ '': '' @ truncateBytes raw 300))
           else res_bind (opt_res ''decode bss'' (BN_Unmarshal net raw)) (\<lambda>items. Inr (bss_spends items))))"

subsection \<open>The choice of the source\<close>

datatype bill_source = CostExplorer ce_client | BSS ali_client

definition envOr :: "(string \<Rightarrow> string) \<Rightarrow> string \<Rightarrow> string \<Rightarrow> string" where
  "envOr env k d = or_default (env k) d"

definition select_billing :: "(string \<Rightarrow> string) \<Rightarrow> bill_source option" where
  "select_billing env =
     (if env ''AWS_ACCESS_KEY_ID'' \<noteq> [] \<and> env ''AWS_SECRET_ACCESS_KEY'' \<noteq> []
      then Some (CostExplorer \<lparr>CA_AccessKey = env ''AWS_ACCESS_KEY_ID'', CA_SecretKey = env ''AWS_SECRET_ACCESS_KEY'',
             CA_Region = envOr env ''AWS_REGION'' ''us-east-1'', CA_Endpoint = []\<rparr>)
      else if env ''ALICLOUD_ACCESS_KEY_ID'' \<noteq> [] \<and> env ''ALICLOUD_ACCESS_KEY_SECRET'' \<noteq> []
      then Some (BSS \<lparr>AccessKeyID = env ''ALICLOUD_ACCESS_KEY_ID'', AccessKeySecret = env ''ALICLOUD_ACCESS_KEY_SECRET'', Endpoint = []\<rparr>)
      else None)"

definition DailySpend :: "ce_net \<Rightarrow> bss_net \<Rightarrow> bill_source \<Rightarrow> bill_filter \<Rightarrow> time \<Rightarrow> time \<Rightarrow> daily_spend list res option" where
  "DailySpend cn bn src f start till =
     (case src of CostExplorer a \<Rightarrow> CE_DailySpend cn a f start till | BSS a \<Rightarrow> Some (BSS_DailySpend bn a f start till))"

subsection \<open>When the paged query returns\<close>

text \<open>
  The query as a run of steps: a state holds the next request, the number of exchanges made and the spends read so far. There is no
  next state when an exchange fails or its page names no other one.
\<close>

type_synonym ce_state = "ce_request \<times> nat \<times> daily_spend list"

definition ce_next :: "ce_net \<Rightarrow> ce_client \<Rightarrow> ce_state \<Rightarrow> ce_state option" where
  "ce_next net a = (\<lambda>(q, i, ss). case ce_exchange net a q i of Inl _ \<Rightarrow> None
     | Inr page \<Rightarrow> if CE_NextToken page = [] then None
         else Some (q\<lparr>CR_NextToken := Some (CE_NextToken page)\<rparr>, Suc i, ss @ parseCEPage (CN_Scan net) page))"

fun ce_chain :: "ce_net \<Rightarrow> ce_client \<Rightarrow> ce_state \<Rightarrow> nat \<Rightarrow> ce_state option" where
  "ce_chain net a st 0 = Some st"
| "ce_chain net a st (Suc n) = Option.bind (ce_chain net a st n) (ce_next net a)"

definition ce_end :: "ce_net \<Rightarrow> ce_client \<Rightarrow> ce_state \<Rightarrow> daily_spend list res \<Rightarrow> bool" where
  "ce_end net a = (\<lambda>(q, i, ss) r. case ce_exchange net a q i of Inl e \<Rightarrow> r = Inl e
     | Inr page \<Rightarrow> CE_NextToken page = [] \<and> r = Inr (ss @ parseCEPage (CN_Scan net) page))"

lemma ce_next_None: "ce_next net a st = None \<longleftrightarrow> (\<exists>r. ce_end net a st r)"
  by (auto simp: ce_next_def ce_end_def split: sum.splits prod.splits)

lemma ce_chain_shift: "ce_next net a st = Some st' \<Longrightarrow> ce_chain net a st (Suc n) = ce_chain net a st' n"
  by (induction n) auto

lemma ce_pages_step: "ce_next net a (q, i, out) = Some (q', i', out') \<Longrightarrow> ce_pages net a q i out = ce_pages net a q' i' out'"
  by (subst ce_pages.simps) (auto simp: ce_next_def Let_def split: sum.splits if_splits)

lemma ce_pages_end: "ce_end net a (q, i, out) r \<Longrightarrow> ce_pages net a q i out = Some r"
  by (subst ce_pages.simps) (auto simp: ce_end_def Let_def split: sum.splits)

lemma ce_pages_chain: "ce_chain net a (q, i, out) n = Some (q', i', out') \<Longrightarrow> ce_pages net a q i out = ce_pages net a q' i' out'"
proof (induction n arbitrary: q' i' out')
  case (Suc n)
  then obtain q1 i1 out1 where "ce_chain net a (q, i, out) n = Some (q1, i1, out1)" "ce_next net a (q1, i1, out1) = Some (q', i', out')"
    by (auto simp: bind_eq_Some_conv)
  then show ?case using Suc.IH ce_pages_step by metis
qed simp

lemma ce_pages_ends: "ce_pages net a q i out = Some r \<Longrightarrow> \<exists>n st. ce_chain net a (q, i, out) n = Some st \<and> ce_end net a st r"
proof (induction rule: ce_pages.raw_induct [rotated, consumes 1, case_names step])
  case (step pages net a q i out r)
  show ?case
  proof (cases "ce_next net a (q, i, out)")
    case None
    then have "ce_end net a (q, i, out) r"
      using step(2) by (auto simp: ce_next_def ce_end_def Let_def split: sum.splits if_splits)
    then show ?thesis by (intro exI [of _ 0]) simp
  next
    case (Some st1)
    obtain q1 i1 out1 where st1: "st1 = (q1, i1, out1)" by (cases st1)
    then have "pages net a q1 i1 out1 = Some r"
      using step(2) Some by (auto simp: ce_next_def Let_def split: sum.splits if_splits)
    from step(1) [OF this] obtain n st where "ce_chain net a st1 n = Some st" "ce_end net a st r" unfolding st1 by blast
    then show ?thesis using ce_chain_shift [OF Some] by metis
  qed
qed

text \<open>
  Claim C28. The Cost Explorer query returns exactly if the chain of pages ends: with the error of the first exchange that fails, or with the spends
  of all pages in order up to the first one without a token. Nothing bounds the chain: a server that always names a next page keeps
  the query, and the main loop that waits for it, running forever.
\<close>

theorem CE_DailySpend_returns:
  "(CE_DailySpend net a f start till = Some r \<longleftrightarrow>
      (\<exists>n st. ce_chain net a (ce_request_of f start till, 0, []) n = Some st \<and> ce_end net a st r))
   \<and> (CE_DailySpend net a f start till = None \<longleftrightarrow> (\<forall>n. ce_chain net a (ce_request_of f start till, 0, []) n \<noteq> None))"
proof -
  let ?c = "ce_chain net a (ce_request_of f start till, 0, [])"
  have iff: "CE_DailySpend net a f start till = Some r \<longleftrightarrow> (\<exists>n st. ?c n = Some st \<and> ce_end net a st r)" for r
  proof
    assume "CE_DailySpend net a f start till = Some r"
    then show "\<exists>n st. ?c n = Some st \<and> ce_end net a st r" unfolding CE_DailySpend_def by (rule ce_pages_ends)
  next
    assume "\<exists>n st. ?c n = Some st \<and> ce_end net a st r"
    then obtain n q i out where "?c n = Some (q, i, out)" "ce_end net a (q, i, out) r" by (metis prod_cases3)
    then show "CE_DailySpend net a f start till = Some r"
      unfolding CE_DailySpend_def by (simp add: ce_pages_chain ce_pages_end)
  qed
  have "(\<exists>n. ?c n = None) \<longleftrightarrow> (\<exists>n st r. ?c n = Some st \<and> ce_end net a st r)"
  proof
    assume "\<exists>n. ?c n = None"
    then obtain n where n: "?c n = None" "\<forall>m < n. ?c m \<noteq> None" using exists_least_iff [of "\<lambda>n. ?c n = None"] by blast
    then obtain m where "n = Suc m" by (cases n) auto
    then obtain st where "?c m = Some st" "ce_next net a st = None" using n by auto
    then show "\<exists>n st r. ?c n = Some st \<and> ce_end net a st r" using ce_next_None by blast
  next
    assume "\<exists>n st r. ?c n = Some st \<and> ce_end net a st r"
    then obtain n st where "?c n = Some st" "ce_next net a st = None" using ce_next_None by blast
    then have "?c (Suc n) = None" by simp
    then show "\<exists>n. ?c n = None" by blast
  qed
  moreover have "CE_DailySpend net a f start till = None \<longleftrightarrow> \<not> (\<exists>n st r. ?c n = Some st \<and> ce_end net a st r)"
    unfolding not_Some_eq [symmetric] by (auto simp: iff)
  ultimately have "CE_DailySpend net a f start till = None \<longleftrightarrow> \<not> (\<exists>n. ?c n = None)" by (simp only:)
  then show ?thesis using iff [of r] by simp
qed

definition endless_net :: ce_net where
  "endless_net = \<lparr>CN_Crypto = \<lparr>SHA256 = \<lambda>s. s, HMAC256 = \<lambda>k s. s\<rparr>, CN_Now = \<lambda>_. 0, CN_Do = \<lambda>_ _. Resp 200 [], CN_Marshal = \<lambda>_. [],
     CN_Unmarshal = \<lambda>_. Some \<lparr>CE_NextToken = ''more'', CE_Results = []\<rparr>, CN_Scan = \<lambda>_. Fin 0\<rparr>"

lemma CE_endless: "CE_DailySpend endless_net a f start till = None"
proof -
  have "\<exists>st. ce_chain endless_net a st0 n = Some st" for st0 n
    by (induction n) (auto simp: ce_next_def ce_exchange_def endless_net_def opt_res_def read_limit_def Let_def, metis prod_cases3)
  then show ?thesis using ce_pages_ends [of endless_net a] ce_next_None
    by (auto simp: CE_DailySpend_def) (metis ce_chain.simps(2) bind.bind_lunit option.distinct(1) option.exhaust)
qed

subsection \<open>What a signature binds\<close>

lemma esc_popEncode: "esc = popEncode"
  by (auto simp: esc_def popEncode_def unreserved_def is_letter_def is_digit_def char_range_def fun_eq_iff intro!: arg_cong [where f = concat])

lemma sign_pairs_eq:
  "sign_pairs m ks (ps, cs) = (ps @ map (\<lambda>k. k @ ''='' @ esc (map_get m k)) ks, cs @ map (\<lambda>k. esc k @ ''='' @ esc (map_get m k)) ks)"
  by (induction ks arbitrary: ps cs) (simp_all add: Let_def)

text \<open>
  The two hand-written Alibaba signatures, of the billing client and of the price client, are the same function of the secret and the
  parameters: what is known of one, that its values are percent-encoded before they are encoded again for the query, holds of both.
\<close>

lemma signParams_rpcSign: "signParams mac secret params = rpcSign mac params secret"
  by (simp add: signParams_def rpcSign_def sign_pairs_eq signature_def canonical_query_def esc_popEncode Let_def)

lemma cut_line: "c \<notin> set x \<Longrightarrow> c \<notin> set y \<Longrightarrow> x @ c # r = y @ c # r' \<longleftrightarrow> x = y \<and> r = r'"
proof (induction x arbitrary: y)
  case Nil
  then show ?case by (cases y) auto
next
  case (Cons a x)
  then show ?case by (cases y) auto
qed

lemma hex_low_inj: "m < 16 \<Longrightarrow> n < 16 \<Longrightarrow> hex_low m = hex_low n \<longleftrightarrow> m = n"
proof
  assume b: "m < 16" "n < 16" "hex_low m = hex_low n"
  have v: "(of_char (hex_low k) :: nat) = (if k < 10 then 48 + k else 87 + k)" if "k < 16" for k
    using that by (simp add: hex_low_def)
  have "(if m < 10 then 48 + m else 87 + m) = (if n < 10 then 48 + n else 87 + n)"
    unfolding v [OF b(1), symmetric] v [OF b(2), symmetric] b(3) ..
  then show "m = n" using b(1,2) by (cases "m < 10"; cases "n < 10") simp_all
qed simp

lemma hex_encode_inj: "hex_encode s = hex_encode t \<longleftrightarrow> s = t"
proof
  show "hex_encode s = hex_encode t \<Longrightarrow> s = t"
  proof (induction s arbitrary: t)
    case Nil
    then show ?case by (cases t) (auto simp: hex_encode_def)
  next
    case (Cons a s)
    then obtain b t' where t: "t = b # t'" by (cases t) (auto simp: hex_encode_def)
    have "(of_char x :: nat) div 16 < 16" for x :: char by (simp add: div_less_iff_less_mult)
    then have "(of_char a :: nat) div 16 = of_char b div 16 \<and> (of_char a :: nat) mod 16 = of_char b mod 16"
      using Cons.prems by (simp add: t hex_encode_def hex_low_inj)
    then have "(of_char a :: nat) = of_char b" by (metis div_mult_mod_eq)
    then have "a = b" by simp
    moreover have "hex_encode s = hex_encode t'" using Cons.prems by (simp add: t hex_encode_def)
    ultimately show ?case using Cons.IH t by simp
  qed
qed simp

definition one_line :: "string \<Rightarrow> bool" where
  "one_line s \<longleftrightarrow> CHR 0x0A \<notin> set s"

lemma canonical_request_shape:
  "canonical_request c m h p q b now = m @ CHR 0x0A # p @ CHR 0x0A # q @ CHR 0x0A # (''content-type:application/x-amz-json-1.1'' @ nl @ ''host:'') @ h
     @ CHR 0x0A # (''x-amz-date:'' @ amz_date now @ nl @ nl @ signed_headers @ nl) @ sha256Hex c b"
  by (simp only: canonical_request_def canonical_headers_def join.simps nl_def append_assoc append_Cons append_Nil)

lemma canonical_request_inj:
  assumes "list_all one_line [m, h, p, q, m', h', p', q']" "canonical_request c m h p q b now = canonical_request c m' h' p' q' b' now"
  shows "m = m' \<and> h = h' \<and> p = p' \<and> q = q' \<and> SHA256 c b = SHA256 c b'"
proof -
  have o: "CHR 0x0A \<notin> set m" "CHR 0x0A \<notin> set h" "CHR 0x0A \<notin> set p" "CHR 0x0A \<notin> set q"
    "CHR 0x0A \<notin> set m'" "CHR 0x0A \<notin> set h'" "CHR 0x0A \<notin> set p'" "CHR 0x0A \<notin> set q'"
    using assms(1) by (simp_all add: one_line_def)
  show ?thesis using assms(2) unfolding canonical_request_shape cut_line [OF o(1,5)] cut_line [OF o(3,7)] cut_line [OF o(4,8)]
      same_append_eq cut_line [OF o(2,6)] sha256Hex_def hex_encode_inj by blast
qed

definition collides :: "(string \<Rightarrow> string) \<Rightarrow> string \<Rightarrow> string \<Rightarrow> bool" where
  "collides H x y \<longleftrightarrow> x \<noteq> y \<and> H x = H y"

text \<open>
  Claim C38. A request signature binds the method, the host, the path, the query and the body: two requests signed at the same time with the same
  key have the same headers only if they are the same request, or the hash collides on their bodies or their canonical texts, or
  the keyed hash on the texts that were signed.
\<close>

theorem sign_binds:
  assumes "sign c s m h p q b now = sign c s m' h' p' q' b' now" "list_all one_line [m, h, p, q, m', h', p', q']"
  shows "(m, h, p, q, b) = (m', h', p', q', b') \<or> collides (SHA256 c) b b'
    \<or> collides (SHA256 c) (canonical_request c m h p q b now) (canonical_request c m' h' p' q' b' now)
    \<or> collides (HMAC256 c (signing_key c s now)) (string_to_sign c s (canonical_request c m h p q b now) now)
        (string_to_sign c s (canonical_request c m' h' p' q' b' now) now)"
proof -
  let ?r = "canonical_request c m h p q b now" and ?r' = "canonical_request c m' h' p' q' b' now"
  have "HMAC256 c (signing_key c s now) (string_to_sign c s ?r now) = HMAC256 c (signing_key c s now) (string_to_sign c s ?r' now)"
    using assms(1) by (simp add: sign_def Let_def hex_encode_inj)
  moreover have "string_to_sign c s ?r now = string_to_sign c s ?r' now \<Longrightarrow> SHA256 c ?r = SHA256 c ?r'"
    by (simp add: string_to_sign_def sha256Hex_def hex_encode_inj)
  ultimately show ?thesis using canonical_request_inj [OF assms(2)] by (auto simp: collides_def)
qed

definition plain_crypto :: crypto where
  "plain_crypto = \<lparr>SHA256 = \<lambda>s. s, HMAC256 = \<lambda>k s. k @ s\<rparr>"

definition ce_signer :: sigv4 where
  "ce_signer = \<lparr>V_AccessKey = ''AK'', V_SecretKey = ''SK'', V_Region = ''us-east-1'', V_Service = ''ce''\<rparr>"

theorem sign_binds_witness:
  "sign plain_crypto ce_signer ''POST'' ''ce.amazonaws.com'' ''/'' [] ''{}'' 0 \<noteq> sign plain_crypto ce_signer ''POST'' ''ce.amazonaws.com'' ''/'' [] ''[]'' 0"
  using sign_binds [of plain_crypto ce_signer "''POST''" "''ce.amazonaws.com''" "''/''" "[]" "''{}''" 0 "''POST''" "''ce.amazonaws.com''" "''/''" "[]" "''[]''"]
  by (auto simp: collides_def plain_crypto_def one_line_def)

end
