(* ===== verification/Startup.thy ===== *)
theory Startup
  imports Daemon Billing
begin

text \<open>
  How the daemon is put together (\<^verbatim>\<open>newDaemon\<close> and its helpers in \<^verbatim>\<open>cmd/sentinel/daemon.go\<close>) and what the weekly summary asks the two billing
  sources for. The environment is a function from names to values, empty for a variable that is not set.

  Main results: the days that the weekly summary compares with Cost Explorer behind it (\<open>weekly_windows\<close>), and that with Alibaba billing it can report no
  growth in the second half of a month (\<open>weekly_bss_blind\<close>).
\<close>

subsection \<open>Assembly\<close>

datatype notifier_choice = TelegramTo string int | LogOnly

record assembly =
  AS_cfg :: config
  AS_billing :: "bill_source option"
  AS_pricer :: "(string \<times> ali_client) option"
  AS_costMap :: "usage_template list"
  AS_notifier :: notifier_choice
  AS_publisher :: "publisher option"

text \<open>The digits that \<^verbatim>\<open>fmt.Sscanf\<close> with \<^verbatim>\<open>%d\<close> reads are a parameter.\<close>

definition telegramChatFromEnv :: "(string \<Rightarrow> int) \<Rightarrow> (string \<Rightarrow> string) \<Rightarrow> int" where
  "telegramChatFromEnv scan env = scan (env ''TELEGRAM_CHAT_ID'')"

definition select_pricer :: "(string \<Rightarrow> usage_template list res) \<Rightarrow> (string \<Rightarrow> string) \<Rightarrow> (string \<times> ali_client) option \<times> usage_template list" where
  "select_pricer load env =
     (let path = env ''SENTINEL_COST_MAP'' in
      if path = [] then (None, [])
      else case load path of Inl _ \<Rightarrow> (None, [])
        | Inr cm \<Rightarrow> (Some (envOr env ''PRICING_CACHE_DIR'' ''.pricing-cache'',
             \<lparr>AccessKeyID = env ''ALICLOUD_ACCESS_KEY_ID'', AccessKeySecret = env ''ALICLOUD_ACCESS_KEY_SECRET'', Endpoint = []\<rparr>), cm))"

definition newDaemon :: "(string \<Rightarrow> int) \<Rightarrow> (string \<Rightarrow> usage_template list res) \<Rightarrow> (string \<Rightarrow> string) \<Rightarrow> config \<Rightarrow> assembly" where
  "newDaemon scan load env cfg =
     (let bill = select_billing env; (pricer, costMap) = select_pricer load env;
          ntf = (if TelegramToken cfg \<noteq> [] then TelegramTo (TelegramToken cfg) (telegramChatFromEnv scan env) else LogOnly);
          pub = (if env ''ONCALL_GATE_URL'' \<noteq> [] then Some \<lparr>PubURL = env ''ONCALL_GATE_URL'', PubToken = env ''ONCALL_GATE_TOKEN''\<rparr> else None);
          cfg = applyWasteEnvOverride (env ''WASTE_SCAN_INTERVAL_SEC'') cfg;
          cfg = digest_env (env ''DAILY_DIGEST'') cfg
      in \<lparr>AS_cfg = cfg, AS_billing = bill, AS_pricer = pricer, AS_costMap = costMap, AS_notifier = ntf, AS_publisher = pub\<rparr>)"

text \<open>The daemon of a new process has no sensors yet and remembers nothing but its database.\<close>

definition daemon_of :: "store \<Rightarrow> daemon" where
  "daemon_of s = \<lparr>DM_sensors = [], DM_capDefs = [], DM_notify = \<lparr>NS_dedupe = Map.empty, NS_retry = Map.empty, NS_published = Map.empty, NS_meta = Map.empty\<rparr>,
     DM_store = s, DM_metrics = Map.empty, DM_catalog = None, DM_tracker = None\<rparr>"

text \<open>
  The settings a process runs with: the environment decides about billing, the weekly summary and the estimate.
\<close>

definition settings_of :: "assembly \<Rightarrow> (string \<Rightarrow> string) \<Rightarrow> settings \<Rightarrow> settings" where
  "settings_of asm env st = st\<lparr>ST_cfg := AS_cfg asm, ST_billing := (AS_billing asm \<noteq> None),
     ST_weekly_off := (env ''WEEKLY_COST_SUMMARY'' = ''off''), ST_costMap := AS_costMap asm\<rparr>"

subsection \<open>What the environment can do\<close>

lemma override_keeps: "config_ok c \<Longrightarrow> config_ok (applyWasteEnvOverride v c)"
  by (auto simp: applyWasteEnvOverride_def config_ok_def split: option.splits)

lemma digest_env_keeps: "WasteScanIntervalSec (digest_env v c) = WasteScanIntervalSec c" "PollIntervalSec (digest_env v c) = PollIntervalSec c"
  by (simp_all add: digest_env_def)

lemma digest_env_time: "DailyDigestTime (digest_env v c) = [] \<or> DailyDigestTime (digest_env v c) = DailyDigestTime c
    \<or> parseDigestTime (DailyDigestTime (digest_env v c)) \<noteq> None"
  by (simp add: digest_env_def)

text \<open>
  The environment cannot break a loaded configuration: whatever the variables hold, the waste interval stays non-negative,
  and the time of the digest is what the file says, empty, or a time of day.
\<close>

lemma newDaemon_config:
  assumes "config_ok cfg"
  shows "0 \<le> WasteScanIntervalSec (AS_cfg (newDaemon scan load env cfg)) \<and> 0 < PollIntervalSec (AS_cfg (newDaemon scan load env cfg))
    \<and> (let d = DailyDigestTime (AS_cfg (newDaemon scan load env cfg)) in d = [] \<or> d = DailyDigestTime cfg \<or> parseDigestTime d \<noteq> None)"
proof -
  let ?c = "applyWasteEnvOverride (env ''WASTE_SCAN_INTERVAL_SEC'') cfg"
  have c: "AS_cfg (newDaemon scan load env cfg) = digest_env (env ''DAILY_DIGEST'') ?c"
    by (simp add: newDaemon_def split_beta Let_def)
  have "DailyDigestTime ?c = DailyDigestTime cfg" by (simp add: applyWasteEnvOverride_def split: option.splits)
  moreover have "0 \<le> WasteScanIntervalSec ?c" "0 < PollIntervalSec ?c" using override_keeps [OF assms] by (simp_all add: config_ok_def)
  ultimately show ?thesis using digest_env_time [of "env ''DAILY_DIGEST''" ?c] unfolding c Let_def digest_env_keeps by simp
qed

text \<open>The estimate, and with it a price catalog, exists only with a cost map that loads.\<close>

lemma newDaemon_pricer: "AS_pricer (newDaemon scan load env cfg) = None \<longleftrightarrow> env ''SENTINEL_COST_MAP'' = [] \<or> isl (load (env ''SENTINEL_COST_MAP''))"
  by (auto simp: newDaemon_def select_pricer_def Let_def split: sum.splits)

subsection \<open>The days of the weekly summary\<close>

lemma AddDate_days: "AddDate t 0 0 d = t + d * day24"
proof -
  have "date_time (Year t) (Month t) (Day t) = day_number t * day24"
    by (rule civil_exists [of "day_number t"]) (simp add: date_time_def Year_def Month_def Day_def civil_def)
  then have "date_time (Year t) (Month t) (Day t + d) = day_number t * day24 + d * day24"
    by (simp add: date_time_def days_of_civil_def Let_def algebra_simps)
  then show ?thesis by (simp add: AddDate_def day_number_def)
qed

lemma parse_date_fmt: "year4 t \<Longrightarrow> parse_date (fmt_date t) = Some (day_number t * day24)"
proof -
  assume y: "year4 t"
  have v: "1 \<le> Month t" "Month t \<le> 12" "1 \<le> Day t" "Day t \<le> month_len (Year t) (Month t)" using civil_valid [of t] by auto
  then have "Day t \<le> 31" using month_len_bounds(2) [of "Year t" "Month t"] by linarith
  then have len: "length (pad 4 (nat (Year t))) = 4" "length (pad 2 (nat (Month t))) = 2" "length (pad 2 (nat (Day t))) = 2"
    using y v by (auto simp: year4_def intro!: length_pad)
  have F: "take 4 (fmt_date t) = pad 4 (nat (Year t))" "fmt_date t ! 4 = CHR ''-''" "take 2 (drop 5 (fmt_date t)) = pad 2 (nat (Month t))"
    "fmt_date t ! 7 = CHR ''-''" "drop 8 (fmt_date t) = pad 2 (nat (Day t))" "length (fmt_date t) = 10"
    using len by (auto simp: fmt_date_def nth_append)
  then have "field (fmt_date t) 0 4 = Year t" "field (fmt_date t) 5 2 = Month t" "field (fmt_date t) 8 2 = Day t"
    unfolding field_def using y v len by (simp_all add: year4_def)
  moreover have "date_time (Year t) (Month t) (Day t) = day_number t * day24"
    by (rule civil_exists [of "day_number t"]) (simp add: date_time_def Year_def Month_def Day_def civil_def)
  ultimately show ?thesis using F v by (simp add: parse_date_def pad_digits)
qed

text \<open>
  What was spent on each day, and Cost Explorer as documented: it answers a request with the days from its start on and before its end.
\<close>

definition ledger_days :: "(int \<Rightarrow> daily_spend list) \<Rightarrow> int \<Rightarrow> int \<Rightarrow> daily_spend list" where
  "ledger_days L first till = concat (map L [first..till])"

definition ce_ledger :: "(int \<Rightarrow> daily_spend list) \<Rightarrow> ce_request \<Rightarrow> daily_spend list res" where
  "ce_ledger L r = (case (parse_date (CR_Start r), parse_date (CR_End r)) of
     (Some s, Some e) \<Rightarrow> Inr (ledger_days L (day_number s) (day_number e - 1)) | _ \<Rightarrow> Inl (Err ''date''))"

lemma ledger_request: "year4 s \<Longrightarrow> year4 (e + day24) \<Longrightarrow> ce_ledger L (ce_request_of f s e) = Inr (ledger_days L (day_number s) (day_number e))"
  by (simp add: ce_ledger_def ce_request_of_def AddDate_days parse_date_fmt) (simp add: day_number_def)

lemma TruncateDay_number: "day_number (TruncateDay t) = day_number t" "day_number (TruncateDay t - second) = day_number t - 1"
proof -
  have t: "TruncateDay t = day_number t * day24" by (simp add: TruncateDay_def day_number_def minus_mod_eq_div_mult)
  then show "day_number (TruncateDay t) = day_number t" by (simp add: day_number_def)
  show "day_number (TruncateDay t - second) = day_number t - 1" unfolding t day_number_def by simp
qed

lemma month_start_number: "day_number (date_time (Year now) (Month now) 1) = day_number now - Day now + 1"
proof -
  have "date_time (Year now) (Month now) (Day now) = day_number now * day24"
    by (rule civil_exists [of "day_number now"]) (simp add: date_time_def Year_def Month_def Day_def civil_def)
  then have "date_time (Year now) (Month now) 1 = (day_number now - Day now + 1) * day24"
    by (simp add: date_time_def days_of_civil_def Let_def algebra_simps)
  then show ?thesis by (simp add: day_number_def)
qed

lemma year4_days: "year4 s \<Longrightarrow> year4 e \<Longrightarrow> day_number s \<le> day_number u \<Longrightarrow> day_number u \<le> day_number e \<Longrightarrow> year4 u"
proof -
  have m: "Year x \<le> Year y" if "day_number x \<le> day_number y" for x y
    using civil_less [of x y] that by (cases "day_number x = day_number y") (auto simp: Year_def civil_def)
  assume "year4 s" "year4 e" "day_number s \<le> day_number u" "day_number u \<le> day_number e"
  then show "year4 u" using m [of s u] m [of u e] by (simp add: year4_def)
qed

text \<open>The spends that the summary asks for, by day.\<close>

lemma weekly_requests:
  assumes "year4 (now - 31 * day24)" "year4 (now + 2 * day24)"
  shows "ce_ledger L (ce_request_of f (TruncateDay (AddDate now 0 0 (- 7))) now) = Inr (ledger_days L (day_number now - 7) (day_number now))"
    "ce_ledger L (ce_request_of f (TruncateDay (AddDate now 0 0 (- 14))) (TruncateDay (AddDate now 0 0 (- 7)) - second))
      = Inr (ledger_days L (day_number now - 14) (day_number now - 8))"
    "ce_ledger L (ce_request_of f (date_time (Year now) (Month now) 1) now) = Inr (ledger_days L (day_number now - Day now + 1) (day_number now))"
proof -
  have n: "day_number (now + k * day24) = day_number now + k" for k by (simp add: day_number_def)
  have y: "year4 u" if "day_number now - 31 \<le> day_number u" "day_number u \<le> day_number now + 2" for u
    using year4_days [OF assms(1,2)] that n [of "- 31"] n [of 2] by simp
  have s: "day_number (TruncateDay (AddDate now 0 0 (- 7))) = day_number now - 7" "day_number (TruncateDay (AddDate now 0 0 (- 14))) = day_number now - 14"
    "day_number (TruncateDay (AddDate now 0 0 (- 7)) - second) = day_number now - 8"
    using n [of "- 7"] n [of "- 14"] by (simp_all add: AddDate_days TruncateDay_number)
  have e: "day_number (u + day24) = day_number u + 1" for u by (simp add: day_number_def)
  note t = e [of "TruncateDay (AddDate now 0 0 (- 7)) - second", unfolded s] e [of now]
  have "1 \<le> Day now" "Day now \<le> 31"
    using civil_valid [of now] month_len_bounds(2) [of "Year now" "Month now"] by auto
  then have "year4 (date_time (Year now) (Month now) 1)" by (intro y) (simp_all add: month_start_number)
  moreover have "year4 (TruncateDay (AddDate now 0 0 (- 7)))" "year4 (now + day24)" "year4 (TruncateDay (AddDate now 0 0 (- 14)))"
    "year4 (TruncateDay (AddDate now 0 0 (- 7)) - second + day24)"
    by (rule y; simp only: s t; simp)+
  ultimately show "ce_ledger L (ce_request_of f (TruncateDay (AddDate now 0 0 (- 7))) now) = Inr (ledger_days L (day_number now - 7) (day_number now))"
    "ce_ledger L (ce_request_of f (TruncateDay (AddDate now 0 0 (- 14))) (TruncateDay (AddDate now 0 0 (- 7)) - second))
      = Inr (ledger_days L (day_number now - 14) (day_number now - 8))"
    "ce_ledger L (ce_request_of f (date_time (Year now) (Month now) 1) now) = Inr (ledger_days L (day_number now - Day now + 1) (day_number now))"
    using s by (simp_all add: ledger_request month_start_number)
qed

text \<open>
  Claim C36. With Cost Explorer behind it the weekly summary compares eight days with seven: the message that the job sends lists the growth of the seven days
  before today and today, which is not over yet, against the seven days before those, and projects the month from the days since its first;
  the week is marked as done just when that message is accepted.
\<close>

theorem weekly_windows:
  assumes "WE_bill env = (\<lambda>s e. ce_ledger L (ce_request_of no_filter s e))" "ST_billing st" "\<not> ST_weekly_off st"
    and "\<not> has_key dm weeklyStateID (ISOWeekKey now)" "year4 (now - 31 * day24)" "year4 (now + 2 * day24)"
  shows "maybeWeeklyCost st env now dm =
    (let n = day_number now; thisWeek = ledger_days L (n - 7) n; prevWeek = ledger_days L (n - 14) (n - 8); month = ledger_days L (n - Day now + 1) n;
         mtd = fsum (map DS_Cost month); trend = capacityTrend (WE_src env) now dm;
         rows = WeeklyTopGrowth (ST_srt st) (ST_g4 st) thisWeek prevWeek (map (\<lambda>i. (i, the (trend i))) (WE_caps env)) (WE_svcs env) 5;
         eom = ProjectEOM (ST_arch st) mtd now (EstimateRates mtd (Day now) (recentTail month 7))
     in case WE_send env (FormatWeeklySummary rows eom (if month = [] then WE_clock env else DS_Date (last month))) of
          Inl _ \<Rightarrow> (None, dm)
        | Inr _ \<Rightarrow> (Some (ISOWeekKey now), set_key (WE_wall env) now weeklyStateID (ISOWeekKey now) dm))"
  using assms(2-4) by (simp add: maybeWeeklyCost_def weekly_text_def assms(1) weekly_requests [OF assms(5,6)] ok_or_nil_def Let_def)

theorem weekly_windows_witness:
  "fst (maybeWeeklyCost (plain_settings\<lparr>ST_billing := True, ST_weekly_off := False\<rparr>)
     \<lparr>WE_bill = \<lambda>s e. ce_ledger (\<lambda>d. [\<lparr>DS_Date = d * day24, DS_Cost = Fin 1, DS_Service = ''ec2''\<rparr>]) (ce_request_of no_filter s e),
      WE_src = two_samples, WE_svcs = [''ec2''], WE_caps = [], WE_clock = 0, WE_wall = 0, WE_send = \<lambda>_. Inr ()\<rparr> 0 (fresh_daemon [])) = Some (ISOWeekKey 0)"
proof -
  have "civil_of_days (- 31) = (1969, 12, 1)" "civil_of_days 2 = (1970, 1, 3)" by code_simp+
  then have "year4 (0 - 31 * day24)" "year4 (0 + 2 * day24)" by (simp_all add: year4_def Year_def civil_def day_number_def)
  moreover have "\<not> has_key (fresh_daemon []) weeklyStateID k" for k by (simp add: has_key_def fresh_daemon_def state_of_empty)
  ultimately show ?thesis by (subst weekly_windows [where L = "\<lambda>d. [\<lparr>DS_Date = d * day24, DS_Cost = Fin 1, DS_Service = ''ec2''\<rparr>]"]) (simp_all add: Let_def)
qed

subsection \<open>Alibaba billing\<close>

text \<open>
  A server that does not look at the nonce, the time and the signature: requests that differ in nothing else get the same answer.
\<close>

definition nonce_blind :: "(time \<Rightarrow> time \<Rightarrow> bss_net) \<Rightarrow> ali_client \<Rightarrow> bill_filter \<Rightarrow> bool" where
  "nonce_blind net a f \<longleftrightarrow> (\<forall>s e s' e'. BN_Unmarshal (net s e) = BN_Unmarshal (net s' e') \<and>
     (remove1 (''Timestamp'', fmt_rfc3339 (BN_Now (net s e))) (remove1 (''SignatureNonce'', BN_Nonce (net s e)) (bss_params (net s e) a f s))
        = remove1 (''Timestamp'', fmt_rfc3339 (BN_Now (net s' e'))) (remove1 (''SignatureNonce'', BN_Nonce (net s' e')) (bss_params (net s' e') a f s')) \<longrightarrow>
      BN_Get (net s e) (bss_url (net s e) a (bss_params (net s e) a f s)) = BN_Get (net s' e') (bss_url (net s' e') a (bss_params (net s' e') a f s'))))"

lemma BSS_same_month:
  assumes "nonce_blind net a f" "Year s = Year s'" "Month s = Month s'"
  shows "BSS_DailySpend (net s e) a f s e = BSS_DailySpend (net s' e') a f s' e'"
proof -
  have same: "BN_Get (net s e) (bss_url (net s e) a (bss_params (net s e) a f s)) = BN_Get (net s' e') (bss_url (net s' e') a (bss_params (net s' e') a f s'))"
    "BN_Unmarshal (net s e) = BN_Unmarshal (net s' e')"
    using assms by (auto simp: nonce_blind_def bss_params_def)
  show ?thesis unfolding BSS_DailySpend_def same ..
qed

lemma second_half:
  assumes "15 \<le> Day now" "k \<in> {7, 14}"
  shows "Year (TruncateDay (AddDate now 0 0 (- k))) = Year now \<and> Month (TruncateDay (AddDate now 0 0 (- k))) = Month now"
proof -
  have "AddDate now 0 0 (- k) = date_time (Year now) (Month now) (Day now - k) + now mod day24" by (simp add: AddDate_def)
  then have "day_number (TruncateDay (AddDate now 0 0 (- k))) = days_of_civil (Year now) (Month now) (Day now - k)"
    by (simp add: TruncateDay_number day_number_date_time)
  then have "civil (TruncateDay (AddDate now 0 0 (- k))) = civil (date_time (Year now) (Month now) (Day now - k))"
    using day_number_date_time [of 0] by (simp add: civil_def)
  moreover have "1 \<le> Day now - k" "Day now - k \<le> month_len (Year now) (Month now)" using assms civil_valid [of now] by auto
  ultimately show ?thesis using civil_date_time [of "Month now" "Day now - k" "Year now"] civil_valid [of now] by (simp add: Year_def Month_def)
qed

lemma no_growth:
  assumes "\<forall>svc x. dailyByService ss svc = Some x \<longrightarrow> (\<exists>q. x = Fin q)"
  shows "growth_rows g4 ss ss ct svcs = []"
proof -
  have "fle (Fin 0) (rnd (1 / 1000000000))" using rnd_nonneg [of "1 / 1000000000"] by (auto simp: fle_def dest: less_imp_neq)
  moreover have "fsub (Fin q) (Fin q) = Fin 0" for q by (simp add: fsub_def fneg_def fadd_def)
  ultimately show ?thesis using assms by (fastforce simp: growth_rows_def Let_def split: option.splits)
qed

text \<open>
  With Alibaba billing the weekly summary is blind from the 15th of a month on: a request names only the month of its first day, so both
  weeks ask for the same month and get the same spends, and the summary reports that no service has grown, whatever was spent.
\<close>

lemma weekly_bss_blind:
  assumes "15 \<le> Day now" "nonce_blind net a no_filter" "bill = (\<lambda>s e. BSS_DailySpend (net s e) a no_filter s e)"
    and "bill (TruncateDay (AddDate now 0 0 (- 7))) now = Inr thisWeek" "slice_sorter (ST_srt st)"
    and "\<forall>svc x. dailyByService thisWeek svc = Some x \<longrightarrow> (\<exists>q. x = Fin q)"
  shows "\<exists>eom c. weekly_text st bill thisWeek trend svcs caps now clock = FormatWeeklySummary [] eom c"
proof -
  have "bill (TruncateDay (AddDate now 0 0 (- 14))) e = bill (TruncateDay (AddDate now 0 0 (- 7))) now" for e
    unfolding assms(3) using second_half [OF assms(1)] by (intro BSS_same_month [OF assms(2)]) simp_all
  then have prev: "bill (TruncateDay (AddDate now 0 0 (- 14))) e = Inr thisWeek" for e using assms(4) by simp
  have "ST_srt st [] = []" using assms(5) by (metis slice_sorter_def mset_zero_iff)
  then have "WeeklyTopGrowth (ST_srt st) (ST_g4 st) thisWeek thisWeek ct svcs 5 = []" for ct
    by (simp add: WeeklyTopGrowth_def no_growth [OF assms(6)])
  then show ?thesis by (auto simp: weekly_text_def prev ok_or_nil_def Let_def)
qed

definition bss_fixed :: bss_net where
  "bss_fixed = \<lparr>BN_Mac = \<lambda>_ _. [], BN_Nonce = ''n'', BN_Now = 0, BN_Get = \<lambda>_. Resp 200 [], BN_Unmarshal = \<lambda>_. Some [(''2026-03-14'', Fin 5)]\<rparr>"

lemma bss_fixed_spends: "BSS_DailySpend bss_fixed a f s e = Inr [\<lparr>DS_Date = date_time 2026 3 14, DS_Cost = Fin 5, DS_Service = []\<rparr>]"
proof -
  have "parse_date ''2026-03-14'' = Some (date_time 2026 3 14)"
    by (simp add: parse_date_def field_def is_digit_def digit_val_def month_len_def less_eq_char_def Let_def)
  then show ?thesis by (simp add: BSS_DailySpend_def bss_fixed_def opt_res_def bss_spends_def List.map_filter_simps read_limit_def Let_def)
qed

lemma weekly_bss_blind_witness:
  "\<exists>eom c. weekly_text (plain_settings\<lparr>ST_srt := \<lambda>xs. rev (sort_key G_Growth xs)\<rparr>) (\<lambda>s e. BSS_DailySpend bss_fixed \<lparr>AccessKeyID = ''id'', AccessKeySecret = ''key'', Endpoint = []\<rparr> no_filter s e)
     [\<lparr>DS_Date = date_time 2026 3 14, DS_Cost = Fin 5, DS_Service = []\<rparr>] Map.empty [[]] [] (date_time 2026 3 20) 0 = FormatWeeklySummary [] eom c"
proof (rule weekly_bss_blind)
  show "15 \<le> Day (date_time 2026 3 20)" using civil_date_time(3) [of 3 20 2026] by (simp add: month_len_def)
  show "nonce_blind (\<lambda>_ _. bss_fixed) \<lparr>AccessKeyID = ''id'', AccessKeySecret = ''key'', Endpoint = []\<rparr> no_filter" by (simp add: nonce_blind_def bss_fixed_def)
  show "slice_sorter (ST_srt (plain_settings\<lparr>ST_srt := \<lambda>xs. rev (sort_key G_Growth xs)\<rparr>))" using sort_slice_sorter by simp
qed (auto simp: bss_fixed_spends dailyByService_def fsum_def of_i64_def Let_def)

end
