(* ===== verification/Process.thy ===== *)
theory Process
  imports Startup Api
begin

text \<open>
  The process \<^verbatim>\<open>sentinel\<close> (\<^verbatim>\<open>cmd/sentinel/main.go\<close>): which command its arguments select, which database file the command opens, and how the
  daemon is put together and run (\<^verbatim>\<open>runDaemon\<close>); and the process \<^verbatim>\<open>ruleclassify\<close>. The files of databases are a map; opening one that
  is not there creates it, unless it cannot be opened at all.

  Main results: when a daemon process dies by a panic (\<open>daemon_panics\<close>), that the periodic jobs run once per period whatever processes
  are started one after another on a database (\<open>jobs_once_restarts\<close>), what the waste commands can change (\<open>commands_frame\<close>), and that a dismissal reaches the next
  daemon (\<open>dismissal_kept\<close>) but not a running one (\<open>cli_overwritten\<close>).
\<close>

subsection \<open>Surroundings\<close>

text \<open>
  What a process finds: the file system, the decoders, the environment variables, the network behind the price catalog and the
  events. \<open>PR_file\<close> tells which file a path names, \<open>PR_opens\<close> whether SQLite can open it or create it.
\<close>

record process_env =
  PR_fs :: filesys
  PR_config :: "string \<Rightarrow> (raw_config \<times> config) res"
  PR_costmap :: "string \<Rightarrow> usage_template list res"
  PR_env :: "string \<Rightarrow> string"
  PR_pint :: "string \<Rightarrow> int option"
  PR_scan :: "string \<Rightarrow> int"
  PR_file :: "string \<Rightarrow> string"
  PR_opens :: "string \<Rightarrow> bool"
  PR_base :: settings
  PR_hash :: "string \<Rightarrow> string"
  PR_codec :: cache_codec
  PR_net :: price_net
  PR_ord :: "attrs \<Rightarrow> string list"
  PR_now :: time
  PR_setup :: setup_env
  PR_poll :: "string \<Rightarrow> poll_env"
  PR_cancelled :: bool
  PR_waste :: "file_cache waste_env"
  PR_events :: "file_cache event list"
  PR_keys :: "tracker \<Rightarrow> string list"

type_synonym disk = "string \<rightharpoonup> store"

definition open_db :: "process_env \<Rightarrow> disk \<Rightarrow> string \<Rightarrow> (string \<times> store) res" where
  "open_db pe d path =
     (let f = PR_file pe path in
      if PR_opens pe f then Inr (f, case d f of None \<Rightarrow> empty_store | Some s \<Rightarrow> s) else Inl (Err (''open sqlite '' @ path)))"

text \<open>What a process leaves: its exit code (\<open>None\<close> while it runs), its output, the database it used, the jobs that succeeded.\<close>

record outcome =
  OC_exit :: "int option"
  OC_rows :: "string list"
  OC_db :: "string option"
  OC_jobs :: "(job \<times> string) list"

definition exits :: "int \<Rightarrow> outcome" where
  "exits c = \<lparr>OC_exit = Some c, OC_rows = [], OC_db = None, OC_jobs = []\<rparr>"

subsection \<open>The commands\<close>

definition config_flags :: "(string \<times> flag_kind) list" where
  "config_flags = [(''config'', TextFlag)]"

definition status_main :: "process_env \<Rightarrow> string list \<Rightarrow> disk \<Rightarrow> outcome \<times> disk" where
  "status_main pe args d =
     (case parse_flags (PR_pint pe) store_flags args of
        Inl e \<Rightarrow> (exits (flag_exit e), d)
      | Inr (fl, _) \<Rightarrow>
          (case config_Load (PR_fs pe) (PR_config pe) (flag_value fl ''config'' []) of
             Inl _ \<Rightarrow> (exits 1, d)
           | Inr cfg \<Rightarrow>
               (let dbPath = (if flag_value fl ''db'' [] \<noteq> [] then flag_value fl ''db'' [] else DBPath cfg)
                in case open_db pe d dbPath of
                     Inl _ \<Rightarrow> (exits 1, d)
                   | Inr (f, s) \<Rightarrow> (\<lparr>OC_exit = Some 0, OC_rows = runStatus (ST_g4 (PR_base pe)) s, OC_db = Some f, OC_jobs = []\<rparr>, d(f \<mapsto> s)))))"

definition openWasteStore :: "process_env \<Rightarrow> (string \<times> string) list \<Rightarrow> disk \<Rightarrow> (string \<times> store) res" where
  "openWasteStore pe fl d =
     res_bind (if flag_value fl ''db'' [] \<noteq> [] then Inr (flag_value fl ''db'' [])
         else res_bind (config_Load (PR_fs pe) (PR_config pe) (flag_value fl ''config'' [])) (\<lambda>cfg. Inr (DBPath cfg)))
       (\<lambda>path. open_db pe d (resolveDBPath path))"

text \<open>The flags of a command are parsed first, then the database is opened, and then the command does its work.\<close>

definition waste_flags :: "string \<Rightarrow> (string \<times> flag_kind) list" where
  "waste_flags sub = (if sub = ''dismiss'' then [(''days'', IntFlag), (''reason'', TextFlag)] else []) @ store_flags"

definition waste_main :: "process_env \<Rightarrow> string list \<Rightarrow> disk \<Rightarrow> outcome \<times> disk" where
  "waste_main pe args d =
     (case args of [] \<Rightarrow> (exits 2, d)
      | sub # rest \<Rightarrow>
          if sub \<notin> {''list'', ''dismiss'', ''resolve''} then (exits 2, d)
          else (case parse_flags (PR_pint pe) (waste_flags sub) rest of
              Inl e \<Rightarrow> (exits (flag_exit e), d)
            | Inr (fl, _) \<Rightarrow>
                (case openWasteStore pe fl d of
                   Inl _ \<Rightarrow> (exits 1, d)
                 | Inr (f, s) \<Rightarrow>
                     (let (code, s') = runWasteCLI (ST_arch (PR_base pe)) (PR_pint pe) (PR_keys pe) (PR_now pe) args s
                      in (\<lparr>OC_exit = Some code, OC_rows = [], OC_db = Some f, OC_jobs = []\<rparr>, d(f \<mapsto> s'))))))"

subsection \<open>The daemon\<close>

text \<open>A panic ends a Go program with exit code 2; a cancelled daemon returns no error.\<close>

definition status_exit :: "status \<Rightarrow> int option" where
  "status_exit st = (case st of Running \<Rightarrow> None | Stopped \<Rightarrow> Some 0 | Failed _ \<Rightarrow> Some 1 | Crashed \<Rightarrow> Some 2)"

definition assembled :: "process_env \<Rightarrow> config \<Rightarrow> assembly" where
  "assembled pe cfg = newDaemon (PR_scan pe) (LoadCostMap (PR_fs pe) (PR_costmap pe)) (PR_env pe) cfg"

definition process_settings :: "process_env \<Rightarrow> config \<Rightarrow> settings" where
  "process_settings pe cfg = settings_of (assembled pe cfg) (PR_env pe) (PR_base pe)"

definition process_pricer :: "process_env \<Rightarrow> config \<Rightarrow> file_cache pricer option" where
  "process_pricer pe cfg =
     map_option (\<lambda>(cacheDir, ali). catalog_pricer (PR_hash pe) (PR_codec pe) (PR_net pe) \<lparr>TTL = 0, AliClient = Some ali\<rparr> (PR_now pe) (PR_ord pe))
       (AS_pricer (assembled pe cfg))"

definition runDaemon :: "process_env \<Rightarrow> config \<Rightarrow> disk \<Rightarrow> file_cache \<Rightarrow> outcome \<times> disk \<times> file_cache" where
  "runDaemon pe cfg d ps =
     (case open_db pe d (resolveDBPath (DBPath cfg)) of
        Inl _ \<Rightarrow> (exits 1, d, ps)
      | Inr (f, s) \<Rightarrow>
          (let (jobs, st, ps', dm) = Run (process_settings pe cfg) (process_pricer pe cfg) (PR_setup pe) (PR_poll pe) (PR_cancelled pe)
                 (PR_waste pe) (PR_events pe) ps (daemon_of s)
           in (\<lparr>OC_exit = status_exit st, OC_rows = [], OC_db = Some f, OC_jobs = jobs\<rparr>, d(f \<mapsto> DM_store dm), ps')))"

definition daemon_main :: "process_env \<Rightarrow> string list \<Rightarrow> disk \<Rightarrow> file_cache \<Rightarrow> outcome \<times> disk \<times> file_cache" where
  "daemon_main pe args d ps =
     (case parse_flags (PR_pint pe) config_flags args of
        Inl e \<Rightarrow> (exits (flag_exit e), d, ps)
      | Inr (fl, _) \<Rightarrow>
          (case config_Load (PR_fs pe) (PR_config pe) (flag_value fl ''config'' []) of
             Inl _ \<Rightarrow> (exits 1, d, ps)
           | Inr cfg \<Rightarrow> runDaemon pe cfg d ps))"

definition sentinel_main :: "process_env \<Rightarrow> string list \<Rightarrow> disk \<Rightarrow> file_cache \<Rightarrow> outcome \<times> disk \<times> file_cache" where
  "sentinel_main pe args d ps =
     (case args of
        cmd # rest \<Rightarrow>
          (if cmd = ''status'' then (let (oc, d') = status_main pe rest d in (oc, d', ps))
           else if cmd = ''waste'' then (let (oc, d') = waste_main pe rest d in (oc, d', ps))
           else daemon_main pe args d ps)
      | [] \<Rightarrow> daemon_main pe [] d ps)"

subsection \<open>The classification tool\<close>

text \<open>
  \<^verbatim>\<open>cmd/ruleclassify\<close>: the automatic classification of a directory. The exit code, the numbers it reports and the files it has written;
  \<open>walk\<close> is what a walk over a directory meets. A panic of the classification ends the process.
\<close>

definition classify_flags :: "(string \<times> flag_kind) list" where
  "classify_flags = [(''dir'', TextFlag)]"

definition ruleclassify_main :: "arch \<Rightarrow> (string \<Rightarrow> int option) \<Rightarrow> (string \<Rightarrow> string res) \<Rightarrow> (string \<Rightarrow> ynode res) \<Rightarrow> (ynode \<Rightarrow> string res)
    \<Rightarrow> (string \<Rightarrow> walk_entry list) \<Rightarrow> string list \<Rightarrow> int \<times> (int \<times> int) option \<times> (string \<times> string) list" where
  "ruleclassify_main a pint read unmarshal marshal walk args =
     (case parse_flags pint classify_flags args of
        Inl e \<Rightarrow> (flag_exit e, None, [])
      | Inr (fl, _) \<Rightarrow>
          (let dir = flag_value fl ''dir'' [] in
           if dir = [] then (1, None, [])
           else (case AutoClassifyDir a read unmarshal marshal (walk dir) (0, 0, []) of
               ((files, rules, ws), Inr _) \<Rightarrow> (0, Some (files, rules), ws)
             | ((files, rules, ws), Inl Panic) \<Rightarrow> (2, None, ws)
             | ((files, rules, ws), Inl (Err _)) \<Rightarrow> (1, None, ws))))"

subsection \<open>When the daemon panics\<close>

text \<open>
  The seconds between two waste scans of a process, 0 for none: the variable decides if it holds \<^verbatim>\<open>off\<close> or a positive number or 0, otherwise the
  file. A number of seconds overflows if it is no positive number of nanoseconds in 64 bits any more.
\<close>

definition scan_interval :: "process_env \<Rightarrow> config \<Rightarrow> int" where
  "scan_interval pe cfg = (let v = PR_env pe ''WASTE_SCAN_INTERVAL_SEC'' in
     if v = ''off'' \<or> v = ''0'' then 0
     else case Atoi v of Some n \<Rightarrow> if 0 < n then n else WasteScanIntervalSec cfg | None \<Rightarrow> WasteScanIntervalSec cfg)"

definition overflows :: "int \<Rightarrow> bool" where
  "overflows sec \<longleftrightarrow> 0 < sec \<and> (let r = sec * 1000000000 mod 18446744073709551616 in r = 0 \<or> 9223372036854775808 \<le> r)"

lemma wrap64_nonpos: "wrap64 x \<le> 0 \<longleftrightarrow> x mod 2 ^ 64 = 0 \<or> 2 ^ 63 \<le> x mod 2 ^ 64"
proof -
  define r where "r = x mod 2 ^ 64"
  have b: "0 \<le> r" "r < 2 ^ 64" by (simp_all add: r_def)
  have "(x + 2 ^ 63) mod 2 ^ 64 = (r + 2 ^ 63) mod 2 ^ 64" unfolding r_def by (simp only: mod_add_left_eq)
  also have "\<dots> = (if r < 2 ^ 63 then r + 2 ^ 63 else r - 2 ^ 63)"
  proof (cases "r < 2 ^ 63")
    case False
    have "(r + 2 ^ 63) mod 2 ^ 64 = (r - 2 ^ 63 + 2 ^ 64) mod 2 ^ 64" by (simp add: add.commute)
    also have "\<dots> = (r - 2 ^ 63) mod 2 ^ 64" by (simp only: mod_add_self2)
    finally show ?thesis using b False by simp
  qed (use b in simp)
  finally have "wrap64 x \<le> 0 \<longleftrightarrow> r = 0 \<or> 2 ^ 63 \<le> r" using b by (auto simp: wrap64_def)
  then show ?thesis unfolding r_def .
qed

lemma overflows_ticker: "0 < sec \<Longrightarrow> NewTicker_panics sec \<longleftrightarrow> overflows sec"
  by (simp add: NewTicker_panics_def overflows_def wrap64_nonpos Let_def)

text \<open>About 292 years are the limit.\<close>

lemma overflows_range: "sec \<le> 9223372036 \<Longrightarrow> \<not> overflows sec"
  using overflows_ticker [of sec] ticker_range [of sec] by (auto simp: overflows_def)

lemma process_intervals:
  assumes "config_ok cfg"
  shows "WasteScanIntervalSec (ST_cfg (process_settings pe cfg)) = scan_interval pe cfg" "PollIntervalSec (ST_cfg (process_settings pe cfg)) = PollIntervalSec cfg"
    "0 \<le> scan_interval pe cfg" "0 < PollIntervalSec cfg"
proof -
  have "Atoi [] = None" by (simp add: Atoi_def)
  then show "WasteScanIntervalSec (ST_cfg (process_settings pe cfg)) = scan_interval pe cfg" "PollIntervalSec (ST_cfg (process_settings pe cfg)) = PollIntervalSec cfg"
    by (auto simp: process_settings_def settings_of_def assembled_def newDaemon_def split_beta digest_env_keeps applyWasteEnvOverride_def scan_interval_def
        Let_def split: option.splits)
  show "0 \<le> scan_interval pe cfg" "0 < PollIntervalSec cfg"
    using assms by (auto simp: scan_interval_def config_ok_def Let_def split: option.splits)
qed

lemma status_exit_panic: "status_exit st = Some 2 \<longleftrightarrow> st = Crashed"
  by (cases st) (simp_all add: status_exit_def)

text \<open>
  Claim C24. A daemon process that has a price catalog and whose definitions load dies by a panic in three cases only: one of its two intervals is so long that
  it overflows as a duration, so that its ticker cannot be made, or the waste scan is switched off, by the variable or by the file, and the process is not
  cancelled during its first round. Then it always does; whatever the other variables, the files, the servers and the events are, it does
  not panic otherwise, and never before its definitions have loaded.
\<close>

theorem daemon_panics:
  assumes "parse_flags (PR_pint pe) config_flags args = Inr (fl, rest)" "config_Load (PR_fs pe) (PR_config pe) (flag_value fl ''config'' []) = Inr cfg"
    and "open_db pe d (resolveDBPath (DBPath cfg)) = Inr (f, s)" "AS_pricer (assembled pe cfg) \<noteq> None"
    and "source_ok (SE_src (PR_waste pe))" "list_all waste_src_ok (PR_events pe)"
  shows "OC_exit (fst (daemon_main pe args d ps)) = Some 2 \<longleftrightarrow>
    fst (reload_sensors (process_settings pe cfg) (PR_setup pe) (daemon_of s)) = Inr () \<and>
    (overflows (PollIntervalSec cfg) \<or> overflows (scan_interval pe cfg) \<or> scan_interval pe cfg = 0 \<and> \<not> PR_cancelled pe)"
proof -
  let ?st = "process_settings pe cfg"
  obtain dir ali where a: "AS_pricer (assembled pe cfg) = Some (dir, ali)" using assms(4) by auto
  let ?q = "catalog_pricer (PR_hash pe) (PR_codec pe) (PR_net pe) \<lparr>TTL = 0, AliClient = Some ali\<rparr> (PR_now pe) (PR_ord pe)"
  have q: "process_pricer pe cfg = Some ?q" by (simp add: process_pricer_def a)
  let ?r = "Run ?st (Some ?q) (PR_setup pe) (PR_poll pe) (PR_cancelled pe) (PR_waste pe) (PR_events pe) ps (daemon_of s)"
  note I = process_intervals [OF config_Load_ok [OF assms(2)]]
  have "OC_exit (fst (daemon_main pe args d ps)) = Some 2 \<longleftrightarrow> fst (snd ?r) = Crashed"
    using assms(1-3) by (simp add: daemon_main_def runDaemon_def q split_beta status_exit_panic)
  moreover have "0 < scan_interval pe cfg \<and> NewTicker_panics (scan_interval pe cfg) \<longleftrightarrow> overflows (scan_interval pe cfg)"
    "scan_interval pe cfg \<le> 0 \<longleftrightarrow> scan_interval pe cfg = 0"
    using overflows_ticker I(3) [of pe] by (auto simp: overflows_def)
  ultimately show ?thesis
    using overflows_ticker [OF I(4)] by (auto simp: priced_scan.Run_crash [OF assms(5,6)] I(1,2))
qed

text \<open>A process with a cost map, a billing source and an empty set of definitions; \<open>scan\<close> is the variable of the waste scan.\<close>

definition plain_process :: "string \<Rightarrow> file_cache event list \<Rightarrow> process_env" where
  "plain_process scan evs =
     \<lparr>PR_fs = \<lparr>Stat = \<lambda>p. if p = ''map'' then IsFile else NotExist, ReadDir = \<lambda>_. Inr [], ReadFile = \<lambda>_. Inr []\<rparr>, PR_config = \<lambda>_. Inl (Err []), PR_costmap = \<lambda>_. Inr [],
      PR_env = (\<lambda>v. if v = ''SENTINEL_COST_MAP'' then ''map'' else if v = ''WASTE_SCAN_INTERVAL_SEC'' then scan
        else if v \<in> {''AWS_ACCESS_KEY_ID'', ''AWS_SECRET_ACCESS_KEY''} then ''key'' else []),
      PR_pint = Atoi, PR_scan = \<lambda>_. 0, PR_file = \<lambda>p. p, PR_opens = \<lambda>_. True, PR_base = plain_settings, PR_hash = \<lambda>k. k, PR_codec = codec1, PR_net = no_net, PR_ord = \<lambda>_. [],
      PR_now = 0, PR_setup = no_defs, PR_poll = \<lambda>_. quiet_env, PR_cancelled = False,
      PR_waste = \<lparr>SE_src = nan_source, SE_now = 0, SE_wall = 0, SE_float = \<lambda>_. None, SE_attrs = \<lambda>_. None, SE_ord = \<lambda>_. [], SE_send = \<lambda>_. Inr ()\<rparr>,
      PR_events = evs, PR_keys = \<lambda>_. []\<rparr>"

definition plain_disk :: disk where
  "plain_disk = [resolveDBPath (DBPath config_defaults) \<mapsto> empty_store]"

lemma no_defs_reload: "reload_sensors st no_defs dm = (Inr (), dm\<lparr>DM_sensors := [], DM_capDefs := []\<rparr>)"
  by (simp add: reload_sensors_def setupSensors_def no_defs_def LoadDefs_def load_defs_def def_paths_def specLoadAll_def Load_def)

theorem daemon_panics_witness:
  "OC_exit (fst (daemon_main (plain_process ''off'' []) [] plain_disk cache1)) = Some 2
     \<and> OC_exit (fst (daemon_main (plain_process ''10000000000'' []) [] plain_disk cache1)) = Some 2
     \<and> OC_exit (fst (daemon_main (plain_process ''60'' []) [] plain_disk cache1)) \<noteq> Some 2"
proof -
  have iff: "OC_exit (fst (daemon_main (plain_process v []) [] plain_disk cache1)) = Some 2 \<longleftrightarrow>
    overflows (scan_interval (plain_process v []) config_defaults) \<or> scan_interval (plain_process v []) config_defaults = 0" for v
  proof -
    let ?pe = "plain_process v []"
    have c: "config_Load (PR_fs ?pe) (PR_config ?pe) (flag_value [] ''config'' []) = Inr config_defaults"
      by (simp add: config_Load_def flag_value_def)
    have o: "open_db ?pe plain_disk (resolveDBPath (DBPath config_defaults)) = Inr (resolveDBPath (DBPath config_defaults), empty_store)"
      by (simp add: open_db_def plain_process_def plain_disk_def)
    have p: "AS_pricer (assembled ?pe config_defaults) \<noteq> None"
      by (simp add: assembled_def newDaemon_pricer plain_process_def LoadCostMap_def)
    have "\<not> overflows (PollIntervalSec config_defaults)" by (rule overflows_range) (simp add: config_defaults_def)
    moreover have "source_ok (SE_src (PR_waste ?pe))" "list_all waste_src_ok (PR_events ?pe)" "PR_setup ?pe = no_defs" "\<not> PR_cancelled ?pe"
      by (simp_all add: plain_process_def source_ok_def nan_source_def)
    ultimately show ?thesis using daemon_panics [OF _ c o p, where args = "[]" and rest = "[]" and ps = cache1] by (simp add: no_defs_reload)
  qed
  have "Atoi ''10000000000'' = Some 10000000000" "Atoi ''60'' = Some 60"
    by (simp_all add: Atoi_def is_digit_def digit_val_def i64_def Let_def)
  then have "scan_interval (plain_process ''off'' []) config_defaults = 0" "scan_interval (plain_process ''10000000000'' []) config_defaults = 10000000000"
    "scan_interval (plain_process ''60'' []) config_defaults = 60"
    by (simp_all add: scan_interval_def plain_process_def)
  then show ?thesis by (simp add: iff overflows_def)
qed

subsection \<open>Jobs across processes\<close>

text \<open>Processes that are started one after another; they share the databases and the price cache.\<close>

fun sessions :: "(process_env \<times> string list) list \<Rightarrow> disk \<Rightarrow> file_cache \<Rightarrow> outcome list \<times> disk \<times> file_cache" where
  "sessions [] d ps = ([], d, ps)"
| "sessions ((pe, args) # ss) d ps =
     (let (oc, d, ps) = sentinel_main pe args d ps; (ocs, r) = sessions ss d ps in (oc # ocs, r))"

definition jobs_in :: "string \<Rightarrow> job \<Rightarrow> outcome list \<Rightarrow> string list" where
  "jobs_in f j ocs = concat (map (\<lambda>oc. if OC_db oc = Some f then keys_of j (OC_jobs oc) else []) ocs)"

text \<open>No definition that a process loads or reloads uses an id of the daemon's own.\<close>

definition session_ok :: "process_env \<Rightarrow> bool" where
  "session_ok pe \<longleftrightarrow> (\<forall>cfg. env_ok (process_settings pe cfg) (PR_setup pe) \<and> list_all (event_ok (process_settings pe cfg)) (PR_events pe))"

lemma open_db_Inr: "open_db pe d p = Inr (f, s) \<longleftrightarrow> f = PR_file pe p \<and> PR_opens pe f \<and> s = (case d f of None \<Rightarrow> empty_store | Some s \<Rightarrow> s)"
  by (auto simp: open_db_def Let_def)

lemma syncTracker_frame: "syncTracker wall es s = (c, s') \<Longrightarrow> T_states s' = T_states s \<and> T_preds s' = T_preds s \<and> T_next s' = T_next s \<and> c \<in> {0, 1}"
proof (induction es arbitrary: s)
  case (Cons e es)
  show ?case
  proof (cases "SetWasteEntry wall (entryToStore e) s")
    case (Inr s1)
    then have "T_states s1 = T_states s \<and> T_preds s1 = T_preds s \<and> T_next s1 = T_next s"
      by (auto simp: SetWasteEntry_def Let_def split: if_splits)
    then show ?thesis using Cons.IH [of s1] Cons.prems Inr by simp
  qed (use Cons.prems in simp)
qed simp

lemma syncTracker_code [simp]: "syncTracker wall es s \<noteq> (2, s')"
  using syncTracker_frame [of wall es s 2 s'] by auto

lemma runWasteCLI_frame:
  assumes "runWasteCLI a pint ks now args s = (c, s')"
  shows "T_states s' = T_states s \<and> T_preds s' = T_preds s \<and> T_next s' = T_next s \<and> (c = 2 \<or> args = ''list'' # tl args \<longrightarrow> s' = s)"
  using assms
  by (auto simp: runWasteCLI_def wasteDismiss_def wasteResolve_def Let_def split: list.splits if_splits sum.splits dest: syncTracker_frame)

text \<open>
  The waste commands reach no further than the waste table of the database they open: other databases stay as they are, sensor states
  and predictions too, and a listing or a call that is refused changes nothing at all.
\<close>

lemma commands_frame:
  assumes "waste_main pe args d = (oc, d')" "d f = Some s"
  shows "\<exists>s'. d' f = Some s' \<and> T_states s' = T_states s \<and> T_preds s' = T_preds s \<and> T_next s' = T_next s
    \<and> (OC_db oc \<noteq> Some f \<or> OC_exit oc = Some 2 \<or> args = ''list'' # tl args \<longrightarrow> s' = s)"
proof -
  consider "d' = d" | f1 s1 code s2 where "s1 = (case d f1 of None \<Rightarrow> empty_store | Some s \<Rightarrow> s)" "d' = d(f1 \<mapsto> s2)" "OC_db oc = Some f1" "OC_exit oc = Some code"
      "runWasteCLI (ST_arch (PR_base pe)) (PR_pint pe) (PR_keys pe) (PR_now pe) args s1 = (code, s2)"
  proof (cases "d' = d")
    case False
    then obtain sub rest fl r2 f1 s1 where w: "args = sub # rest" "parse_flags (PR_pint pe) (waste_flags sub) rest = Inr (fl, r2)"
        "openWasteStore pe fl d = Inr (f1, s1)" "sub \<in> {''list'', ''dismiss'', ''resolve''}"
      using assms(1) by (auto simp: waste_main_def split: list.splits if_splits sum.splits prod.splits)
    moreover obtain code s2 where c: "runWasteCLI (ST_arch (PR_base pe)) (PR_pint pe) (PR_keys pe) (PR_now pe) args s1 = (code, s2)" by force
    moreover have "s1 = (case d f1 of None \<Rightarrow> empty_store | Some s \<Rightarrow> s)" using w(3) by (auto simp: openWasteStore_def res_bind_Inr open_db_Inr)
    ultimately show ?thesis using that(2) [of s1 f1 s2 code] assms(1) by (auto simp: waste_main_def)
  qed
  then show ?thesis
  proof cases
    case 2
    then show ?thesis using runWasteCLI_frame [OF 2(5)] assms(2) by (cases "f1 = f") auto
  qed (use assms(2) in simp)
qed

lemma sentinel_main_jobs:
  assumes "session_ok pe" "sentinel_main pe args d ps = (oc, d', ps')" "d f = Some s"
  shows "\<exists>s'. d' f = Some s' \<and> kv.job_run (job_id j) s (jobs_in f j [oc]) s'"
proof -
  have quiet: "kv.job_run (job_id j) s [] s1" if "T_states s1 = T_states s" for s1
    using quiet_run [OF state_of_cong [OF that] kv.job_run.idle] .
  have daemon: "\<exists>s'. d' f = Some s' \<and> kv.job_run (job_id j) s (jobs_in f j [oc]) s'" if r: "runDaemon pe cfg d ps = (oc, d', ps')" for cfg
  proof (cases "open_db pe d (resolveDBPath (DBPath cfg))")
    case (Inl e)
    then show ?thesis using r assms(3) kv.job_run.idle by (auto simp: runDaemon_def jobs_in_def exits_def)
  next
    case (Inr fs1)
    obtain f1 s1 where fs: "fs1 = (f1, s1)" by force
    let ?st = "process_settings pe cfg"
    obtain tr st ps1 dm1 where R: "Run ?st (process_pricer pe cfg) (PR_setup pe) (PR_poll pe) (PR_cancelled pe) (PR_waste pe) (PR_events pe) ps (daemon_of s1)
        = (tr, st, ps1, dm1)" by (metis prod_cases4)
    have o: "oc = \<lparr>OC_exit = status_exit st, OC_rows = [], OC_db = Some f1, OC_jobs = tr\<rparr>" "d' = d(f1 \<mapsto> DM_store dm1)"
      using r Inr R by (simp_all add: runDaemon_def fs)
    have "kv.job_run (job_id j) (DM_store (daemon_of s1)) (keys_of j tr) (DM_store dm1)"
      using assms(1) R by (intro Run_run [of ?st]) (auto simp: session_ok_def ids_ok_def daemon_of_def)
    then show ?thesis using Inr assms(3) kv.job_run.idle by (auto simp: o fs jobs_in_def open_db_Inr daemon_of_def)
  qed
  have main: "\<exists>s'. d' f = Some s' \<and> kv.job_run (job_id j) s (jobs_in f j [oc]) s'" if r: "daemon_main pe as d ps = (oc, d', ps')" for as
    using r daemon assms(3) kv.job_run.idle
    by (auto simp: daemon_main_def jobs_in_def exits_def split: sum.splits prod.splits)
  have waste: "\<exists>s'. d' f = Some s' \<and> kv.job_run (job_id j) s (jobs_in f j [oc]) s'" if r: "waste_main pe as d = (oc, d')" for as
  proof -
    have "OC_jobs oc = []" using r by (auto simp: waste_main_def exits_def Let_def split: list.splits if_splits sum.splits prod.splits)
    then show ?thesis using commands_frame [OF r assms(3)] quiet by (auto simp: jobs_in_def)
  qed
  have status: "\<exists>s'. d' f = Some s' \<and> kv.job_run (job_id j) s (jobs_in f j [oc]) s'" if r: "status_main pe as d = (oc, d')" for as
    using r assms(3) kv.job_run.idle
    by (auto simp: status_main_def jobs_in_def exits_def open_db_Inr Let_def split: sum.splits prod.splits if_splits)
  show ?thesis
    using assms(2,3) main waste status kv.job_run.idle
    by (auto simp: sentinel_main_def jobs_in_def split: list.splits if_splits prod.splits)
qed

lemma sessions_jobs:
  "list_all (\<lambda>(pe, args). session_ok pe) ss \<Longrightarrow> sessions ss d ps = (ocs, d', ps') \<Longrightarrow> d f = Some s \<Longrightarrow>
   \<exists>s'. kv.job_run (job_id j) s (jobs_in f j ocs) s'"
proof (induction ss arbitrary: d ps s ocs)
  case Nil
  then show ?case using kv.job_run.idle by (auto simp: jobs_in_def)
next
  case (Cons p ss)
  obtain pe args where p: "p = (pe, args)" by force
  obtain oc d1 ps1 where m: "sentinel_main pe args d ps = (oc, d1, ps1)" by (metis prod_cases3)
  obtain ocs1 r where l: "sessions ss d1 ps1 = (ocs1, r)" by (metis surj_pair)
  obtain s1 where s1: "d1 f = Some s1" "kv.job_run (job_id j) s (jobs_in f j [oc]) s1"
    using sentinel_main_jobs [OF _ m Cons.prems(3)] Cons.prems(1) by (auto simp: p)
  have o: "ocs = oc # ocs1" "r = (d', ps')" using Cons.prems(2) m l by (auto simp: p)
  obtain s2 where "kv.job_run (job_id j) s1 (jobs_in f j ocs1) s2" using Cons.IH [of d1 ps1 ocs1 s1] Cons.prems(1) l o s1(1) by auto
  moreover have "jobs_in f j ocs = jobs_in f j [oc] @ jobs_in f j ocs1" by (simp add: jobs_in_def o)
  ultimately show ?case using kv.job_run_trans [OF s1(2)] by metis
qed

text \<open>
  Claim C23. Every periodic job succeeds at most once per period of a database, over any sequence of processes: daemons that are cancelled, fail,
  crash or are started again, with other configurations, and commands in between. No two consecutive weekly summaries, digests or prunings
  carry the same key, the first one does not repeat the key stored before, and keys in order are all distinct.
\<close>

theorem jobs_once_restarts:
  assumes "list_all (\<lambda>(pe, args). session_ok pe) ss" "sessions ss d ps = (ocs, d', ps')" "d f = Some s"
  shows "successively (\<noteq>) (jobs_in f j ocs) \<and> (jobs_in f j ocs \<noteq> [] \<longrightarrow> state_of s (job_id j) \<noteq> Some (hd (jobs_in f j ocs)))
    \<and> (sorted (jobs_in f j ocs) \<longrightarrow> distinct (jobs_in f j ocs))"
  using sessions_jobs [OF assms, of j] kv.job_run_once kv.job_run_distinct by blast

text \<open>A process that polls once and is cancelled: it sends the summary of the week if its database does not hold that key.\<close>

abbreviation day_process :: process_env where
  "day_process \<equiv> plain_process ''60'' [PollTick quiet_tick, CtxDone]"

abbreviation day_file :: string where
  "day_file \<equiv> resolveDBPath (DBPath config_defaults)"

lemma day_once:
  assumes "d day_file = Some s"
  obtains oc d' ps' where "sentinel_main day_process [] d ps = (oc, d', ps')" "OC_db oc = Some day_file"
    "keys_of Weekly (OC_jobs oc) = (if state_of s weeklyStateID = Some (ISOWeekKey 0) then [] else [ISOWeekKey 0])"
proof -
  define st where "st = process_settings day_process config_defaults"
  define pr where "pr = process_pricer day_process config_defaults"
  let ?dm = "(daemon_of s)\<lparr>DM_tracker := Some (restore_tracker AMD64 s)\<rparr>"
  have st: "WasteScanIntervalSec (ST_cfg st) = 60" "PollIntervalSec (ST_cfg st) = 60" "ST_arch st = AMD64" "ST_billing st" "\<not> ST_weekly_off st"
    by (simp_all add: st_def process_settings_def settings_of_def assembled_def newDaemon_def split_beta digest_env_keeps applyWasteEnvOverride_def plain_process_def
        select_billing_def Let_def plain_settings_def config_defaults_def Atoi_def is_digit_def digit_val_def i64_def)
  have q: "\<not> TE_cancelled quiet_tick" "TE_poll quiet_tick = (\<lambda>_. quiet_env)" by (simp_all add: quiet_tick_def)
  have cat: "\<exists>e. load_catalog st no_defs = Inl e" for st by (simp add: load_catalog_def Loader_Load_def no_defs_def)
  obtain js dm1 where j: "run_jobs st quiet_tick ?dm = (js, dm1)" by force
  have d0: "(daemon_of s)\<lparr>DM_sensors := [], DM_capDefs := []\<rparr> = daemon_of s" "DM_sensors ?dm = []" "DM_catalog ?dm = None" "DM_store (daemon_of s) = s"
    by (simp_all add: daemon_of_def)
  then have p: "snd (runOnePoll a e ?dm) = ?dm" for a e by (simp add: runOnePoll_def daemon_of_def)
  have w: "runWasteScan st pr we ps ?dm = (ps, Inr ([], ?dm))" for we by (simp add: runWasteScan_def d0)
  have l: "select_loop st pr [PollTick quiet_tick, CtxDone] ps ?dm = (js, Stopped, ps, dm1)"
    using j by (simp add: select_loop.simps st p q)
  have "\<not> NewTicker_panics 60" by (rule ticker_range) simp_all
  then have R: "Run st pr no_defs (\<lambda>_. quiet_env) False (PR_waste day_process) [PollTick quiet_tick, CtxDone] ps (daemon_of s) = (js, Stopped, ps, dm1)"
    using cat [of st] w l by (auto simp: Run_def no_defs_reload d0 p st Let_def)
  have k: "keys_of Weekly js = (if state_of s weeklyStateID = Some (ISOWeekKey 0) then [] else [ISOWeekKey 0])"
    using j st(4,5) by (auto simp: run_jobs_def maybeWeeklyCost_def quiet_tick_def has_key_def daemon_of_def split_beta Let_def)
  have o: "open_db day_process d day_file = Inr (day_file, s)" using assms by (simp add: open_db_def plain_process_def)
  have "PR_setup day_process = no_defs" "PR_poll day_process = (\<lambda>_. quiet_env)" "\<not> PR_cancelled day_process" "PR_events day_process = [PollTick quiet_tick, CtxDone]"
    by (simp_all add: plain_process_def)
  then have "sentinel_main day_process [] d ps = (\<lparr>OC_exit = Some 0, OC_rows = [], OC_db = Some day_file, OC_jobs = js\<rparr>, d(day_file \<mapsto> DM_store dm1), ps)"
    using R by (simp add: sentinel_main_def daemon_main_def config_Load_def flag_value_def runDaemon_def o status_exit_def flip: st_def pr_def)
  then show thesis using that k by simp
qed

lemma event_ok_tick [simp]: "event_ok st (PollTick te)" "event_ok st CtxDone"
  by (simp_all add: event_ok_def)

lemma day_session: "session_ok day_process"
  by (simp add: session_ok_def plain_process_def env_ok_def no_defs_def LoadDefs_def load_defs_def def_paths_def specLoadAll_def Load_def)

theorem jobs_once_restarts_witness:
  "\<exists>ocs d' ps'. sessions [(day_process, []), (day_process, [''waste'', ''list'']), (day_process, [])] plain_disk cache1 = (ocs, d', ps')
     \<and> jobs_in day_file Weekly ocs = [ISOWeekKey 0]"
proof -
  obtain oc1 d1 ps1 where 1: "sentinel_main day_process [] plain_disk cache1 = (oc1, d1, ps1)" "OC_db oc1 = Some day_file"
      "keys_of Weekly (OC_jobs oc1) = [ISOWeekKey 0]"
    using day_once [of plain_disk empty_store cache1] by (auto simp: plain_disk_def state_of_empty)
  obtain oc2 d2 where 2: "waste_main day_process [''list''] d1 = (oc2, d2)" by force
  then have c: "sentinel_main day_process [''waste'', ''list''] d1 ps1 = (oc2, d2, ps1)" by (simp add: sentinel_main_def)
  have "OC_jobs oc2 = []" using 2 by (auto simp: waste_main_def exits_def Let_def split: if_splits sum.splits prod.splits)
  obtain s1 where "d1 day_file = Some s1" using sentinel_main_jobs [OF day_session 1(1), of day_file empty_store] by (auto simp: plain_disk_def)
  from commands_frame [OF 2 this] obtain s2 where "d2 day_file = Some s2" by blast
  from day_once [of d2 s2 ps1, OF this] obtain oc3 d3 ps3 where 3: "sentinel_main day_process [] d2 ps1 = (oc3, d3, ps3)" "OC_db oc3 = Some day_file"
      "keys_of Weekly (OC_jobs oc3) \<in> {[], [ISOWeekKey 0]}"
    by (metis insertCI)
  have r: "sessions [(day_process, []), (day_process, [''waste'', ''list'']), (day_process, [])] plain_disk cache1 = ([oc1, oc2, oc3], d3, ps3)"
    using 1 3 c by simp
  have "jobs_in day_file Weekly [oc1, oc2, oc3] \<in> {[ISOWeekKey 0], [ISOWeekKey 0, ISOWeekKey 0]}"
    using 1 3 \<open>OC_jobs oc2 = []\<close> by (auto simp: jobs_in_def)
  moreover have "successively (\<noteq>) (jobs_in day_file Weekly [oc1, oc2, oc3])"
    using jobs_once_restarts [OF _ r, of day_file empty_store Weekly] by (simp add: day_session plain_disk_def)
  ultimately show ?thesis using r by auto
qed

subsection \<open>A dismissal reaches the next daemon\<close>

definition stored_entries :: "arch \<Rightarrow> store \<Rightarrow> tentry list" where
  "stored_entries a s = entriesFromStore (AllWasteEntries a s)"

text \<open>The waste table of a database that the daemon has written: one row per key, with entries that the schema accepts.\<close>

definition waste_table_ok :: "arch \<Rightarrow> store \<Rightarrow> bool" where
  "waste_table_ok a s \<longleftrightarrow> distinct (map fst (T_waste s)) \<and> list_all storable (stored_entries a s) \<and> inj_on entry_key (set (stored_entries a s))"

lemma restored: "entries (restore_tracker a s) = foldl (\<lambda>m e. m(entry_key e \<mapsto> e)) Map.empty (stored_entries a s)"
  by (simp add: restore_tracker_def Restore_def NewTracker_def stored_entries_def)

lemmas restored_ok = restore_entries_ok

lemma restored_iff:
  assumes "waste_table_ok a s"
  shows "entries (restore_tracker a s) k = Some e \<longleftrightarrow> e \<in> set (stored_entries a s) \<and> entry_key e = k"
proof -
  have inj: "inj_on entry_key (set (stored_entries a s))" using assms by (simp add: waste_table_ok_def)
  show ?thesis
  proof (cases "k \<in> entry_key ` set (stored_entries a s)")
    case True
    then obtain x where x: "x \<in> set (stored_entries a s)" "entry_key x = k" by blast
    then have "entries (restore_tracker a s) k = Some x" unfolding restored using foldl_inj_upd [OF inj x(1), of "\<lambda>e. e"] by simp
    then show ?thesis using x inj by (auto simp: inj_on_def)
  next
    case False
    then show ?thesis unfolding restored using foldl_upd_other [OF False, of "\<lambda>e. e" Map.empty] by auto
  qed
qed

lemma row_pair: "k \<in> fst ` set (T_waste s) \<Longrightarrow> \<exists>e \<in> set (stored_entries a s). entry_pair e = k"
proof -
  assume "k \<in> fst ` set (T_waste s)"
  then obtain c where "(k, c) \<in> set (T_waste s)" by auto
  then have "entry_of_store (scan_waste a (k, c)) \<in> set (stored_entries a s)" by (auto simp: stored_entries_def entriesFromStore_def AllWasteEntries_def)
  moreover have "entry_pair (entry_of_store (scan_waste a (k, c))) = k"
    by (cases k) (simp add: entry_pair_def entry_of_store_def scan_waste_def)
  ultimately show ?thesis by blast
qed

lemma sync_persists: "list_all storable es \<Longrightarrow> syncTracker wall es s = (0, persistWasteEntries wall es s)"
proof (induction es arbitrary: s)
  case (Cons e es)
  then obtain s1 where "SetWasteEntry wall (entryToStore e) s = Inr s1" using SetWasteEntry_stored [of e wall s] by auto
  then show ?case using Cons by (simp add: persistWasteEntries_def or_log_def)
qed (simp add: persistWasteEntries_def)

lemma table_kept: "waste_table_ok a s \<Longrightarrow> kept (entries (restore_tracker a s)) s"
proof -
  assume t: "waste_table_ok a s"
  have "\<exists>e. entries (restore_tracker a s) (pair_key p) = Some e \<and> entry_pair e = p" if p: "p \<in> fst ` set (T_waste s)" for p
  proof -
    obtain e where "e \<in> set (stored_entries a s)" "entry_pair e = p" using row_pair [OF p] by blast
    then show ?thesis using restored_iff [OF t, of "pair_key p" e] by (auto simp: entry_key_pair)
  qed
  then show "kept (entries (restore_tracker a s)) s" using t restored_ok by (simp add: kept_def waste_table_ok_def)
qed

text \<open>What the command does with a table: one entry of the resource is put aside and everything is written back.\<close>

lemma dismiss_command:
  assumes "waste_table_ok a s" "\<And>t. finite (dom (entries t)) \<Longrightarrow> iter_order (entries t) (ks t)"
    and "parse_flags pint (waste_flags ''dismiss'') args = Inr (fl, [i])" "\<exists>e \<in> set (stored_entries a s). Te_Resource e = i"
    and "until = (if flag_int pint fl ''days'' 0 > 0 then AddDate now 0 0 (flag_int pint fl ''days'' 0) else time_zero)" "IsZero until \<or> year4 until"
  obtains k e t where "entries (restore_tracker a s) k = Some e" "Te_Resource e = i"
    "entries t = (entries (restore_tracker a s))(k \<mapsto> e\<lparr>Te_State := LifecycleDismissed, Te_DismissReason := flag_value fl ''reason'' [], Te_DismissUntil := until\<rparr>)"
    "iter_order (entries t) (ks t)" "kept (entries t) s" "list_all storable (Entries (ks t) t)"
    "runWasteCLI a pint ks now (''dismiss'' # args) s = (0, persistWasteEntries now (Entries (ks t) t) s)"
    "entries (restore_tracker a (persistWasteEntries now (Entries (ks t) t) s)) = entries t"
proof -
  let ?t = "restore_tracker a s" and ?put = "\<lambda>e. e\<lparr>Te_State := LifecycleDismissed, Te_DismissReason := flag_value fl ''reason'' [], Te_DismissUntil := until\<rparr>"
  have fin: "finite (dom (entries ?t))" using restored_ok by (simp add: entries_ok_def)
  note ord = assms(2) [OF fin]
  obtain x where x: "x \<in> set (stored_entries a s)" "Te_Resource x = i" using assms(4) by blast
  then have "entry_key x \<in> set (ks ?t)" "Te_Resource (the (entries ?t (entry_key x))) = i"
    using ord restored_iff [OF assms(1), of "entry_key x" x] by (auto simp: iter_order_def)
  then have "find (\<lambda>k. Te_Resource (the (entries ?t k)) = i) (ks ?t) \<noteq> None" by (auto simp: find_None_iff)
  then obtain k where k: "find (\<lambda>k. Te_Resource (the (entries ?t k)) = i) (ks ?t) = Some k" by blast
  then obtain e where e: "entries ?t k = Some e" "Te_Resource e = i" using found_key [OF ord k] by (auto simp: find_Some_iff)
  then have e': "e \<in> set (stored_entries a s)" "entry_key e = k" using restored_iff [OF assms(1)] by auto
  define t where "t = ?t\<lparr>entries := (entries ?t)(k \<mapsto> ?put e)\<rparr>"
  have D: "Dismiss (ks ?t) i (flag_value fl ''reason'' []) until ?t = Inr t" by (simp add: Dismiss_def k t_def e(1))
  have ok: "entries_ok (entries t)" by (rule Dismiss_entries [OF restored_ok ord D])
  have ordt: "iter_order (entries t) (ks t)" using assms(2) [of t] ok by (simp add: entries_ok_def)
  have E: "set (Entries (ks t) t) = ran (entries t)" using Entries_inj [OF ok ordt] by blast
  have ran: "ran (entries t) \<subseteq> insert (?put e) (set (stored_entries a s))"
    using restored_iff [OF assms(1)] by (auto simp: t_def ran_def split: if_splits)
  have "storable x" if "x \<in> set (stored_entries a s)" for x using assms(1) that by (auto simp: waste_table_ok_def list_all_iff)
  moreover from this [OF e'(1)] have "storable (?put e)" using assms(6) by (auto simp: storable_def refused_def)
  ultimately have S: "list_all storable (Entries (ks t) t)" using ran by (auto simp: list_all_iff E)
  have "entry_pair (?put e) = entry_pair e" by (simp add: entry_pair_def)
  then have kept: "kept (entries t) s"
    using table_kept [OF assms(1)] ok e(1) unfolding kept_def t_def by auto
  have "storable y" if "entries t q = Some y" for q y using S E that by (auto simp: list_all_iff ran_def)
  then have R: "entries (restore_tracker a (persistWasteEntries now (Entries (ks t) t) s)) = entries t"
    using restored_persist(1,2) [OF kept ordt, where a = a and wall = now] by (intro ext) (metis not_None_eq)
  have "runWasteCLI a pint ks now (''dismiss'' # args) s = (0, persistWasteEntries now (Entries (ks t) t) s)"
    using assms(3) D sync_persists [OF S, of now s]
    by (simp add: runWasteCLI_def wasteDismiss_def waste_flags_def loadTracker_def restore_tracker_def [symmetric] flip: assms(5))
  moreover have "entries t = (entries ?t)(k \<mapsto> ?put e)" by (simp add: t_def)
  ultimately show thesis using that [OF e] ordt kept S R by blast
qed

text \<open>
  Claim C33. A dismissal is kept: given for a resource in the table of a stopped daemon, the command succeeds, and the daemon that is started next has
  the same entries except that one entry of the resource is put aside, with the reason and until the deadline of the flags.
\<close>

theorem dismissal_kept:
  assumes "waste_table_ok a s" "\<And>t. finite (dom (entries t)) \<Longrightarrow> iter_order (entries t) (ks t)"
    and "parse_flags pint (waste_flags ''dismiss'') args = Inr (fl, [i])" "\<exists>e \<in> set (stored_entries a s). Te_Resource e = i"
    and "until = (if flag_int pint fl ''days'' 0 > 0 then AddDate now 0 0 (flag_int pint fl ''days'' 0) else time_zero)" "IsZero until \<or> year4 until"
  shows "\<exists>e s'. e \<in> set (stored_entries a s) \<and> Te_Resource e = i \<and> runWasteCLI a pint ks now (''dismiss'' # args) s = (0, s')
    \<and> entries (restore_tracker a s') = (entries (restore_tracker a s))
        (entry_key e \<mapsto> e\<lparr>Te_State := LifecycleDismissed, Te_DismissReason := flag_value fl ''reason'' [], Te_DismissUntil := until\<rparr>)"
proof (rule dismiss_command [OF assms])
  fix k e t assume k: "entries (restore_tracker a s) k = Some e" "Te_Resource e = i"
    "entries t = (entries (restore_tracker a s))(k \<mapsto> e\<lparr>Te_State := LifecycleDismissed, Te_DismissReason := flag_value fl ''reason'' [], Te_DismissUntil := until\<rparr>)"
    "runWasteCLI a pint ks now (''dismiss'' # args) s = (0, persistWasteEntries now (Entries (ks t) t) s)"
    "entries (restore_tracker a (persistWasteEntries now (Entries (ks t) t) s)) = entries t"
  then show ?thesis using restored_iff [OF assms(1), of k e] by (intro exI [of _ e]) simp
qed

text \<open>A table with one idle resource.\<close>

lemma found_key0: "entry_key (fresh_entry cand0 0) = ''elb/Idle''" "Te_Resource (fresh_entry cand0 0) = ''Idle''" "Te_DismissReason (fresh_entry cand0 0) = []"
  "Te_State (fresh_entry cand0 0) = LifecycleNotified"
  by (simp_all add: fresh_entry_def cand0_def resourceKey_def map_get_def entry_key_def)

lemma found_table: "stored_entries AMD64 (persistWasteEntries 0 [fresh_entry cand0 0] empty_store) = [fresh_entry cand0 0]"
  "waste_table_ok AMD64 (persistWasteEntries 0 [fresh_entry cand0 0] empty_store)"
proof -
  let ?e = "fresh_entry cand0 0" and ?s = "persistWasteEntries 0 [fresh_entry cand0 0] empty_store"
  have w: "T_waste ?s = [(entry_pair ?e, entry_cols ?e)]" by (simp add: persist_rows entry_row_storable [OF cand0_storable] empty_store_def)
  then show one: "stored_entries AMD64 ?s = [?e]"
    by (simp add: stored_entries_def entriesFromStore_def AllWasteEntries_def scan_stored [OF cand0_storable])
  show "waste_table_ok AMD64 ?s" using cand0_storable by (simp add: waste_table_ok_def one w)
qed

lemma days_flags: "parse_flags Atoi (waste_flags ''dismiss'') [''-days'', ''7'', ''Idle''] = Inr ([(''days'', ''7'')], [''Idle''])"
  "flag_int Atoi [(''days'', ''7'')] ''days'' 0 = 7" "flag_value [(''days'', ''7'')] ''reason'' [] = []" "year4 (AddDate 0 0 0 7)"
proof -
  show "parse_flags Atoi (waste_flags ''dismiss'') [''-days'', ''7'', ''Idle''] = Inr ([(''days'', ''7'')], [''Idle''])"
    by (simp add: waste_flags_def flag_name_def HasPrefix_def flag_ok_def Atoi_def is_digit_def digit_val_def i64_def Let_def)
  show "flag_int Atoi [(''days'', ''7'')] ''days'' 0 = 7" "flag_value [(''days'', ''7'')] ''reason'' [] = []"
    by (simp_all add: flag_int_def flag_value_def Atoi_def is_digit_def digit_val_def i64_def Let_def)
  show "year4 (AddDate 0 0 0 7)" by code_simp
qed

theorem dismissal_kept_witness:
  "\<exists>s'. runWasteCLI AMD64 Atoi (\<lambda>t. sorted_list_of_set (dom (entries t))) 0 [''dismiss'', ''-days'', ''7'', ''Idle''] (persistWasteEntries 0 [fresh_entry cand0 0] empty_store) = (0, s')
     \<and> entries (restore_tracker AMD64 s') ''elb/Idle'' = Some ((fresh_entry cand0 0)\<lparr>Te_State := LifecycleDismissed, Te_DismissUntil := AddDate 0 0 0 7\<rparr>)"
proof -
  let ?s = "persistWasteEntries 0 [fresh_entry cand0 0] empty_store"
  have "\<exists>e s'. e \<in> set (stored_entries AMD64 ?s) \<and> Te_Resource e = ''Idle''
      \<and> runWasteCLI AMD64 Atoi (\<lambda>t. sorted_list_of_set (dom (entries t))) 0 (''dismiss'' # [''-days'', ''7'', ''Idle'']) ?s = (0, s')
      \<and> entries (restore_tracker AMD64 s') = (entries (restore_tracker AMD64 ?s))
          (entry_key e \<mapsto> e\<lparr>Te_State := LifecycleDismissed, Te_DismissReason := flag_value [(''days'', ''7'')] ''reason'' [], Te_DismissUntil := AddDate 0 0 0 7\<rparr>)"
    using found_table(1) found_key0(2) days_flags(4) by (intro dismissal_kept [OF found_table(2) _ days_flags(1)]) (auto simp: days_flags(2) iter_order_def)
  then show ?thesis using found_key0 by (auto simp: found_table(1) days_flags(3) fun_upd_def)
qed

subsection \<open>The commands in the life of the waste list\<close>

lemma update_keys: "k \<in> fst ` set al \<Longrightarrow> map fst (AList.update k v al) = map fst al"
  by (induction al) auto

lemma syncTracker_rows: "syncTracker wall es s = (c, s') \<Longrightarrow> entry_pair ` set es \<subseteq> fst ` set (T_waste s) \<Longrightarrow> map fst (T_waste s') = map fst (T_waste s)"
proof (induction es arbitrary: s)
  case (Cons e es)
  show ?case
  proof (cases "SetWasteEntry wall (entryToStore e) s")
    case (Inr s1)
    then obtain r where s1: "s1 = s\<lparr>T_waste := AList.update (entry_pair e) r (T_waste s)\<rparr>"
      by (auto simp: SetWasteEntry_def entryToStore_def entry_pair_def Let_def split: if_splits)
    then have k: "map fst (T_waste s1) = map fst (T_waste s)" using Cons.prems(2) by (simp add: update_keys)
    then have "fst ` set (T_waste s1) = fst ` set (T_waste s)" by (metis list.set_map)
    then show ?thesis using Cons.IH [of s1] Cons.prems Inr k by simp
  qed (use Cons.prems in simp)
qed simp

lemma restored_pair:
  assumes "kept m s" "entries (restore_tracker a s) q = Some e"
  shows "entry_pair e \<in> fst ` set (T_waste s)"
proof -
  have d: "distinct (map fst (T_waste s))" using assms(1) by (simp add: kept_def)
  note R = restored_row [OF d kept_inj [OF assms(1)], where a = a]
  obtain p where p: "p \<in> fst ` set (T_waste s)" "q = pair_key p" using R(2) [of q] assms(2) by force
  then obtain c where "map_of (T_waste s) p = Some c" by (metis map_of_eq_None_iff not_None_eq)
  then show ?thesis using R(1) [of p c] p assms(2) entry_of_row_pair by force
qed

text \<open>A command neither adds nor removes a row, so it may come at any moment of the list's life.\<close>

lemma commands_life:
  assumes "waste_life t s" "\<And>t. finite (dom (entries t)) \<Longrightarrow> iter_order (entries t) (ks t)" "runWasteCLI a pint ks now args s = (c, s')"
  shows "waste_life t s'"
proof -
  let ?t = "restore_tracker a s"
  have fin: "finite (dom (entries ?t))" using restored_ok by (simp add: entries_ok_def)
  have sync: "map fst (T_waste s') = map fst (T_waste s)"
    if "syncTracker now (Entries (ks t1) t1) s = (c, s')" "entries_ok (entries t1)"
      and pairs: "\<forall>q e. entries t1 q = Some e \<longrightarrow> (\<exists>e0. entries ?t q = Some e0 \<and> entry_pair e0 = entry_pair e)" for t1
  proof (rule syncTracker_rows [OF that(1)])
    have "set (Entries (ks t1) t1) = ran (entries t1)" using Entries_inj [OF that(2) assms(2)] that(2) by (simp add: entries_ok_def)
    moreover have "entry_pair e \<in> fst ` set (T_waste s)" if e: "entries t1 q = Some e" for q e
      using restored_pair [OF life_kept [OF assms(1)], of a q] pairs e by fastforce
    ultimately show "entry_pair ` set (Entries (ks t1) t1) \<subseteq> fst ` set (T_waste s)" by (auto simp: ran_def)
  qed
  have D: "map fst (T_waste s') = map fst (T_waste s)"
    if d: "Dismiss (ks ?t) i r why ?t = Inr t1" "syncTracker now (Entries (ks t1) t1) s = (c, s')" for i r why t1
  proof (rule sync [OF d(2) Dismiss_entries [OF restored_ok assms(2) [OF fin] d(1)]])
    show "\<forall>q e. entries t1 q = Some e \<longrightarrow> (\<exists>e0. entries ?t q = Some e0 \<and> entry_pair e0 = entry_pair e)"
      using d(1) by (auto simp: Dismiss_def entry_pair_def split: option.splits if_splits dest!: found_key [OF assms(2) [OF fin]])
  qed
  have V: "map fst (T_waste s') = map fst (T_waste s)"
    if d: "Tracker_Resolve (ks ?t) i ?t = Inr t1" "syncTracker now (Entries (ks t1) t1) s = (c, s')" for i t1
  proof (rule sync [OF d(2) Resolve_entries [OF restored_ok assms(2) [OF fin] d(1)]])
    show "\<forall>q e. entries t1 q = Some e \<longrightarrow> (\<exists>e0. entries ?t q = Some e0 \<and> entry_pair e0 = entry_pair e)"
      using d(1) by (auto simp: Tracker_Resolve_def entry_pair_def Let_def split: option.splits if_splits dest!: found_key [OF assms(2) [OF fin]])
  qed
  have "map fst (T_waste s') = map fst (T_waste s)"
    using assms(3) D V
    by (auto simp: runWasteCLI_def wasteDismiss_def wasteResolve_def loadTracker_def Let_def simp flip: restore_tracker_def
        split: list.splits if_splits sum.splits prod.splits)
  then show ?thesis by (rule waste_life.others [OF assms(1)])
qed

subsection \<open>A dismissal does not reach a running daemon\<close>

text \<open>
  Claim C40. A dismissal given while the daemon runs is lost: the command succeeds, and a process started now would have the entry put aside; but the
  running daemon, which holds the entries of the table, finds and sends in its next scan what it would have without the command,
  and writes all its entries back, so that the next process has the same entries as if the command had never been given, and that entry not put aside.
\<close>

theorem cli_overwritten:
  assumes "waste_table_ok a (DM_store dm)" "\<And>t. finite (dom (entries t)) \<Longrightarrow> iter_order (entries t) (ks t) \<and> iter_order (entries t) (SE_ord we t)"
    and "parse_flags pint (waste_flags ''dismiss'') args = Inr (fl, [i])" "\<exists>e \<in> set (stored_entries a (DM_store dm)). Te_Resource e = i"
    and "\<forall>e \<in> set (stored_entries a (DM_store dm)). Te_Resource e = i \<longrightarrow> Te_State e \<noteq> LifecycleDismissed"
    and "until = (if flag_int pint fl ''days'' 0 > 0 then AddDate now 0 0 (flag_int pint fl ''days'' 0) else time_zero)" "IsZero until \<or> year4 until"
    and "DM_catalog dm = Some cat" "DM_tracker dm = Some t" "entries t = entries (restore_tracker a (DM_store dm))" "0 < WasteScanIntervalSec (ST_cfg st)"
    and "runWasteScan st pr we ps dm = (ps', Inr (sent, dm'))" "\<forall>e \<in> ran (entries (the (DM_tracker dm'))). storable e"
  shows "\<exists>k s1 dm1. runWasteCLI a pint ks now (''dismiss'' # args) (DM_store dm) = (0, s1)
    \<and> map_option Te_State (entries (restore_tracker a s1) k) = Some LifecycleDismissed
    \<and> runWasteScan st pr we ps (dm\<lparr>DM_store := s1\<rparr>) = (ps', Inr (sent, dm1)) \<and> DM_tracker dm1 = DM_tracker dm'
    \<and> entries (restore_tracker a (DM_store dm1)) = entries (restore_tracker a (DM_store dm'))
    \<and> map_option Te_State (entries (restore_tracker a (DM_store dm1)) k) \<notin> {None, Some LifecycleDismissed}"
proof -
  let ?s = "DM_store dm"
  obtain k e t1 where k: "entries (restore_tracker a ?s) k = Some e" "Te_Resource e = i"
      "entries t1 = (entries (restore_tracker a ?s))(k \<mapsto> e\<lparr>Te_State := LifecycleDismissed, Te_DismissReason := flag_value fl ''reason'' [], Te_DismissUntil := until\<rparr>)"
      "iter_order (entries t1) (ks t1)" "kept (entries t1) ?s"
      "runWasteCLI a pint ks now (''dismiss'' # args) ?s = (0, persistWasteEntries now (Entries (ks t1) t1) ?s)"
      "entries (restore_tracker a (persistWasteEntries now (Entries (ks t1) t1) ?s)) = entries t1"
    using dismiss_command [OF assms(1) _ assms(3,4,6,7)] assms(2) by metis
  define s1 where "s1 = persistWasteEntries now (Entries (ks t1) t1) ?s"
  obtain cs t' where scan: "observe_all (SE_send we) (SE_now we) cs t = (sent, t')" "DM_tracker dm' = Some t'"
      "DM_store dm' = persistWasteEntries (SE_wall we) (Entries (SE_ord we t') t') ?s"
      "\<And>s. runWasteScan st pr we ps (dm\<lparr>DM_store := s\<rparr>) = (ps', Inr (sent, dm\<lparr>DM_tracker := Some t',
        DM_store := persistWasteEntries (SE_wall we) (Entries (SE_ord we t') t') s\<rparr>))"
    by (rule runWasteScan_store [OF assms(12,8,9,11)]) blast
  have "kept (entries t1) s1" using kept_persist [OF k(5,4)] by (simp add: s1_def)
  then have "kept (entries t) s1" using k(1,3) restored_ok assms(10) by (auto simp: kept_def entry_pair_def split: if_splits)
  then have K: "kept (entries t') s1" "kept (entries t') ?s"
    using kept_observe_all [OF scan(1)] table_kept [OF assms(1)] assms(10) by simp_all
  then have o: "iter_order (entries t') (SE_ord we t')" using assms(2) [of t'] by (simp add: kept_def entries_ok_def)
  have st: "storable x" if "entries t' q = Some x" for q x using assms(13) scan(2) that by (auto simp: ran_def)
  have R: "entries (restore_tracker a (persistWasteEntries (SE_wall we) (Entries (SE_ord we t') t') s)) = entries t'" if "kept (entries t') s" for s
    using restored_persist(1,2) [OF that o, where a = a and wall = "SE_wall we"] st by (intro ext) (metis not_None_eq)
  have "e \<in> set (stored_entries a ?s)" using k(1) restored_iff [OF assms(1)] by blast
  then have "Te_State e \<noteq> LifecycleDismissed" using assms(5) k(2) by blast
  then obtain e' where e': "entries t' k = Some e'" "Te_State e' \<noteq> LifecycleDismissed"
    using observe_all_entry [OF scan(1), of k e] k(1) assms(10) by auto
  have "map_option Te_State (entries (restore_tracker a s1) k) = Some LifecycleDismissed" using k(3,7) by (simp add: s1_def)
  then show ?thesis
    using scan(2,3) scan(4) [of s1] R [OF K(1)] R [OF K(2)] e' k(6)
    by (intro exI [of _ k] exI [of _ s1] exI [of _ "dm\<lparr>DM_tracker := Some t', DM_store := persistWasteEntries (SE_wall we) (Entries (SE_ord we t') t') s1\<rparr>"])
       (simp flip: s1_def)
qed

text \<open>A daemon that has found an idle resource and stored it, before a scan that finds nothing.\<close>

definition idle_daemon :: daemon where
  "idle_daemon = (daemon_of (persistWasteEntries 0 [fresh_entry cand0 0] empty_store))\<lparr>DM_catalog := Some \<lparr>Groups = [], Version = [], LoadedAt = 0\<rparr>,
     DM_tracker := Some (fst (Observe cand0 0 NewTracker))\<rparr>"

definition quiet_scan :: "file_cache waste_env" where
  "quiet_scan = \<lparr>SE_src = nan_source, SE_now = 0, SE_wall = 0, SE_float = \<lambda>_. None, SE_attrs = \<lambda>_. None,
     SE_ord = \<lambda>t. sorted_list_of_set (dom (entries t)), SE_send = \<lambda>_. Inr ()\<rparr>"

theorem cli_overwritten_witness:
  "\<exists>k s1 dm1. runWasteCLI AMD64 Atoi (\<lambda>t. sorted_list_of_set (dom (entries t))) 0 [''dismiss'', ''-days'', ''7'', ''Idle''] (DM_store idle_daemon) = (0, s1)
     \<and> map_option Te_State (entries (restore_tracker AMD64 s1) k) = Some LifecycleDismissed
     \<and> runWasteScan plain_settings None quiet_scan cache1 (idle_daemon\<lparr>DM_store := s1\<rparr>) = (cache1, Inr ([], dm1))
     \<and> map_option Te_State (entries (restore_tracker AMD64 (DM_store dm1)) k) \<notin> {None, Some LifecycleDismissed}"
proof -
  let ?e = "fresh_entry cand0 0" and ?ks = "\<lambda>t :: tracker. sorted_list_of_set (dom (entries t))"
  have s: "DM_store idle_daemon = persistWasteEntries 0 [?e] empty_store" by (simp add: idle_daemon_def daemon_of_def)
  have t: "DM_tracker idle_daemon = Some (fst (Observe cand0 0 NewTracker))" "DM_catalog idle_daemon = Some \<lparr>Groups = [], Version = [], LoadedAt = 0\<rparr>"
    by (simp_all add: idle_daemon_def)
  have en: "entries (fst (Observe cand0 0 NewTracker)) = [''elb/Idle'' \<mapsto> ?e]"
    by (simp add: Observe_def NewTracker_def cand_key_def cand0_def resourceKey_def map_get_def Let_def)
  have same: "entries (fst (Observe cand0 0 NewTracker)) = entries (restore_tracker AMD64 (DM_store idle_daemon))"
    using found_key0(1) by (auto simp: en s restored found_table(1))
  obtain dm' where scan: "runWasteScan plain_settings None quiet_scan cache1 idle_daemon = (cache1, Inr ([], dm'))"
      "DM_tracker dm' = Some (fst (Observe cand0 0 NewTracker))"
    using t by (simp add: runWasteScan_def plain_settings_def config_defaults_def Scan_def RulesOfKind_def)
  have st: "\<forall>e \<in> ran (entries (the (DM_tracker dm'))). storable e" using cand0_storable by (simp add: scan(2) en)
  have o: "finite (dom (entries t)) \<Longrightarrow> iter_order (entries t) (?ks t) \<and> iter_order (entries t) (SE_ord quiet_scan t)" for t
    by (simp add: iter_order_def quiet_scan_def)
  have i: "0 < WasteScanIntervalSec (ST_cfg plain_settings)" by (simp add: plain_settings_def config_defaults_def)
  have r: "\<exists>e \<in> set (stored_entries AMD64 (DM_store idle_daemon)). Te_Resource e = ''Idle''"
    "\<forall>e \<in> set (stored_entries AMD64 (DM_store idle_daemon)). Te_Resource e = ''Idle'' \<longrightarrow> Te_State e \<noteq> LifecycleDismissed"
    by (simp_all add: s found_table(1) found_key0)
  have u: "AddDate 0 0 0 7 = (if flag_int Atoi [(''days'', ''7'')] ''days'' 0 > 0 then AddDate 0 0 0 (flag_int Atoi [(''days'', ''7'')] ''days'' 0) else time_zero)"
    "IsZero (AddDate 0 0 0 7) \<or> year4 (AddDate 0 0 0 7)"
    using days_flags(4) by (simp_all add: days_flags(2))
  from cli_overwritten [OF found_table(2) [folded s] o days_flags(1) r u t(2,1) same i scan(1) st] show ?thesis by blast
qed

end
